(* ===== verification/Cs_Prelude.thy ===== *)
theory Cs_Prelude
  imports Main "HOL-Library.Word"
begin

text \<open>
  Shared vocabulary of the development: results with errors as values, the machine integers of the
  Rust sources, little-endian byte encodings, slices of byte vectors and alignment arithmetic,
  together with the generic lemmas the component theories use.

  Conventions. A Rust \<^verbatim>\<open>Result<T, E>\<close> is a sum with \<^verbatim>\<open>Err\<close> on the left. A
  \<^verbatim>\<open>usize\<close>, and a \<^verbatim>\<open>u64\<close> that counts bytes of an in-memory vector, is a
  \<open>nat\<close>: it is bounded by the address space, so its sums do not wrap. A \<^verbatim>\<open>u64\<close> that
  comes out of untrusted bytes is a \<open>nat\<close> below \<open>2 ^ 64\<close> and its checked and saturating
  operations are written out below. An \<^verbatim>\<open>i64\<close> or \<^verbatim>\<open>i128\<close> is an \<open>int\<close>, with
  the wrap-around of \<^verbatim>\<open><<\<close> and of casts written out. An instruction word is a
  \<open>32 word\<close>, a byte an \<open>8 word\<close>.
\<close>

unbundle bit_operations_syntax

named_theorems byte_simps \<open>lengths, reads and writes of byte encodings\<close>
named_theorems ok_intros \<open>postconditions of successful results\<close>
named_theorems err_intros \<open>postconditions of errors\<close>
named_theorems eval_simps \<open>definitions unfolded to evaluate the model on a concrete input\<close>

type_synonym byte = "8 word"
type_synonym u32 = "32 word"

section \<open>Results\<close>

abbreviation Err :: "'e \<Rightarrow> 'e + 'a" where
  "Err \<equiv> Inl"

abbreviation Ok :: "'a \<Rightarrow> 'e + 'a" where
  "Ok \<equiv> Inr"

text \<open>The question mark operator: stop at the first error.\<close>

fun rbind :: "'e + 'a \<Rightarrow> ('a \<Rightarrow> 'e + 'b) \<Rightarrow> 'e + 'b" where
  "rbind (Inl e) f = Inl e"
| "rbind (Inr x) f = f x"

fun map_err :: "('e \<Rightarrow> 'f) \<Rightarrow> 'e + 'a \<Rightarrow> 'f + 'a" where
  "map_err f (Inl e) = Inl (f e)"
| "map_err f (Inr x) = Inr x"

fun is_ok :: "'e + 'a \<Rightarrow> bool" where
  "is_ok (Inl e) = False"
| "is_ok (Inr x) = True"

definition ok_or :: "'e \<Rightarrow> 'a option \<Rightarrow> 'e + 'a" where
  "ok_or e v = (case v of None \<Rightarrow> Inl e | Some x \<Rightarrow> Inr x)"

lemma rbind_Ok_iff: "rbind r f = Inr y \<longleftrightarrow> (\<exists>x. r = Inr x \<and> f x = Inr y)"
  by (cases r) auto

lemma rbind_Err_iff: "rbind r f = Inl e \<longleftrightarrow> r = Inl e \<or> (\<exists>x. r = Inr x \<and> f x = Inl e)"
  by (cases r) auto

lemma rbind_OkE [elim!]:
  assumes "rbind r f = Inr y"
  obtains x where "r = Inr x" "f x = Inr y"
  using assms by (auto simp: rbind_Ok_iff)

text \<open>Evaluation goes left to right: the continuation waits for the value.\<close>

lemma rbind_weak_cong: "r = r' \<Longrightarrow> rbind r f = rbind r' f"
  by simp

lemma map_err_Ok_iff [simp]: "map_err f r = Inr y \<longleftrightarrow> r = Inr y"
  by (cases r) auto

lemma map_err_Err_iff: "map_err f r = Inl e \<longleftrightarrow> (\<exists>e'. r = Inl e' \<and> e = f e')"
  by (cases r) auto

lemma map_err_rbind [simp]:
  "map_err f (rbind r (\<lambda>x. Inr (g x))) = rbind (map_err f r) (\<lambda>x. Inr (g x))"
  by (cases r) simp_all

lemma ok_or_Ok_iff [simp]: "ok_or e v = Inr x \<longleftrightarrow> v = Some x"
  by (simp add: ok_or_def split: option.splits)

lemma ok_or_simps [simp]: "ok_or e None = Inl e" "ok_or e (Some x) = Inr x"
  by (simp_all add: ok_or_def)

lemma is_ok_iff: "is_ok r \<longleftrightarrow> (\<exists>x. r = Inr x)"
  by (cases r) auto

text \<open>
  A postcondition of the values a computation can return, with one rule per construct: a fact about
  every successful outcome is proved by \<open>intro ok_intros\<close> along the structure of the code.
\<close>

definition all_ok :: "('a \<Rightarrow> bool) \<Rightarrow> 'e + 'a \<Rightarrow> bool" where
  "all_ok P r \<longleftrightarrow> (\<forall>x. r = Inr x \<longrightarrow> P x)"

lemma all_okD: "all_ok P r \<Longrightarrow> r = Inr x \<Longrightarrow> P x"
  by (simp add: all_ok_def)

lemma all_ok_True [ok_intros]: "all_ok (\<lambda>_. True) r"
  by (simp add: all_ok_def)

lemma all_ok_Inl [ok_intros]: "all_ok P (Inl e)"
  by (simp add: all_ok_def)

lemma all_ok_Inr [ok_intros]: "P x \<Longrightarrow> all_ok P (Inr x)"
  by (simp add: all_ok_def)

lemma all_ok_if [ok_intros]:
  "(b \<Longrightarrow> all_ok P x) \<Longrightarrow> (\<not> b \<Longrightarrow> all_ok P y) \<Longrightarrow> all_ok P (if b then x else y)"
  by simp

lemma all_ok_rbind:
  "all_ok Q r \<Longrightarrow> (\<And>x. Q x \<Longrightarrow> all_ok P (f x)) \<Longrightarrow> all_ok P (rbind r f)"
  by (cases r) (auto simp: all_ok_def)

lemma all_ok_option [ok_intros]:
  "(v = None \<Longrightarrow> all_ok P x) \<Longrightarrow> (\<And>y. v = Some y \<Longrightarrow> all_ok P (f y)) \<Longrightarrow>
    all_ok P (case v of None \<Rightarrow> x | Some y \<Rightarrow> f y)"
  by (cases v) simp_all

text \<open>The same for the errors a computation can return.\<close>

definition all_err :: "('e \<Rightarrow> bool) \<Rightarrow> 'e + 'a \<Rightarrow> bool" where
  "all_err P r \<longleftrightarrow> (\<forall>e. r = Inl e \<longrightarrow> P e)"

lemma all_errD: "all_err P r \<Longrightarrow> r = Inl e \<Longrightarrow> P e"
  by (simp add: all_err_def)

lemma all_err_Inl [err_intros]: "P e \<Longrightarrow> all_err P (Inl e)"
  by (simp add: all_err_def)

lemma all_err_Inr [err_intros]: "all_err P (Inr x)"
  by (simp add: all_err_def)

lemma all_err_if [err_intros]:
  "(b \<Longrightarrow> all_err P x) \<Longrightarrow> (\<not> b \<Longrightarrow> all_err P y) \<Longrightarrow> all_err P (if b then x else y)"
  by simp

lemma all_err_rbind [err_intros]:
  "all_err P r \<Longrightarrow> (\<And>x. r = Inr x \<Longrightarrow> all_err P (f x)) \<Longrightarrow> all_err P (rbind r f)"
  by (cases r) (auto simp: all_err_def)

lemma all_err_ok_or [err_intros]: "P e \<Longrightarrow> all_err P (ok_or e v)"
  by (simp add: all_err_def ok_or_def split: option.splits)

lemma all_err_option [err_intros]:
  "(v = None \<Longrightarrow> all_err P x) \<Longrightarrow> (\<And>y. v = Some y \<Longrightarrow> all_err P (f y)) \<Longrightarrow>
    all_err P (case v of None \<Rightarrow> x | Some y \<Rightarrow> f y)"
  by (cases v) simp_all

lemma all_err_prod [err_intros]: "(\<And>x y. v = (x, y) \<Longrightarrow> all_err P (f x y)) \<Longrightarrow> all_err P (case v of (x, y) \<Rightarrow> f x y)"
  by (cases v) simp

lemma all_err_map_err [err_intros]: "all_err (\<lambda>e. P (f e)) r \<Longrightarrow> all_err P (map_err f r)"
  by (cases r) (simp_all add: all_err_def)

section \<open>Machine integers\<close>

definition in_i64 :: "int \<Rightarrow> bool" where
  "in_i64 v \<longleftrightarrow> - (2 ^ 63) \<le> v \<and> v < 2 ^ 63"

definition in_u64 :: "int \<Rightarrow> bool" where
  "in_u64 v \<longleftrightarrow> 0 \<le> v \<and> v < 2 ^ 64"

text \<open>The value an \<^verbatim>\<open>as i64\<close> cast or a wrapping \<^verbatim>\<open>i64\<close> operation keeps.\<close>

definition wrap_i64 :: "int \<Rightarrow> int" where
  "wrap_i64 v = signed_take_bit 63 v"

definition i64_shl :: "int \<Rightarrow> nat \<Rightarrow> int" where
  "i64_shl v k = wrap_i64 (push_bit k v)"

definition i64_shr :: "int \<Rightarrow> nat \<Rightarrow> int" where
  "i64_shr v k = drop_bit k v"

definition checked_add_u64 :: "nat \<Rightarrow> nat \<Rightarrow> nat option" where
  "checked_add_u64 a b = (if a + b < 2 ^ 64 then Some (a + b) else None)"

definition checked_sub_u64 :: "nat \<Rightarrow> nat \<Rightarrow> nat option" where
  "checked_sub_u64 a b = (if b \<le> a then Some (a - b) else None)"

definition checked_mul_u64 :: "nat \<Rightarrow> nat \<Rightarrow> nat option" where
  "checked_mul_u64 a b = (if a * b < 2 ^ 64 then Some (a * b) else None)"

definition saturating_add_u64 :: "nat \<Rightarrow> nat \<Rightarrow> nat" where
  "saturating_add_u64 a b = min (a + b) (2 ^ 64 - 1)"

definition saturating_sub_u64 :: "nat \<Rightarrow> nat \<Rightarrow> nat" where
  "saturating_sub_u64 a b = a - b"

lemma wrap_i64_id: "in_i64 v \<Longrightarrow> wrap_i64 v = v"
  by (simp add: wrap_i64_def in_i64_def signed_take_bit_int_eq_self)

lemma wrap_i64_range: "in_i64 (wrap_i64 v)"
  using signed_take_bit_int_greater_eq_minus_exp [of 63 v] signed_take_bit_int_less_exp [of 63 v]
  by (simp add: wrap_i64_def in_i64_def)

text \<open>Shifting left and back right keeps the low bits, with the top one of them as the sign.\<close>

lemma i64_shl_shr:
  assumes "0 < k" "k \<le> 63"
  shows "i64_shr (i64_shl v k) k = signed_take_bit (63 - k) v"
  using assms
  by (auto simp: i64_shr_def i64_shl_def wrap_i64_def bit_eq_iff bit_simps min_def)

section \<open>Byte vectors\<close>

text \<open>Little-endian encodings of the low \<open>k\<close> bytes of a number, and their value.\<close>

fun nat_to_le :: "nat \<Rightarrow> nat \<Rightarrow> byte list" where
  "nat_to_le 0 v = []"
| "nat_to_le (Suc k) v = word_of_nat v # nat_to_le k (v div 256)"

fun le_to_nat :: "byte list \<Rightarrow> nat" where
  "le_to_nat [] = 0"
| "le_to_nat (b # bs) = unat b + 256 * le_to_nat bs"

abbreviation u32_le :: "u32 \<Rightarrow> byte list" where
  "u32_le w \<equiv> nat_to_le 4 (unat w)"

definition u32_of_le :: "byte list \<Rightarrow> u32" where
  "u32_of_le bs = word_of_nat (le_to_nat bs)"

text \<open>\<^verbatim>\<open>bytes.get(s..e)\<close>: \<open>None\<close> where the range is reversed or leaves the vector.\<close>

definition get_range :: "'a list \<Rightarrow> nat \<Rightarrow> nat \<Rightarrow> 'a list option" where
  "get_range bs s e = (if s \<le> e \<and> e \<le> length bs then Some (take (e - s) (drop s bs)) else None)"

text \<open>\<^verbatim>\<open>out[off..off + len].copy_from_slice(bs)\<close> on a buffer that is long enough.\<close>

definition write_at :: "'a list \<Rightarrow> nat \<Rightarrow> 'a list \<Rightarrow> 'a list" where
  "write_at out off bs = take off out @ bs @ drop (off + length bs) out"

text \<open>\<^verbatim>\<open>bytes.chunks_exact(n)\<close>: an incomplete last chunk is dropped.\<close>

function chunks_exact :: "nat \<Rightarrow> 'a list \<Rightarrow> 'a list list" where
  "chunks_exact n xs =
     (if n = 0 \<or> length xs < n then [] else take n xs # chunks_exact n (drop n xs))"
  by pat_completeness auto
termination by (relation "measure (\<lambda>(n, xs). length xs)") auto

declare chunks_exact.simps [simp del]

lemma chunks_exact_simps:
  "length xs < n \<Longrightarrow> chunks_exact n xs = []"
  "0 < n \<Longrightarrow> n \<le> length xs \<Longrightarrow> chunks_exact n xs = take n xs # chunks_exact n (drop n xs)"
  by (simp_all add: chunks_exact.simps [of n xs])

lemma length_chunks_exact: "0 < n \<Longrightarrow> length (chunks_exact n xs) = length xs div n"
proof (induction n xs rule: chunks_exact.induct)
  case (1 n xs)
  show ?case
  proof (cases "length xs < n")
    case False
    with 1 have "length (chunks_exact n (drop n xs)) = (length xs - n) div n" by simp
    with False 1 show ?thesis by (simp add: chunks_exact_simps le_div_geq)
  qed (simp add: chunks_exact_simps)
qed

lemma nth_chunks_exact:
  "0 < n \<Longrightarrow> i < length xs div n \<Longrightarrow> chunks_exact n xs ! i = take n (drop (i * n) xs)"
proof (induction n xs arbitrary: i rule: chunks_exact.induct)
  case (1 n xs)
  have "n \<le> length xs" using "1.prems" by (cases "length xs < n") simp_all
  with 1 show ?case
    by (cases i) (auto simp: chunks_exact_simps le_div_geq add.commute)
qed

lemma length_nat_to_le [simp, byte_simps]: "length (nat_to_le k v) = k"
  by (induction k arbitrary: v) auto

lemma nat_to_le_numeral [eval_simps]:
  "nat_to_le (numeral k) v = word_of_nat v # nat_to_le (pred_numeral k) (v div 256)"
  by (simp only: numeral_eq_Suc [of k] nat_to_le.simps)

lemma le_to_nat_nat_to_le: "le_to_nat (nat_to_le k v) = v mod 256 ^ k"
proof (induction k arbitrary: v)
  case 0
  then show ?case by simp
next
  case (Suc k)
  have "unat (word_of_nat v :: byte) = v mod 256"
    by (simp add: unat_of_nat)
  then have "le_to_nat (nat_to_le (Suc k) v) = v mod 256 + 256 * (v div 256 mod 256 ^ k)"
    by (simp add: Suc.IH)
  also have "\<dots> = v mod 256 ^ Suc k"
    by (simp add: mod_mult2_eq)
  finally show ?case .
qed

lemma le_to_nat_nat_to_le_id [byte_simps]: "v < 256 ^ k \<Longrightarrow> le_to_nat (nat_to_le k v) = v"
  by (simp add: le_to_nat_nat_to_le)

lemma unat_byte_less: "unat (b :: byte) < 256"
  using unsigned_less [of b, where ?'a = nat] by simp

lemma unat_u32_less: "unat (w :: u32) < 2 ^ 32"
  using unsigned_less [of w, where ?'a = nat] by simp

lemma nat_to_le_le_to_nat [byte_simps]: "length bs = k \<Longrightarrow> nat_to_le k (le_to_nat bs) = bs"
proof (induction bs arbitrary: k)
  case Nil
  then show ?case by simp
next
  case (Cons b bs)
  have "(unat b + 256 * le_to_nat bs) mod 256 = unat b"
    using unat_byte_less [of b] by simp
  then have "unat (word_of_nat (unat b + 256 * le_to_nat bs) :: byte) = unat b"
    by (simp add: unat_of_nat del: of_nat_add)
  then have "word_of_nat (unat b + 256 * le_to_nat bs) = b"
    by (simp add: word_unat_eq_iff)
  moreover have "(unat b + 256 * le_to_nat bs) div 256 = le_to_nat bs"
    using unat_byte_less [of b] by simp
  ultimately show ?case using Cons by auto
qed

lemma le_to_nat_bound: "le_to_nat bs < 256 ^ length bs"
proof (induction bs)
  case (Cons b bs)
  with unat_byte_less [of b] show ?case by simp
qed simp

lemma u32_of_le_u32_le [simp, byte_simps]: "u32_of_le (u32_le w) = w"
proof -
  have "unat w < 256 ^ 4" using unat_u32_less [of w] by simp
  then show ?thesis by (simp add: u32_of_le_def le_to_nat_nat_to_le_id)
qed

lemma u32_le_u32_of_le [byte_simps]:
  assumes "length bs = 4"
  shows "u32_le (u32_of_le bs) = bs"
proof -
  have "le_to_nat bs < 2 ^ 32" using le_to_nat_bound [of bs] assms by simp
  then have "unat (u32_of_le bs) = le_to_nat bs"
    by (simp add: u32_of_le_def unat_of_nat)
  then show ?thesis using assms by (simp add: nat_to_le_le_to_nat)
qed

lemma length_write_at [byte_simps]:
  "off + length bs \<le> length out \<Longrightarrow> length (write_at out off bs) = length out"
  by (simp add: write_at_def)

lemma get_range_Some_length: "get_range bs s e = Some xs \<Longrightarrow> length xs = e - s"
  by (auto simp: get_range_def split: if_splits)

section \<open>Alignment\<close>

lemma aligned_diff4: "a mod 4 = 0 \<Longrightarrow> t mod 4 = 0 \<Longrightarrow> a \<le> t \<Longrightarrow> (t :: nat) = a + (t - a) div 4 * 4"
  by presburger

text \<open>
  \<^verbatim>\<open>(value + align - 1) & !(align - 1)\<close> for a power of two, as the sources write it.
\<close>

definition align_up :: "nat \<Rightarrow> nat \<Rightarrow> nat" where
  "align_up value align =
     (if align \<le> 1 then value
      else nat (int (value + align - 1) AND NOT (int (align - 1))))"

definition padding_for :: "nat \<Rightarrow> nat \<Rightarrow> nat" where
  "padding_for offset align = align_up offset align - offset"

lemma and_not_mask_int: "(x :: int) AND NOT (mask k) = push_bit k (drop_bit k x)"
  by (rule bit_eqI) (auto simp: bit_simps)

lemma align_up_pow2:
  "align_up v (2 ^ k) = (v + 2 ^ k - 1) div 2 ^ k * 2 ^ k"
proof (cases "k = 0")
  case True
  then show ?thesis by (simp add: align_up_def)
next
  case False
  have "int (v + 2 ^ k - 1) AND NOT (int (2 ^ k - 1)) = int ((v + 2 ^ k - 1) div 2 ^ k * 2 ^ k)"
    using and_not_mask_int [of "int (v + 2 ^ k - 1)" k]
    by (simp add: mask_eq_exp_minus_1 of_nat_diff push_bit_eq_mult drop_bit_eq_div zdiv_int)
  moreover have "\<not> 2 ^ k \<le> (1 :: nat)"
    using False one_less_power [of "2 :: nat" k] by simp
  ultimately show ?thesis by (simp only: align_up_def if_False nat_int)
qed

text \<open>
  Rounding up to a power of two gives the least multiple that is not smaller, and the padding
  depends on the offset modulo the alignment only.
\<close>

lemma align_up_props:
  assumes "a = 2 ^ k"
  shows "a dvd align_up v a" "v \<le> align_up v a" "align_up v a < v + a"
proof -
  have eq: "align_up v a = (v + a - 1) div a * a" using assms by (simp add: align_up_pow2)
  have pos: "0 < a" using assms by simp
  show "a dvd align_up v a" by (simp add: eq)
  have "(v + a - 1) div a * a + (v + a - 1) mod a = v + a - 1" by simp
  moreover have "(v + a - 1) mod a < a" using pos by simp
  ultimately show "v \<le> align_up v a" "align_up v a < v + a"
    using pos unfolding eq by linarith+
qed

declare
  u32_of_le_def [eval_simps] get_range_def [eval_simps] write_at_def [eval_simps]
  chunks_exact_simps [eval_simps] checked_add_u64_def [eval_simps] checked_sub_u64_def [eval_simps]
  checked_mul_u64_def [eval_simps] saturating_add_u64_def [eval_simps]
  saturating_sub_u64_def [eval_simps] in_i64_def [eval_simps] wrap_i64_def [eval_simps]
  i64_shl_def [eval_simps] i64_shr_def [eval_simps] align_up_def [eval_simps]
  padding_for_def [eval_simps]

end
