(* ===== verification/Asm_Error.thy ===== *)
theory Asm_Error
  imports Cs_Prelude
begin

text \<open>
  Errors of the assembler. A \<^verbatim>\<open>CompileError\<close> is modelled by its kind (one constructor per
  error site of \<^verbatim>\<open>src/codegen/assembler.rs\<close>, with the values its message prints), the
  diagnostic code and the generated-assembly location that are attached on the way out. The prose of
  the messages is not modelled. \<open>Panic\<close> stands for a Rust panic: a slice with reversed bounds
  or an arithmetic overflow.
\<close>

datatype section_kind = Text | Rodata

datatype asm_error_kind =
    UnresolvedCalls "string list"
  | NoEntryPoint
  | LoadSegmentBeforeText
  | DuplicateLabel string nat
  | UnknownLabel string
  | BiasUnderflow
  | InvalidBlockRange nat nat
  | EmptyBlock
  | CoverageOverlap nat
  | CoverageCount nat nat
  | LayoutOrderLength nat nat
  | LayoutOrderMissing nat
  | LayoutOrderRepeats nat
  | BranchTargetNotBlock string nat nat
  | UnsupportedSection string
  | WordRange int
  | ByteRange int
  | UnsupportedAlign int
  | UnsupportedInstruction string
  | NotConditionalBranch
  | ShiftAmountRange string
  | LiDomain int
  | LiLiteralDomain string
  | InvalidImmediate string
  | HeaderBufferSize
  | SectionHeaderBufferSize
  | ProgramHeaderBufferSize
  | InvalidAscii string
  | UnterminatedEscape
  | IncompleteHexEscape
  | InvalidHexEscape string
  | UnsupportedEscape string
  | InvalidMemoryOperand string
  | UnknownRegister string
  | MalformedInstruction
  | BranchMisaligned
  | JumpMisaligned
  | ImmediateRange int nat
  | LuiAddiRange int
  | SplitOverflow int
  | SplitLowRange int
  | RelativeOffsetOverflow
  | InvalidPlan
  | EvidenceTextOverflow
  | EvidenceNoEntry
  | Panic

datatype diagnostic_code = E2200 | E2201 | E2202

record provenance =
  prov_line :: nat
  prov_text :: string
  prov_section :: section_kind
  prov_op_index :: nat

record compile_error =
  err_kind :: asm_error_kind
  err_code :: "diagnostic_code option"
  err_asm :: "provenance option"

type_synonym 'a asm = "compile_error + 'a"

definition new_error :: "asm_error_kind \<Rightarrow> compile_error" where
  "new_error k = \<lparr>err_kind = k, err_code = None, err_asm = None\<rparr>"

abbreviation fail :: "asm_error_kind \<Rightarrow> 'a asm" where
  "fail k \<equiv> Inl (new_error k)"

text \<open>The innermost location wins: an error that already carries one is kept as it is.\<close>

definition attach :: "provenance \<Rightarrow> compile_error \<Rightarrow> compile_error" where
  "attach p e = (case err_asm e of Some _ \<Rightarrow> e | None \<Rightarrow> e\<lparr>err_asm := Some p\<rparr>)"

definition with_codegen_code :: "diagnostic_code \<Rightarrow> compile_error \<Rightarrow> compile_error" where
  "with_codegen_code c e = (case err_code e of Some _ \<Rightarrow> e | None \<Rightarrow> e\<lparr>err_code := Some c\<rparr>)"

lemma err_kind_attach [simp]: "err_kind (attach p e) = err_kind e"
  by (simp add: attach_def split: option.splits)

lemma err_kind_with_codegen_code [simp]: "err_kind (with_codegen_code c e) = err_kind e"
  by (simp add: with_codegen_code_def split: option.splits)

lemma err_asm_with_codegen_code [simp]: "err_asm (with_codegen_code c e) = err_asm e"
  by (simp add: with_codegen_code_def split: option.splits)

lemma attach_attach [simp]: "attach p (attach q e) = attach q e"
  by (simp add: attach_def split: option.splits)

lemma err_asm_attach: "err_asm (attach p e) \<noteq> None"
  by (simp add: attach_def split: option.splits)

end
