(* ===== verification/Rv_Encode.thy ===== *)
theory Rv_Encode
  imports Asm_Error
begin

text \<open>
  RV64 instruction word formats and immediate arithmetic of
  \<^verbatim>\<open>src/codegen/assembler.rs\<close>: the R, I, S, B, U and J encoders, the signed-field check, the
  LUI/ADDI split of an offset and the PC-relative offset. The lemmas give, for every format, the
  fields a decoder reads back.
\<close>

unbundle bit_operations_syntax

section \<open>Definitions\<close>

definition signed_bits_fit :: "int \<Rightarrow> nat \<Rightarrow> bool" where
  "signed_bits_fit value bits =
     (let mn = - (2 ^ (bits - 1)); mx = 2 ^ (bits - 1) - 1 in value \<ge> mn \<and> value \<le> mx)"

definition encode_signed_bits :: "int \<Rightarrow> nat \<Rightarrow> u32 asm" where
  "encode_signed_bits value bits =
     (if \<not> signed_bits_fit value bits then fail (ImmediateRange value bits)
      else Ok (word_of_int value AND (push_bit bits 1 - 1)))"

definition encode_r_type :: "u32 \<Rightarrow> byte \<Rightarrow> u32 \<Rightarrow> byte \<Rightarrow> byte \<Rightarrow> u32 \<Rightarrow> u32" where
  "encode_r_type opcode rd funct3 rs1 rs2 funct7 =
     push_bit 25 funct7 OR push_bit 20 (ucast rs2) OR push_bit 15 (ucast rs1)
     OR push_bit 12 funct3 OR push_bit 7 (ucast rd) OR opcode"

definition encode_i_type :: "u32 \<Rightarrow> byte \<Rightarrow> u32 \<Rightarrow> byte \<Rightarrow> int \<Rightarrow> u32 asm" where
  "encode_i_type opcode rd funct3 rs1 imm =
     rbind (encode_signed_bits imm 12) (\<lambda>imm.
       Ok (push_bit 20 imm OR push_bit 15 (ucast rs1) OR push_bit 12 funct3
           OR push_bit 7 (ucast rd) OR opcode))"

definition encode_s_type :: "u32 \<Rightarrow> u32 \<Rightarrow> byte \<Rightarrow> byte \<Rightarrow> int \<Rightarrow> u32 asm" where
  "encode_s_type opcode funct3 rs1 rs2 imm =
     rbind (encode_signed_bits imm 12) (\<lambda>imm.
       let imm_lo = imm AND 0x1f; imm_hi = drop_bit 5 imm AND 0x7f in
       Ok (push_bit 25 imm_hi OR push_bit 20 (ucast rs2) OR push_bit 15 (ucast rs1)
           OR push_bit 12 funct3 OR push_bit 7 imm_lo OR opcode))"

text \<open>The source tests \<^verbatim>\<open>imm % 2 != 0\<close>, which for either sign says that the offset is odd.\<close>

definition encode_b_type :: "u32 \<Rightarrow> u32 \<Rightarrow> byte \<Rightarrow> byte \<Rightarrow> int \<Rightarrow> u32 asm" where
  "encode_b_type opcode funct3 rs1 rs2 imm =
     (if imm mod 2 \<noteq> 0 then fail BranchMisaligned
      else rbind (encode_signed_bits imm 13) (\<lambda>imm.
        let bit12 = drop_bit 12 imm AND 0x1;
            bits10_5 = drop_bit 5 imm AND 0x3f;
            bits4_1 = drop_bit 1 imm AND 0xf;
            bit11 = drop_bit 11 imm AND 0x1
        in Ok (push_bit 31 bit12 OR push_bit 25 bits10_5 OR push_bit 20 (ucast rs2)
               OR push_bit 15 (ucast rs1) OR push_bit 12 funct3 OR push_bit 8 bits4_1
               OR push_bit 7 bit11 OR opcode)))"

definition encode_u_type :: "u32 \<Rightarrow> byte \<Rightarrow> int \<Rightarrow> u32" where
  "encode_u_type opcode rd imm =
     push_bit 12 (word_of_int imm AND 0x000fffff) OR push_bit 7 (ucast rd) OR opcode"

definition encode_j_type :: "u32 \<Rightarrow> byte \<Rightarrow> int \<Rightarrow> u32 asm" where
  "encode_j_type opcode rd imm =
     (if imm mod 2 \<noteq> 0 then fail JumpMisaligned
      else rbind (encode_signed_bits imm 21) (\<lambda>imm.
        let bit20 = drop_bit 20 imm AND 0x1;
            bits10_1 = drop_bit 1 imm AND 0x3ff;
            bit11 = drop_bit 11 imm AND 0x1;
            bits19_12 = drop_bit 12 imm AND 0xff
        in Ok (push_bit 31 bit20 OR push_bit 21 bits10_1 OR push_bit 20 bit11
               OR push_bit 12 bits19_12 OR push_bit 7 (ucast rd) OR opcode)))"

definition encode_ecall :: u32 where
  "encode_ecall = 0x00000073"

definition li_fits_lui_addi_rv64 :: "int \<Rightarrow> bool" where
  "li_fits_lui_addi_rv64 value =
     (if \<not> (- (2 ^ 31) \<le> value \<and> value \<le> 2 ^ 31 - 1) then False
      else let hi = i64_shr (value + 0x800) 12 in - 0x80000 \<le> hi \<and> hi \<le> 0x7ffff)"

definition split_hi_lo :: "int \<Rightarrow> (int \<times> int) asm" where
  "split_hi_lo value =
     (if \<not> li_fits_lui_addi_rv64 value then fail (LuiAddiRange value)
      else if \<not> in_i64 (value + 0x800) then fail (SplitOverflow value)
      else let adjusted = value + 0x800;
               hi = i64_shr adjusted 12;
               lo = value - i64_shl hi 12
           in if \<not> (- 2048 \<le> lo \<and> lo \<le> 2047) then fail (SplitLowRange lo)
              else Ok (hi, lo))"

definition relative_offset :: "nat \<Rightarrow> nat \<Rightarrow> int asm" where
  "relative_offset pc target =
     (let d = int target - int pc in if in_i64 d then Ok d else fail RelativeOffsetOverflow)"

definition small_signed_immediate :: "int \<Rightarrow> bool" where
  "small_signed_immediate value \<longleftrightarrow> - 2048 \<le> value \<and> value \<le> 2047"

section \<open>Bit fields\<close>

text \<open>All set bits of the word lie below position \<open>k\<close>.\<close>

definition bits_below :: "nat \<Rightarrow> 'a::len word \<Rightarrow> bool" where
  "bits_below k x \<longleftrightarrow> (\<forall>n. bit x n \<longrightarrow> n < k)"

lemma bits_belowI:
  assumes "uint x < 2 ^ k"
  shows "bits_below k (x :: 'a::len word)"
  unfolding bits_below_def
proof (intro allI impI)
  fix n
  assume "bit x n"
  then have "bit (uint x) n" by (simp add: bit_uint_iff bit_imp_le_length)
  moreover have "take_bit k (uint x) = uint x"
    using assms by (simp add: take_bit_int_eq_self_iff)
  ultimately show "n < k" by (metis bit_take_bit_iff)
qed

lemma push_bit_word_of_int: "push_bit k (word_of_int v :: 'a::len word) = word_of_int (push_bit k v)"
  by (simp add: push_bit_eq_mult)

lemma bits_below_numeral [simp]:
  "uint (numeral x :: 'a::len word) < 2 ^ k \<Longrightarrow> bits_below k (numeral x :: 'a word)"
  by (rule bits_belowI)

lemma bits_below_0_1 [simp]: "bits_below k 0" "0 < k \<Longrightarrow> bits_below k 1"
  by (simp_all add: bits_below_def bit_1_iff)

lemma bits_below_take_bit [simp]: "j \<le> k \<Longrightarrow> bits_below k (take_bit j x)"
  by (auto simp: bits_below_def bit_simps)

lemma bits_below_mono: "bits_below j x \<Longrightarrow> j \<le> k \<Longrightarrow> bits_below k x"
  by (force simp: bits_below_def)

lemma bits_below_ucast [simp]: "bits_below k (x :: byte) \<Longrightarrow> bits_below k (ucast x :: u32)"
  by (simp add: bits_below_def bit_simps)

lemma bits_below_reg: "r < 32 \<Longrightarrow> bits_below 5 (r :: byte)"
  by (rule bits_belowI) (simp add: word_less_def)

lemma and_masks:
  "(x :: u32) AND 0x1f = take_bit 5 x" "x AND 0x7f = take_bit 7 x" "x AND 0x7 = take_bit 3 x"
  "x AND 0x1 = take_bit 1 x" "x AND 0xf = take_bit 4 x" "x AND 0x3f = take_bit 6 x"
  "x AND 0xff = take_bit 8 x" "x AND 0x3ff = take_bit 10 x" "x AND 0xfffff = take_bit 20 x"
  "x AND 0xfff = take_bit 12 x" "x AND (push_bit k 1 - 1) = take_bit k x"
  unfolding take_bit_eq_mask by (simp_all add: mask_eq_exp_minus_1)

lemma fld_high: "m + k \<le> n \<Longrightarrow> take_bit k (drop_bit m (push_bit n (x :: u32))) = 0"
  by (rule bit_word_eqI) (simp add: bit_simps)

lemma fld_low: "bits_below j x \<Longrightarrow> n + j \<le> m \<Longrightarrow> drop_bit m (push_bit n (x :: u32)) = 0"
  by (rule bit_word_eqI) (force simp: bit_simps bits_below_def)

lemma fld_low0: "bits_below j x \<Longrightarrow> j \<le> m \<Longrightarrow> drop_bit m (x :: u32) = 0"
  by (rule bit_word_eqI) (force simp: bit_simps bits_below_def)

lemma fld_eq:
  "bits_below k x \<Longrightarrow> m + k \<le> 32 \<Longrightarrow> take_bit k (drop_bit m (push_bit m (x :: u32))) = x"
  by (rule bit_word_eqI) (force simp: bit_simps bits_below_def)

lemma fld_top: "bits_below k x \<Longrightarrow> m + k \<le> 32 \<Longrightarrow> drop_bit m (push_bit m (x :: u32)) = x"
  by (rule bit_word_eqI) (force simp: bit_simps bits_below_def)

lemma fld_high0: "k \<le> n \<Longrightarrow> take_bit k (push_bit n (x :: u32)) = 0"
  by (rule bit_word_eqI) (simp add: bit_simps)

lemma fld_eq0: "bits_below k x \<Longrightarrow> take_bit k (x :: u32) = x"
  by (rule bit_word_eqI) (force simp: bit_simps bits_below_def)

lemma fld_sub:
  "m \<le> n \<Longrightarrow> n \<le> m + j \<Longrightarrow> m + j \<le> 32 \<Longrightarrow> bits_below j x \<Longrightarrow>
   drop_bit n (push_bit m (x :: u32)) = drop_bit (n - m) x"
  by (rule bit_word_eqI) (force simp: bit_simps bits_below_def)

lemmas fld_simps =
  and_masks drop_bit_or fld_high fld_high0 fld_eq fld_eq0
  fld_low [where j = 7] fld_low [where j = 5] fld_low [where j = 3] fld_low [where j = 1]
  fld_low [where j = 4] fld_low [where j = 6] fld_low [where j = 8] fld_low [where j = 10]
  fld_low0 [where j = 7]

section \<open>Fields of the encoded words\<close>

lemma r_type_fields:
  assumes "bits_below 7 opcode" "bits_below 5 rd" "bits_below 3 funct3" "bits_below 5 rs1"
    "bits_below 5 rs2" "bits_below 7 funct7"
    and w: "w = encode_r_type opcode rd funct3 rs1 rs2 funct7"
  shows "w AND 0x7f = opcode" "drop_bit 7 w AND 0x1f = ucast rd" "drop_bit 12 w AND 0x7 = funct3"
    "drop_bit 15 w AND 0x1f = ucast rs1" "drop_bit 20 w AND 0x1f = ucast rs2"
    "drop_bit 25 w AND 0x7f = funct7"
  unfolding w encode_r_type_def using assms(1-6) by (simp_all add: fld_simps)

lemma encode_signed_bits_Ok:
  "encode_signed_bits v k = Inr x \<longleftrightarrow> signed_bits_fit v k \<and> x = take_bit k (word_of_int v)"
  by (auto simp: encode_signed_bits_def take_bit_eq_mask mask_eq_exp_minus_1)

lemma i_type_fields:
  assumes "bits_below 7 opcode" "bits_below 5 rd" "bits_below 3 funct3" "bits_below 5 rs1"
    and w: "encode_i_type opcode rd funct3 rs1 imm = Inr w"
  shows "w AND 0x7f = opcode" "drop_bit 7 w AND 0x1f = ucast rd" "drop_bit 12 w AND 0x7 = funct3"
    "drop_bit 15 w AND 0x1f = ucast rs1" "drop_bit 20 w = take_bit 12 (word_of_int imm)"
    "signed_bits_fit imm 12"
proof -
  let ?imm = "take_bit 12 (word_of_int imm) :: u32"
  have weq: "w = push_bit 20 ?imm OR push_bit 15 (ucast rs1) OR push_bit 12 funct3
      OR push_bit 7 (ucast rd) OR opcode" and fit: "signed_bits_fit imm 12"
    using w by (auto simp: encode_i_type_def encode_signed_bits_Ok)
  show "signed_bits_fit imm 12" by (rule fit)
  show "w AND 0x7f = opcode" "drop_bit 7 w AND 0x1f = ucast rd" "drop_bit 12 w AND 0x7 = funct3"
    "drop_bit 15 w AND 0x1f = ucast rs1" "drop_bit 20 w = ?imm"
    unfolding weq using assms(1-4) by (simp_all add: fld_simps fld_top [where k = 12])
qed

lemma s_type_fields:
  assumes "bits_below 7 opcode" "bits_below 3 funct3" "bits_below 5 rs1" "bits_below 5 rs2"
    and w: "encode_s_type opcode funct3 rs1 rs2 imm = Inr w"
  shows "w AND 0x7f = opcode" "drop_bit 12 w AND 0x7 = funct3"
    "drop_bit 15 w AND 0x1f = ucast rs1" "drop_bit 20 w AND 0x1f = ucast rs2"
    "drop_bit 7 w AND 0x1f = word_of_int imm AND 0x1f"
    "drop_bit 25 w AND 0x7f = drop_bit 5 (word_of_int imm) AND 0x7f"
    "signed_bits_fit imm 12"
proof -
  let ?imm = "take_bit 12 (word_of_int imm) :: u32"
  have weq: "w = push_bit 25 (take_bit 7 (drop_bit 5 ?imm)) OR push_bit 20 (ucast rs2)
      OR push_bit 15 (ucast rs1) OR push_bit 12 funct3 OR push_bit 7 (take_bit 5 ?imm) OR opcode"
    and fit: "signed_bits_fit imm 12"
    using w by (auto simp: encode_s_type_def encode_signed_bits_Ok and_masks Let_def)
  show "signed_bits_fit imm 12" by (rule fit)
  have "take_bit 7 (drop_bit 5 ?imm) = take_bit 7 (drop_bit 5 (word_of_int imm))"
    by (rule bit_word_eqI) (auto simp: bit_simps)
  then show "w AND 0x7f = opcode" "drop_bit 12 w AND 0x7 = funct3"
    "drop_bit 15 w AND 0x1f = ucast rs1" "drop_bit 20 w AND 0x1f = ucast rs2"
    "drop_bit 7 w AND 0x1f = word_of_int imm AND 0x1f"
    "drop_bit 25 w AND 0x7f = drop_bit 5 (word_of_int imm) AND 0x7f"
    unfolding weq using assms(1-4) by (simp_all add: fld_simps)
qed

lemma u_type_fields:
  assumes "bits_below 7 opcode" "bits_below 5 rd" and w: "w = encode_u_type opcode rd imm"
  shows "w AND 0x7f = opcode" "drop_bit 7 w AND 0x1f = ucast rd"
    "drop_bit 12 w = take_bit 20 (word_of_int imm)"
  unfolding w encode_u_type_def using assms(1,2)
  by (simp_all add: fld_simps fld_top [where k = 20])

text \<open>A single-bit field is kept as \<open>take_bit 1\<close> here, not as a remainder modulo two.\<close>

lemmas one_bit_forms = One_nat_def take_bit_Suc_0 and_one_eq

text \<open>
  The offset bits of a B or J word, put back in order, are the low bits of the offset; bit 0 is not
  stored because offsets are even.
\<close>

lemma b_immediate_bits:
  assumes "\<not> bit (x :: u32) 0"
  shows "push_bit 12 (take_bit 1 (drop_bit 12 x)) OR push_bit 11 (take_bit 1 (drop_bit 11 x))
    OR push_bit 5 (take_bit 6 (drop_bit 5 x)) OR push_bit 1 (take_bit 4 (drop_bit 1 x))
    = take_bit 13 x" (is "?l = ?r")
proof (rule bit_word_eqI)
  fix n
  assume "n < LENGTH(32)"
  consider "n = 0" | "0 < n" "n < 5" | "5 \<le> n" "n < 11" | "n = 11" | "n = 12" | "13 \<le> n"
    by linarith
  then show "bit ?l n = bit ?r n"
    using assms \<open>n < LENGTH(32)\<close> by cases (auto simp: bit_simps simp del: one_bit_forms)
qed

lemma j_immediate_bits:
  assumes "\<not> bit (x :: u32) 0"
  shows "push_bit 20 (take_bit 1 (drop_bit 20 x)) OR push_bit 12 (take_bit 8 (drop_bit 12 x))
    OR push_bit 11 (take_bit 1 (drop_bit 11 x)) OR push_bit 1 (take_bit 10 (drop_bit 1 x))
    = take_bit 21 x" (is "?l = ?r")
proof (rule bit_word_eqI)
  fix n
  assume "n < LENGTH(32)"
  consider "n = 0" | "0 < n" "n < 11" | "n = 11" | "12 \<le> n" "n < 20" | "n = 20" | "21 \<le> n"
    by linarith
  then show "bit ?l n = bit ?r n"
    using assms \<open>n < LENGTH(32)\<close> by cases (auto simp: bit_simps simp del: one_bit_forms)
qed

lemma even_word_of_int_bit0: "imm mod 2 = 0 \<Longrightarrow> \<not> bit (word_of_int imm :: 'a::len word) 0"
  unfolding bit_word_of_int_iff by (simp add: bit_0 even_iff_mod_2_eq_zero)

lemma b_type_fields:
  assumes "bits_below 7 opcode" "bits_below 3 funct3" "bits_below 5 rs1" "bits_below 5 rs2"
    and w: "encode_b_type opcode funct3 rs1 rs2 imm = Inr w"
  shows "w AND 0x7f = opcode" "drop_bit 12 w AND 0x7 = funct3"
    "drop_bit 15 w AND 0x1f = ucast rs1" "drop_bit 20 w AND 0x1f = ucast rs2"
    "push_bit 12 (drop_bit 31 w AND 0x1) OR push_bit 11 (drop_bit 7 w AND 0x1)
      OR push_bit 5 (drop_bit 25 w AND 0x3f) OR push_bit 1 (drop_bit 8 w AND 0xf)
      = take_bit 13 (word_of_int imm)"
    "signed_bits_fit imm 13" "imm mod 2 = 0"
proof -
  let ?x = "take_bit 13 (word_of_int imm) :: u32"
  have weq: "w = push_bit 31 (take_bit 1 (drop_bit 12 ?x)) OR push_bit 25 (take_bit 6 (drop_bit 5 ?x))
      OR push_bit 20 (ucast rs2) OR push_bit 15 (ucast rs1) OR push_bit 12 funct3
      OR push_bit 8 (take_bit 4 (drop_bit 1 ?x)) OR push_bit 7 (take_bit 1 (drop_bit 11 ?x)) OR opcode"
    and fit: "signed_bits_fit imm 13" and even: "imm mod 2 = 0"
    using w by (auto simp: encode_b_type_def encode_signed_bits_Ok and_masks Let_def split: if_splits)
  show "signed_bits_fit imm 13" "imm mod 2 = 0" by (rule fit, rule even)
  show "w AND 0x7f = opcode" "drop_bit 12 w AND 0x7 = funct3"
    "drop_bit 15 w AND 0x1f = ucast rs1" "drop_bit 20 w AND 0x1f = ucast rs2"
    unfolding weq using assms(1-4) by (simp_all add: fld_simps del: one_bit_forms)
  have "drop_bit 31 w AND 0x1 = take_bit 1 (drop_bit 12 ?x)"
    "drop_bit 7 w AND 0x1 = take_bit 1 (drop_bit 11 ?x)"
    "drop_bit 25 w AND 0x3f = take_bit 6 (drop_bit 5 ?x)"
    "drop_bit 8 w AND 0xf = take_bit 4 (drop_bit 1 ?x)"
    unfolding weq using assms(1-4) by (simp_all add: fld_simps del: one_bit_forms)
  moreover have "\<not> bit ?x 0"
    using even_word_of_int_bit0 [OF even] by (simp add: bit_take_bit_iff)
  ultimately show "push_bit 12 (drop_bit 31 w AND 0x1) OR push_bit 11 (drop_bit 7 w AND 0x1)
      OR push_bit 5 (drop_bit 25 w AND 0x3f) OR push_bit 1 (drop_bit 8 w AND 0xf) = ?x"
    using b_immediate_bits [of ?x] by simp
qed

lemma j_type_fields:
  assumes "bits_below 7 opcode" "bits_below 5 rd"
    and w: "encode_j_type opcode rd imm = Inr w"
  shows "w AND 0x7f = opcode" "drop_bit 7 w AND 0x1f = ucast rd"
    "push_bit 20 (drop_bit 31 w AND 0x1) OR push_bit 12 (drop_bit 12 w AND 0xff)
      OR push_bit 11 (drop_bit 20 w AND 0x1) OR push_bit 1 (drop_bit 21 w AND 0x3ff)
      = take_bit 21 (word_of_int imm)"
    "signed_bits_fit imm 21" "imm mod 2 = 0"
proof -
  let ?x = "take_bit 21 (word_of_int imm) :: u32"
  have weq: "w = push_bit 31 (take_bit 1 (drop_bit 20 ?x)) OR push_bit 21 (take_bit 10 (drop_bit 1 ?x))
      OR push_bit 20 (take_bit 1 (drop_bit 11 ?x)) OR push_bit 12 (take_bit 8 (drop_bit 12 ?x))
      OR push_bit 7 (ucast rd) OR opcode"
    and fit: "signed_bits_fit imm 21" and even: "imm mod 2 = 0"
    using w by (auto simp: encode_j_type_def encode_signed_bits_Ok and_masks Let_def split: if_splits)
  show "signed_bits_fit imm 21" "imm mod 2 = 0" by (rule fit, rule even)
  show "w AND 0x7f = opcode" "drop_bit 7 w AND 0x1f = ucast rd"
    unfolding weq using assms(1,2) by (simp_all add: fld_simps del: one_bit_forms)
  have "drop_bit 31 w AND 0x1 = take_bit 1 (drop_bit 20 ?x)"
    "drop_bit 12 w AND 0xff = take_bit 8 (drop_bit 12 ?x)"
    "drop_bit 20 w AND 0x1 = take_bit 1 (drop_bit 11 ?x)"
    "drop_bit 21 w AND 0x3ff = take_bit 10 (drop_bit 1 ?x)"
    unfolding weq using assms(1,2) by (simp_all add: fld_simps del: one_bit_forms)
  moreover have "\<not> bit ?x 0"
    using even_word_of_int_bit0 [OF even] by (simp add: bit_take_bit_iff)
  ultimately show "push_bit 20 (drop_bit 31 w AND 0x1) OR push_bit 12 (drop_bit 12 w AND 0xff)
      OR push_bit 11 (drop_bit 20 w AND 0x1) OR push_bit 1 (drop_bit 21 w AND 0x3ff) = ?x"
    using j_immediate_bits [of ?x] by simp
qed

section \<open>Splitting an offset for LUI or AUIPC\<close>

lemma div_4096_bounds: "(v :: int) div 4096 * 4096 \<le> v" "v < v div 4096 * 4096 + 4096"
proof -
  have "v div 4096 * 4096 + v mod 4096 = v" by (rule div_mult_mod_eq)
  moreover have "0 \<le> v mod 4096" "v mod 4096 < 4096" by simp_all
  ultimately show "v div 4096 * 4096 \<le> v" "v < v div 4096 * 4096 + 4096" by linarith+
qed

lemma split_hi_lo_arith:
  assumes "li_fits_lui_addi_rv64 v"
  shows "split_hi_lo v = Inr ((v + 0x800) div 4096, v - (v + 0x800) div 4096 * 4096)"
    "- 0x80000 \<le> (v + 0x800) div 4096" "(v + 0x800) div 4096 \<le> 0x7ffff"
proof -
  let ?hi = "(v + 0x800) div 4096"
  have r: "- (2 ^ 31) \<le> v" "v \<le> 2 ^ 31 - 1" "- 0x80000 \<le> ?hi" "?hi \<le> 0x7ffff"
    using assms by (auto simp: li_fits_lui_addi_rv64_def i64_shr_def drop_bit_eq_div Let_def
        split: if_splits)
  show "- 0x80000 \<le> ?hi" "?hi \<le> 0x7ffff" by (rule r)+
  have "in_i64 (v + 0x800)" "in_i64 (?hi * 4096)"
    using r by (auto simp: in_i64_def)
  moreover have "- 2048 \<le> v - ?hi * 4096" "v - ?hi * 4096 \<le> 2047"
    using div_4096_bounds [of "v + 0x800"] by linarith+
  ultimately show "split_hi_lo v = Inr (?hi, v - ?hi * 4096)"
    using assms by (simp add: split_hi_lo_def i64_shr_def i64_shl_def drop_bit_eq_div
        push_bit_eq_mult wrap_i64_id Let_def)
qed

text \<open>The two parts add up to the offset and each fits its instruction field.\<close>

lemma split_hi_lo_Ok:
  assumes "split_hi_lo v = Inr (hi, lo)"
  shows "hi * 4096 + lo = v" "- 0x80000 \<le> hi" "hi \<le> 0x7ffff" "- 2048 \<le> lo" "lo \<le> 2047"
proof -
  have fits: "li_fits_lui_addi_rv64 v"
    using assms by (auto simp: split_hi_lo_def split: if_splits)
  have eq: "hi = (v + 0x800) div 4096" "lo = v - (v + 0x800) div 4096 * 4096"
    using assms split_hi_lo_arith(1) [OF fits] by simp_all
  show "hi * 4096 + lo = v" "- 0x80000 \<le> hi" "hi \<le> 0x7ffff"
    using eq split_hi_lo_arith(2,3) [OF fits] by simp_all
  show "- 2048 \<le> lo" "lo \<le> 2047"
    unfolding eq using div_4096_bounds [of "v + 0x800"] by linarith+
qed

lemma split_hi_lo_total: "li_fits_lui_addi_rv64 v \<Longrightarrow> \<exists>hi lo. split_hi_lo v = Inr (hi, lo)"
  using split_hi_lo_arith(1) by blast

lemma li_fits_iff: "li_fits_lui_addi_rv64 v \<longleftrightarrow> - (2 ^ 31) \<le> v \<and> v < 2 ^ 31 - 2048"
proof -
  have "- 0x80000 \<le> (v + 0x800) div 4096 \<longleftrightarrow> - (2 ^ 31) - 0x800 \<le> v"
    "(v + 0x800) div 4096 \<le> 0x7ffff \<longleftrightarrow> v < 2 ^ 31 - 2048"
    using div_4096_bounds [of "v + 0x800"] by (auto simp: not_le)
  then show ?thesis
    by (auto simp: li_fits_lui_addi_rv64_def i64_shr_def drop_bit_eq_div Let_def)
qed

lemma relative_offset_Ok:
  "relative_offset pc t = Inr d \<longleftrightarrow> d = int t - int pc \<and> in_i64 d"
  by (auto simp: relative_offset_def Let_def)

declare
  signed_bits_fit_def [eval_simps] encode_signed_bits_def [eval_simps] encode_r_type_def [eval_simps]
  encode_i_type_def [eval_simps] encode_s_type_def [eval_simps] encode_b_type_def [eval_simps]
  encode_u_type_def [eval_simps] encode_j_type_def [eval_simps] encode_ecall_def [eval_simps]
  li_fits_lui_addi_rv64_def [eval_simps] split_hi_lo_def [eval_simps] relative_offset_def [eval_simps]
  small_signed_immediate_def [eval_simps]

end
