(* ===== verification/Li_Plan.thy ===== *)
theory Li_Plan
  imports Rv_Encode "HOL-Library.List_Lexorder"
begin

text \<open>
  The planner of \<^verbatim>\<open>li\<close> immediates, \<^verbatim>\<open>src/codegen/assembler/immediate.rs\<close>, with the
  helpers \<^verbatim>\<open>li_form\<close>, \<^verbatim>\<open>li_bits\<close> and \<^verbatim>\<open>li_sequence_size\<close> of
  \<^verbatim>\<open>assembler.rs\<close>. A \<^verbatim>\<open>u64\<close> register value is a \<open>64 word\<close>, an
  \<^verbatim>\<open>i64\<close> or \<^verbatim>\<open>i128\<close> an \<open>int\<close>.
\<close>

unbundle bit_operations_syntax

type_synonym u64 = "64 word"

section \<open>Steps and their order\<close>

datatype step =
    AddFromZero int
  | LoadUpper int
  | ShiftLeft nat
  | Add int
  | ShiftRight nat

text \<open>The derived \<^verbatim>\<open>Ord\<close>: by variant, then by operand.\<close>

fun step_key :: "step \<Rightarrow> nat \<times> int" where
  "step_key (AddFromZero v) = (0, v)"
| "step_key (LoadUpper v) = (1, v)"
| "step_key (ShiftLeft k) = (2, int k)"
| "step_key (Add v) = (3, v)"
| "step_key (ShiftRight k) = (4, int k)"

lemma step_key_inject: "step_key s = step_key t \<Longrightarrow> s = t"
  by (cases s; cases t) auto

instantiation step :: linorder
begin

definition less_eq_step :: "step \<Rightarrow> step \<Rightarrow> bool" where
  "less_eq_step s t \<longleftrightarrow> fst (step_key s) < fst (step_key t)
     \<or> fst (step_key s) = fst (step_key t) \<and> snd (step_key s) \<le> snd (step_key t)"

definition less_step :: "step \<Rightarrow> step \<Rightarrow> bool" where
  "less_step s t \<longleftrightarrow> fst (step_key s) < fst (step_key t)
     \<or> fst (step_key s) = fst (step_key t) \<and> snd (step_key s) < snd (step_key t)"

instance
  by standard (auto simp: less_eq_step_def less_step_def prod_eq_iff intro: step_key_inject)

end

text \<open>Comparison of the pairs \<^verbatim>\<open>(plan.len(), &plan)\<close>.\<close>

definition plan_less :: "step list \<Rightarrow> step list \<Rightarrow> bool" where
  "plan_less a b \<longleftrightarrow> length a < length b \<or> length a = length b \<and> a < b"

definition plan_le :: "step list \<Rightarrow> step list \<Rightarrow> bool" where
  "plan_le a b \<longleftrightarrow> length a < length b \<or> length a = length b \<and> a \<le> b"

section \<open>Forms and bits of a literal\<close>

datatype li_form_kind = FormAddi | FormLui | FormLuiAddi | FormLarge

definition li_signed_i64 :: "int \<Rightarrow> int option" where
  "li_signed_i64 imm = (if in_i64 imm then Some imm else None)"

definition li_bits :: "int \<Rightarrow> u64 asm" where
  "li_bits imm =
     (if imm < - (2 ^ 63) \<or> imm > 2 ^ 64 - 1 then fail (LiDomain imm)
      else if imm < 0 then Ok (word_of_int (wrap_i64 imm))
      else Ok (word_of_int imm))"

definition li_form :: "int \<Rightarrow> li_form_kind" where
  "li_form imm =
     (case li_signed_i64 imm of
        None \<Rightarrow> FormLarge
      | Some sv \<Rightarrow>
          if - 2048 \<le> sv \<and> sv \<le> 2047 then FormAddi
          else if sv AND 0xfff = 0
            \<and> - 0x80000 \<le> i64_shr sv 12 \<and> i64_shr sv 12 \<le> 0x7ffff then FormLui
          else if li_fits_lui_addi_rv64 sv then FormLuiAddi
          else FormLarge)"

section \<open>The planner\<close>

definition step_value :: "u64 option \<Rightarrow> step \<Rightarrow> u64 option" where
  "step_value v s =
     (case s of
        AddFromZero imm \<Rightarrow> if - 2048 \<le> imm \<and> imm \<le> 2047 then Some (word_of_int imm) else None
      | LoadUpper imm \<Rightarrow>
          if - 0x80000 \<le> imm \<and> imm \<le> 0x7ffff then Some (word_of_int (i64_shl imm 12)) else None
      | ShiftLeft k \<Rightarrow> if 1 \<le> k \<and> k \<le> 63 then map_option (push_bit k) v else None
      | Add imm \<Rightarrow>
          if - 2048 \<le> imm \<and> imm \<le> 2047 then map_option (\<lambda>x. x + word_of_int imm) v else None
      | ShiftRight k \<Rightarrow> if 1 \<le> k \<and> k \<le> 63 then map_option (drop_bit k) v else None)"

text \<open>The loop of \<^verbatim>\<open>evaluate\<close> returns \<^verbatim>\<open>None\<close> at the first step that fails.\<close>

fun evaluate_from :: "u64 option \<Rightarrow> step list \<Rightarrow> u64 option" where
  "evaluate_from v [] = v"
| "evaluate_from v (s # ss) =
     (case step_value v s of None \<Rightarrow> None | Some x \<Rightarrow> evaluate_from (Some x) ss)"

definition evaluate :: "step list \<Rightarrow> u64 option" where
  "evaluate steps = evaluate_from None steps"

definition legacy :: "int \<Rightarrow> u64 \<Rightarrow> step list asm" where
  "legacy literal bits =
     (case li_form literal of
        FormAddi \<Rightarrow> Ok [AddFromZero (wrap_i64 literal)]
      | FormLui \<Rightarrow> Ok [LoadUpper (i64_shr (wrap_i64 literal) 12)]
      | FormLuiAddi \<Rightarrow>
          rbind (split_hi_lo (wrap_i64 literal)) (\<lambda>(high, low). Ok [LoadUpper high, Add low])
      | FormLarge \<Rightarrow>
          let bytes = rev (nat_to_le 8 (unat bits)) in
          Ok (AddFromZero (uint (bytes ! 0)) #
              concat (map (\<lambda>byte. [ShiftLeft 8, Add (uint byte)]) (tl bytes))))"

text \<open>Zero bits at the low end of an \<^verbatim>\<open>i64\<close> and at the high end of a \<^verbatim>\<open>u64\<close>.\<close>

fun count_low_zeros :: "nat \<Rightarrow> int \<Rightarrow> nat" where
  "count_low_zeros 0 v = 0"
| "count_low_zeros (Suc k) v = (if odd v then 0 else Suc (count_low_zeros k (v div 2)))"

definition trailing_zeros :: "int \<Rightarrow> nat" where
  "trailing_zeros v = count_low_zeros 64 v"

fun count_high_zeros :: "nat \<Rightarrow> u64 \<Rightarrow> nat" where
  "count_high_zeros 0 w = 0"
| "count_high_zeros (Suc k) w = (if bit w k then 0 else Suc (count_high_zeros k w))"

definition leading_zeros :: "u64 \<Rightarrow> nat" where
  "leading_zeros w = count_high_zeros 64 w"

text \<open>The two parts of a value that does not fit a short form, and the shift between them.\<close>

definition rec_low :: "int \<Rightarrow> int" where
  "rec_low value = i64_shr (i64_shl value 52) 52"

definition rec_high :: "int \<Rightarrow> int" where
  "rec_high value = wrap_i64 (drop_bit 12 (value - rec_low value))"

definition rec_extra :: "int \<Rightarrow> nat" where
  "rec_extra value = min (trailing_zeros (rec_high value)) 51"

text \<open>
  The \<^verbatim>\<open>expect\<close> after the split cannot fire, by \<open>split_hi_lo_total\<close>; the branch for a
  failed split is there only to make the definition total.
\<close>

definition rec_short :: "int \<Rightarrow> step list option" where
  "rec_short value =
     (if li_fits_lui_addi_rv64 value then
        case split_hi_lo value of
          Inl _ \<Rightarrow> None
        | Inr (high, low) \<Rightarrow> Some (LoadUpper high # (if low \<noteq> 0 then [Add low] else []))
      else None)"

lemma i64_shl_52_shr_52: "i64_shr (i64_shl v 52) 52 = signed_take_bit 11 v"
  using i64_shl_shr [of 52 v] by simp

lemma rec_low_bounds: "- 2048 \<le> rec_low v" "rec_low v \<le> 2047"
  using signed_take_bit_int_greater_eq_minus_exp [of 11 v] signed_take_bit_int_less_exp [of 11 v]
  by (simp_all add: rec_low_def i64_shl_52_shr_52)

lemma rec_low_mod: "(v - rec_low v) mod 4096 = 0"
proof -
  have "take_bit 12 (rec_low v) = take_bit 12 v"
    by (simp add: rec_low_def i64_shl_52_shr_52 take_bit_signed_take_bit)
  then have "rec_low v mod 4096 = v mod 4096" by (simp add: take_bit_eq_mod)
  then have "4096 dvd v - rec_low v" by (simp add: mod_eq_dvd_iff [symmetric])
  then show ?thesis by simp
qed

lemma abs_wrap_i64: "\<bar>wrap_i64 v\<bar> \<le> \<bar>v\<bar>"
proof (cases "in_i64 v")
  case True
  then show ?thesis by (simp add: wrap_i64_id)
next
  case False
  then have "2 ^ 63 \<le> \<bar>v\<bar>" by (auto simp: in_i64_def)
  moreover have "\<bar>wrap_i64 v\<bar> \<le> 2 ^ 63" using wrap_i64_range [of v] by (auto simp: in_i64_def)
  ultimately show ?thesis by linarith
qed

lemma abs_div_pow2: "\<bar>(v :: int) div 2 ^ k\<bar> \<le> \<bar>v\<bar>"
proof (cases "0 \<le> v")
  case True
  then have "v div 2 ^ k \<le> v div 1" by (intro zdiv_mono2) simp_all
  with True show ?thesis by (simp add: pos_imp_zdiv_nonneg_iff)
next
  case False
  then have "v div 2 ^ k < 0" by (intro div_neg_pos_less0) simp_all
  moreover have "v div 1 \<le> v div 2 ^ k" using False by (intro zdiv_mono2_neg) simp_all
  ultimately show ?thesis by simp
qed

lemma rec_high_abs:
  assumes "\<not> (- 2048 \<le> v \<and> v \<le> 2047)"
  shows "\<bar>drop_bit k (rec_high v)\<bar> < \<bar>v\<bar>"
proof -
  let ?h = "(v - rec_low v) div 4096"
  have "v - rec_low v = ?h * 4096" using rec_low_mod [of v] by (simp add: mod_0_imp_dvd)
  then have "\<bar>?h\<bar> < \<bar>v\<bar>" using rec_low_bounds [of v] assms by linarith
  moreover have "\<bar>rec_high v\<bar> \<le> \<bar>?h\<bar>"
    using abs_wrap_i64 by (simp add: rec_high_def drop_bit_eq_div)
  ultimately show ?thesis
    using abs_div_pow2 [of "rec_high v" k] by (simp add: drop_bit_eq_div)
qed

function recursive :: "int \<Rightarrow> step list" where
  "recursive value =
     (if - 2048 \<le> value \<and> value \<le> 2047 then [AddFromZero value]
      else let steps = recursive (i64_shr (rec_high value) (rec_extra value))
             @ [ShiftLeft (12 + rec_extra value)]
             @ (if rec_low value \<noteq> 0 then [Add (rec_low value)] else [])
           in case rec_short value of
                Some short \<Rightarrow> if plan_le short steps then short else steps
              | None \<Rightarrow> steps)"
  by pat_completeness auto
termination
proof (relation "measure (\<lambda>v. nat \<bar>v\<bar>)")
  fix v :: int
  assume "\<not> (- 2048 \<le> v \<and> v \<le> 2047)"
  from rec_high_abs [OF this, of "rec_extra v"]
  show "(i64_shr (rec_high v) (rec_extra v), v) \<in> measure (\<lambda>v. nat \<bar>v\<bar>)"
    by (simp add: i64_shr_def)
qed simp

declare recursive.simps [simp del]

definition is_low_mask :: "u64 \<Rightarrow> bool" where
  "is_low_mask bits \<longleftrightarrow> bits \<noteq> 0 \<and> bits \<noteq> - 1 \<and> bits AND (bits + 1) = 0"

definition plan :: "int \<Rightarrow> step list asm" where
  "plan literal =
     rbind (li_bits literal) (\<lambda>bits.
     rbind (legacy literal bits) (\<lambda>fallback.
       let candidate = recursive (sint bits);
           valid = (evaluate candidate = Some bits)
       in rbind (if valid \<and> plan_less candidate fallback then Ok candidate
                 else if evaluate fallback = Some bits then Ok fallback
                 else fail InvalidPlan) (\<lambda>best.
         if is_low_mask bits then
           let mask = [AddFromZero (- 1), ShiftRight (leading_zeros bits)]
           in Ok (if length mask < length best \<and> evaluate mask = Some bits then mask else best)
         else Ok best)))"

definition li_sequence_size :: "int \<Rightarrow> nat asm" where
  "li_sequence_size imm = rbind (plan imm) (\<lambda>steps. Ok (length steps * 4))"

section \<open>Evaluation of plans\<close>

lemma evaluate_from_append:
  "evaluate_from v xs = Some x \<Longrightarrow> evaluate_from v (xs @ ys) = evaluate_from (Some x) ys"
  by (induction xs arbitrary: v) (auto split: option.splits)

lemma count_low_zeros_dvd: "2 ^ count_low_zeros k v dvd v"
proof (induction k arbitrary: v)
  case (Suc k)
  show ?case
  proof (cases "odd v")
    case False
    then obtain w where "v = 2 * w" by blast
    with Suc [of w] show ?thesis by simp
  qed simp
qed simp

lemma rec_extra_dvd: "2 ^ rec_extra v dvd rec_high v"
proof -
  have "(2 :: int) ^ rec_extra v dvd 2 ^ trailing_zeros (rec_high v)"
    by (rule le_imp_power_dvd) (simp add: rec_extra_def)
  then show ?thesis
    using count_low_zeros_dvd [of 64 "rec_high v"] unfolding trailing_zeros_def by (rule dvd_trans)
qed

lemma rec_high_eq:
  assumes "in_i64 v"
  shows "rec_high v = (v - rec_low v) div 4096" "v = rec_high v * 4096 + rec_low v" "in_i64 (rec_high v)"
proof -
  let ?h = "(v - rec_low v) div 4096"
  have eq: "v - rec_low v = ?h * 4096" using rec_low_mod [of v] by (simp add: mod_0_imp_dvd)
  then have "in_i64 ?h" using assms rec_low_bounds [of v] by (auto simp: in_i64_def)
  then show "rec_high v = ?h" by (simp add: rec_high_def drop_bit_eq_div wrap_i64_id)
  with eq \<open>in_i64 ?h\<close> show "v = rec_high v * 4096 + rec_low v" "in_i64 (rec_high v)" by simp_all
qed

lemma rec_shift_back: "push_bit (12 + rec_extra v) (i64_shr (rec_high v) (rec_extra v)) = rec_high v * 4096"
proof -
  have "rec_high v div 2 ^ rec_extra v * 2 ^ rec_extra v = rec_high v"
    using rec_extra_dvd [of v] by simp
  then show ?thesis
    by (simp add: i64_shr_def drop_bit_eq_div push_bit_eq_mult power_add mult.left_commute)
qed

lemma in_i64_rec_arg: "in_i64 (i64_shr (rec_high v) k)"
proof -
  have "in_i64 (rec_high v)" unfolding rec_high_def by (rule wrap_i64_range)
  moreover have "\<bar>rec_high v div 2 ^ k\<bar> \<le> \<bar>rec_high v\<bar>" by (rule abs_div_pow2)
  moreover have "rec_high v div 2 ^ k < 0" if "rec_high v < 0"
    using that by (intro div_neg_pos_less0) simp_all
  moreover have "0 \<le> rec_high v div 2 ^ k" if "0 \<le> rec_high v"
    using that by (simp add: pos_imp_zdiv_nonneg_iff)
  ultimately show ?thesis
    unfolding in_i64_def i64_shr_def drop_bit_eq_div by (cases "rec_high v < 0") linarith+
qed

text \<open>The short form loads the value.\<close>

lemma rec_short_evaluate:
  assumes "rec_short v = Some ss"
  shows "evaluate ss = Some (word_of_int v)" "length ss \<le> 2" "ss \<noteq> []"
proof -
  from assms obtain hi lo where split: "split_hi_lo v = Inr (hi, lo)"
    and ss: "ss = LoadUpper hi # (if lo \<noteq> 0 then [Add lo] else [])"
    by (auto simp: rec_short_def split: if_splits sum.splits)
  note s = split_hi_lo_Ok [OF split]
  have "i64_shl hi 12 = hi * 4096"
    using s by (simp add: i64_shl_def push_bit_eq_mult wrap_i64_id in_i64_def)
  with s(2-5) have "evaluate ss = Some (word_of_int (hi * 4096) + word_of_int lo)"
    by (simp add: ss evaluate_def step_value_def)
  also have "\<dots> = Some (word_of_int v)" by (simp only: wi_hom_add s(1))
  finally show "evaluate ss = Some (word_of_int v)" .
  show "length ss \<le> 2" "ss \<noteq> []" by (simp_all add: ss)
qed

lemma rec_short_total: "li_fits_lui_addi_rv64 v \<Longrightarrow> \<exists>ss. rec_short v = Some ss"
  using split_hi_lo_total by (fastforce simp: rec_short_def)

text \<open>The steps the recursion adds to those of the high part.\<close>

definition rec_tail :: "int \<Rightarrow> step list" where
  "rec_tail v = ShiftLeft (12 + rec_extra v) # (if rec_low v \<noteq> 0 then [Add (rec_low v)] else [])"

lemma recursive_cases:
  assumes "\<not> (- 2048 \<le> v \<and> v \<le> 2047)"
  defines "steps \<equiv> recursive (i64_shr (rec_high v) (rec_extra v)) @ rec_tail v"
  shows "recursive v = (case rec_short v of
      Some ss \<Rightarrow> if plan_le ss steps then ss else steps | None \<Rightarrow> steps)"
  using assms(1)
  by (simp only: recursive.simps [of v] if_False Let_def rec_tail_def steps_def append.simps)

lemma rec_tail_evaluate:
  assumes "in_i64 v"
  shows "evaluate_from (Some (word_of_int (i64_shr (rec_high v) (rec_extra v)))) (rec_tail v)
    = Some (word_of_int v)"
proof -
  let ?x = "i64_shr (rec_high v) (rec_extra v)"
  have "push_bit (12 + rec_extra v) (word_of_int ?x) = (word_of_int (rec_high v * 4096) :: u64)"
    by (simp only: push_bit_word_of_int rec_shift_back)
  moreover have "12 + rec_extra v \<le> 63" by (simp add: rec_extra_def)
  moreover have "word_of_int (rec_high v * 4096) + word_of_int (rec_low v) = (word_of_int v :: u64)"
    by (simp only: wi_hom_add rec_high_eq(2) [OF assms, symmetric])
  moreover have "rec_high v * 4096 = v" if "rec_low v = 0" using rec_high_eq(2) [OF assms] that by simp
  ultimately show ?thesis
    using rec_low_bounds [of v]
    by (cases "rec_low v = 0") (simp_all add: rec_tail_def step_value_def)
qed

text \<open>Every candidate plan is valid, so the correctness fallback of the planner is never needed.\<close>

lemma recursive_evaluate: "in_i64 v \<Longrightarrow> evaluate (recursive v) = Some (word_of_int v)"
proof (induction v rule: recursive.induct)
  case (1 v)
  show ?case
  proof (cases "- 2048 \<le> v \<and> v \<le> 2047")
    case True
    then show ?thesis by (simp add: recursive.simps evaluate_def step_value_def)
  next
    case False
    from 1 False in_i64_rec_arg have "evaluate (recursive (i64_shr (rec_high v) (rec_extra v)))
        = Some (word_of_int (i64_shr (rec_high v) (rec_extra v)))" by blast
    then have "evaluate (recursive (i64_shr (rec_high v) (rec_extra v)) @ rec_tail v)
        = Some (word_of_int v)"
      unfolding evaluate_def by (simp add: evaluate_from_append rec_tail_evaluate \<open>in_i64 v\<close>)
    then show ?thesis
      unfolding recursive_cases [OF False] using rec_short_evaluate
      by (auto split: option.splits)
  qed
qed

subsection \<open>The legacy forms\<close>

lemma evaluate_bytes:
  "evaluate_from (Some x) (concat (map (\<lambda>byte. [ShiftLeft 8, Add (uint byte)]) bs))
     = Some (foldl (\<lambda>acc byte. push_bit 8 acc + word_of_int (uint byte)) x bs)" for bs :: "byte list"
proof (induction bs arbitrary: x)
  case (Cons b bs)
  have "0 \<le> uint b" "uint b < 256" using uint_lt2p [of b] by simp_all
  then have "- 2048 \<le> uint b" "uint b \<le> 2047" by linarith+
  with Cons show ?case by (simp add: step_value_def)
qed simp

lemma foldl_bytes:
  "foldl (\<lambda>acc byte. push_bit 8 acc + word_of_int (uint byte)) (word_of_nat n) bs
     = (word_of_nat (foldl (\<lambda>acc byte. acc * 256 + unat byte) n bs) :: u64)" for bs :: "byte list"
proof (induction bs arbitrary: n)
  case (Cons b bs)
  have "push_bit 8 (word_of_nat n) + word_of_int (uint b) = (word_of_nat (n * 256 + unat b) :: u64)"
    by (simp add: push_bit_eq_mult)
  with Cons [of "n * 256 + unat b"] show ?case by (simp only: foldl_Cons)
qed simp

lemma foldl_rev_le: "foldl (\<lambda>acc byte. acc * 256 + unat byte) 0 (rev bs) = le_to_nat bs"
  by (induction bs) simp_all

lemma legacy_large_evaluate:
  fixes bits :: u64
  assumes bytes_def: "bytes = rev (nat_to_le 8 (unat bits))"
  shows "evaluate (AddFromZero (uint (bytes ! 0)) #
    concat (map (\<lambda>byte. [ShiftLeft 8, Add (uint byte)]) (tl bytes))) = Some bits"
proof -
  have "length bytes = 8" by (simp add: bytes_def)
  then obtain b bs where b: "bytes = b # bs" by (cases bytes) auto
  have "0 \<le> uint b" "uint b < 256" using uint_lt2p [of b] by simp_all
  then have "- 2048 \<le> uint b" "uint b \<le> 2047" by linarith+
  moreover have "foldl (\<lambda>acc byte. push_bit 8 acc + word_of_int (uint byte)) (word_of_int (uint b)) bs = bits"
  proof -
    have "foldl (\<lambda>acc byte. acc * 256 + unat byte) 0 (b # bs) = unat bits"
      unfolding b [symmetric] bytes_def foldl_rev_le
      using unsigned_less [of bits, where ?'a = nat] by (simp add: le_to_nat_nat_to_le_id)
    then show ?thesis using foldl_bytes [of "unat b" bs] by simp
  qed
  ultimately show ?thesis by (simp add: b evaluate_def step_value_def evaluate_bytes)
qed

lemma legacy_evaluate:
  assumes "- (2 ^ 63) \<le> v" "v \<le> 2 ^ 64 - 1"
  obtains ss where "legacy v (word_of_int v) = Inr ss" "evaluate ss = Some (word_of_int v)"
proof (cases "li_form v")
  case FormAddi
  then have "in_i64 v" "- 2048 \<le> v" "v \<le> 2047"
    by (auto simp: li_form_def li_signed_i64_def split: if_splits)
  with FormAddi show thesis
    by (intro that) (auto simp: legacy_def wrap_i64_id evaluate_def step_value_def)
next
  case FormLui
  then have v: "in_i64 v" "v AND 0xfff = 0" "- 0x80000 \<le> i64_shr v 12" "i64_shr v 12 \<le> 0x7ffff"
    by (auto simp: li_form_def li_signed_i64_def split: if_splits)
  have "v mod 4096 = 0"
    using v(2) take_bit_eq_mask [of 12 v] by (simp add: mask_eq_exp_minus_1 take_bit_eq_mod)
  then have "i64_shl (i64_shr v 12) 12 = v"
    using v(1) by (simp add: i64_shl_def i64_shr_def push_bit_eq_mult drop_bit_eq_div wrap_i64_id
        mod_0_imp_dvd)
  with FormLui v show thesis
    by (intro that) (auto simp: legacy_def wrap_i64_id evaluate_def step_value_def)
next
  case FormLuiAddi
  then have v: "in_i64 v" "li_fits_lui_addi_rv64 v"
    by (auto simp: li_form_def li_signed_i64_def split: if_splits)
  from split_hi_lo_total [OF v(2)] obtain hi lo where split: "split_hi_lo v = Inr (hi, lo)" by blast
  note s = split_hi_lo_Ok [OF split]
  have "i64_shl hi 12 = hi * 4096"
    using s by (simp add: i64_shl_def push_bit_eq_mult wrap_i64_id in_i64_def)
  moreover have "word_of_int (hi * 4096) + word_of_int lo = (word_of_int v :: u64)"
    by (simp only: wi_hom_add s(1))
  ultimately show thesis
    using FormLuiAddi v(1) split s
    by (intro that) (auto simp: legacy_def wrap_i64_id evaluate_def step_value_def)
next
  case FormLarge
  then show thesis
    by (intro that [OF _ legacy_large_evaluate [OF refl]])
      (simp only: legacy_def Let_def li_form_kind.case)
qed

section \<open>The chosen plan\<close>

lemma li_bits_Ok: "- (2 ^ 63) \<le> v \<Longrightarrow> v \<le> 2 ^ 64 - 1 \<Longrightarrow> li_bits v = Inr (word_of_int v)"
  by (auto simp: li_bits_def wrap_i64_id in_i64_def)

lemma in_i64_sint: "in_i64 (sint (w :: u64))"
  using sint_greater_eq [of w] sint_less [of w] by (simp add: in_i64_def)

lemma plan_Ok:
  assumes "- (2 ^ 63) \<le> v" "v \<le> 2 ^ 64 - 1"
  obtains ss fb where "plan v = Inr ss" "evaluate ss = Some (word_of_int v)"
    "legacy v (word_of_int v) = Inr fb" "length ss \<le> length fb"
    "length ss \<le> length (recursive (sint (word_of_int v :: u64)))"
proof -
  let ?w = "word_of_int v :: u64" and ?c = "recursive (sint (word_of_int v :: u64))"
  from legacy_evaluate [OF assms] obtain fb where
    fb: "legacy v ?w = Inr fb" "evaluate fb = Some ?w" .
  have c: "evaluate ?c = Some ?w" by (simp add: recursive_evaluate in_i64_sint)
  define best where "best = (if plan_less ?c fb then ?c else fb)"
  have best: "evaluate best = Some ?w" "length best \<le> length fb" "length best \<le> length ?c"
    using fb(2) c by (auto simp: best_def plan_less_def)
  define mask where "mask = [AddFromZero (- 1), ShiftRight (leading_zeros ?w)]"
  define ss where "ss = (if is_low_mask ?w \<and> length mask < length best \<and> evaluate mask = Some ?w
      then mask else best)"
  have "plan v = Inr ss"
    using fb c by (simp add: plan_def li_bits_Ok [OF assms] best_def mask_def ss_def Let_def)
  moreover have "evaluate ss = Some ?w" "length ss \<le> length best" using best(1) by (auto simp: ss_def)
  ultimately show thesis using best(2,3) fb(1) by (intro that [of ss fb]) simp_all
qed

subsection \<open>Length of plans\<close>

lemma recursive_length_fits:
  assumes "li_fits_lui_addi_rv64 v"
  shows "length (recursive v) \<le> 2"
proof (cases "- 2048 \<le> v \<and> v \<le> 2047")
  case True
  then show ?thesis by (simp add: recursive.simps)
next
  case False
  from rec_short_total [OF assms] obtain ss where "rec_short v = Some ss" by blast
  with rec_short_evaluate(2) [OF this] show ?thesis
    by (auto simp: recursive_cases [OF False] plan_le_def)
qed

lemma recursive_length_step:
  assumes "\<not> (- 2048 \<le> v \<and> v \<le> 2047)"
  shows "length (recursive v) \<le> length (recursive (i64_shr (rec_high v) (rec_extra v))) + 2"
  by (auto simp: recursive_cases [OF assms] plan_le_def rec_tail_def split: option.splits)

lemma rec_arg_abs: "in_i64 v \<Longrightarrow> 4096 * \<bar>i64_shr (rec_high v) k\<bar> \<le> \<bar>v\<bar> + 2048"
  using abs_div_pow2 [of "rec_high v" k] rec_high_eq(2) [of v] rec_low_bounds [of v]
  by (simp add: i64_shr_def drop_bit_eq_div)

text \<open>Each level of the recursion adds two steps and removes twelve bits.\<close>

lemma recursive_length_levels:
  "in_i64 v \<Longrightarrow> \<bar>v\<bar> \<le> 4096 ^ n * 2 ^ 30 \<Longrightarrow> length (recursive v) \<le> 2 + 2 * n"
proof (induction n arbitrary: v)
  case 0
  then have "li_fits_lui_addi_rv64 v" by (auto simp: li_fits_iff)
  then show ?case using recursive_length_fits by simp
next
  case (Suc n)
  show ?case
  proof (cases "- 2048 \<le> v \<and> v \<le> 2047")
    case True
    then show ?thesis by (simp add: recursive.simps)
  next
    case False
    let ?x = "i64_shr (rec_high v) (rec_extra v)"
    have "4096 * \<bar>?x\<bar> \<le> 4096 * (4096 ^ n * 2 ^ 30) + 2048"
      using rec_arg_abs [OF Suc.prems(1), of "rec_extra v"] Suc.prems(2) by (simp add: mult.assoc)
    then have "\<bar>?x\<bar> \<le> 4096 ^ n * 2 ^ 30" by linarith
    then have "length (recursive ?x) \<le> 2 + 2 * n" by (intro Suc.IH in_i64_rec_arg)
    with recursive_length_step [OF False] show ?thesis by simp
  qed
qed

lemma recursive_length: "in_i64 v \<Longrightarrow> length (recursive v) \<le> 8"
  using recursive_length_levels [of v 3] by (auto simp: in_i64_def)

lemma count_zeros_numeral [eval_simps]:
  "count_low_zeros (numeral k) v =
     (if odd v then 0 else Suc (count_low_zeros (pred_numeral k) (v div 2)))"
  "count_high_zeros (numeral k) w =
     (if bit w (pred_numeral k) then 0 else Suc (count_high_zeros (pred_numeral k) w))"
  by (simp_all only: numeral_eq_Suc [of k] count_low_zeros.simps count_high_zeros.simps)

declare
  less_eq_step_def [eval_simps] less_step_def [eval_simps] plan_less_def [eval_simps]
  plan_le_def [eval_simps] li_signed_i64_def [eval_simps] li_bits_def [eval_simps]
  li_form_def [eval_simps] step_value_def [eval_simps] evaluate_def [eval_simps]
  legacy_def [eval_simps] trailing_zeros_def [eval_simps] leading_zeros_def [eval_simps]
  rec_low_def [eval_simps] rec_high_def [eval_simps] rec_extra_def [eval_simps]
  rec_short_def [eval_simps] recursive.simps [eval_simps] is_low_mask_def [eval_simps]
  plan_def [eval_simps] li_sequence_size_def [eval_simps]

section \<open>Properties\<close>

text \<open>
  C7: The planner is total and correct on its domain. For every literal from \<^verbatim>\<open>i64::MIN\<close> to
  \<^verbatim>\<open>u64::MAX\<close> it returns a plan of one to eight steps whose evaluation is the 64-bit pattern of
  the literal, and every other literal is reported as out of range.
\<close>
theorem plan_correct:
  "if - (2 ^ 63) \<le> v \<and> v \<le> 2 ^ 64 - 1
   then \<exists>ss. plan v = Inr ss \<and> evaluate ss = Some (word_of_int v) \<and> 1 \<le> length ss \<and> length ss \<le> 8
   else plan v = fail (LiDomain v)"
proof (cases "- (2 ^ 63) \<le> v \<and> v \<le> 2 ^ 64 - 1")
  case True
  then obtain ss where ss: "plan v = Inr ss" "evaluate ss = Some (word_of_int v)"
    "length ss \<le> length (recursive (sint (word_of_int v :: u64)))"
    using plan_Ok by metis
  have "length ss \<le> 8" using ss(3) recursive_length [OF in_i64_sint] le_trans by blast
  moreover have "1 \<le> length ss" using ss(2) by (cases ss) (simp_all add: evaluate_def)
  ultimately show ?thesis using True ss by auto
next
  case False
  then show ?thesis by (auto simp: plan_def li_bits_def)
qed

text \<open>
  C38: The recursive candidate always reconstructs its value, for every \<^verbatim>\<open>i64\<close>, so the validity
  test in the planner never discards it; and the chosen plan is never longer than the candidate nor
  than the older fixed forms.
\<close>
theorem plan_never_grows:
  assumes "- (2 ^ 63) \<le> v" "v \<le> 2 ^ 64 - 1"
  shows "\<exists>ss fb. plan v = Inr ss \<and> legacy v (word_of_int v) = Inr fb \<and> length ss \<le> length fb
    \<and> length ss \<le> length (recursive (sint (word_of_int v :: u64)))
    \<and> evaluate (recursive (sint (word_of_int v :: u64))) = Some (word_of_int v)"
proof -
  have "evaluate (recursive (sint (word_of_int v :: u64))) = Some (word_of_int v)"
    by (simp add: recursive_evaluate in_i64_sint)
  with plan_Ok [OF assms] show ?thesis by metis
qed

theorem plan_never_grows_witness:
  "\<exists>ss fb. plan 0x123456789abcdef0 = Inr ss \<and> legacy 0x123456789abcdef0 0x123456789abcdef0 = Inr fb
     \<and> length ss \<le> length fb"
  using plan_never_grows [of "0x123456789abcdef0"] by (auto simp del: word_of_int_numeral)
    
end
