(* ===== verification/Asm_Op.thy ===== *)
theory Asm_Op
  imports Li_Plan
begin

text \<open>
  Operations of generated assembly and their machine code, from
  \<^verbatim>\<open>src/codegen/assembler.rs\<close>: the instruction and operation types, the parsed program and the
  section layout, the address of a symbol, the encoding of every instruction and of the
  multi-instruction sequences, and the size that layout assigns to an operation. Where the source
  extends the output vector, the model returns the bytes that are appended.
\<close>

unbundle bit_operations_syntax

section \<open>Operations\<close>

text \<open>Registers are \<^verbatim>\<open>u8\<close>, immediates \<^verbatim>\<open>i64\<close> (\<^verbatim>\<open>i128\<close> for \<^verbatim>\<open>li\<close>).\<close>

datatype instruction =
    IAddi byte byte int
  | IAdd byte byte byte
  | ISub byte byte byte
  | IAnd byte byte byte
  | IAndi byte byte int
  | IOr byte byte byte
  | IXor byte byte byte
  | IMul byte byte byte
  | IMulhu byte byte byte
  | IDiv byte byte byte
  | IDivu byte byte byte
  | IRem byte byte byte
  | IRemu byte byte byte
  | ISlt byte byte byte
  | ISltu byte byte byte
  | ISgt byte byte byte
  | IXori byte byte int
  | ISeqz byte byte
  | ISnez byte byte
  | INeg byte byte
  | ILd byte byte int
  | ILbu byte byte int
  | ISb byte byte int
  | ISh byte byte int
  | ISw byte byte int
  | ISd byte byte int
  | ISlli byte byte int
  | ISrai byte byte int
  | ISrli byte byte int
  | IRori byte byte int
  | IRoriw byte byte int
  | ISll byte byte byte
  | ISrl byte byte byte
  | ISra byte byte byte
  | ILi byte int
  | ILa byte string
  | ICall string
  | IJump string
  | IBeq byte byte string
  | IBne byte byte string
  | IBlt byte byte string
  | IBge byte byte string
  | IBltu byte byte string
  | IBgeu byte byte string
  | IBeqz byte string
  | IBnez byte string
  | IRet
  | IEcall

datatype asm_op =
    OpLabel string
  | OpInstruction instruction
  | OpWord u32
  | OpByte byte
  | OpAscii "byte list"
  | OpAlign nat

record located_op =
  the_op :: asm_op
  op_prov :: provenance

record symbol_def =
  sym_section :: section_kind
  sym_offset :: nat
  sym_line :: nat

record section_layout =
  text_base :: nat
  text_user_base :: nat
  rodata_base :: nat

text \<open>
  The symbol table is an association list: a label is defined at most once, so the order in which a
  hash map would list it does not matter.
\<close>

record parsed_assembly =
  text_ops :: "located_op list"
  rodata_ops :: "located_op list"
  text_size :: nat
  rodata_size :: nat
  symbols :: "(string \<times> symbol_def) list"
  globals :: "string set"
  entry_label :: "string option"
  relaxed_text_branches :: "nat set"

abbreviation (input) ELF_BASE_ADDR :: nat where "ELF_BASE_ADDR \<equiv> 0x10000"
abbreviation (input) START_TRAMPOLINE_SIZE :: nat where "START_TRAMPOLINE_SIZE \<equiv> 20"

definition for_text_user_size :: "nat \<Rightarrow> section_layout" where
  "for_text_user_size text_user_size =
     (let rodata_offset = align_up (START_TRAMPOLINE_SIZE + text_user_size) 8
      in \<lparr>text_base = ELF_BASE_ADDR,
          text_user_base = ELF_BASE_ADDR + START_TRAMPOLINE_SIZE,
          rodata_base = ELF_BASE_ADDR + rodata_offset\<rparr>)"

definition rodata_offset :: "section_layout \<Rightarrow> nat" where
  "rodata_offset layout = rodata_base layout - text_base layout"

definition section_size :: "parsed_assembly \<Rightarrow> section_kind \<Rightarrow> nat" where
  "section_size p s = (case s of Text \<Rightarrow> text_size p | Rodata \<Rightarrow> rodata_size p)"

definition symbol_address :: "parsed_assembly \<Rightarrow> string \<Rightarrow> section_layout \<Rightarrow> nat asm" where
  "symbol_address p label layout =
     (case map_of (symbols p) label of
        None \<Rightarrow> fail (UnknownLabel label)
      | Some s \<Rightarrow>
          Ok (case sym_section s of
                Text \<Rightarrow> text_user_base layout + sym_offset s
              | Rodata \<Rightarrow> rodata_base layout + sym_offset s))"

section \<open>Conditional branches\<close>

primrec conditional_branch_parts :: "instruction \<Rightarrow> (byte \<times> byte \<times> string \<times> u32) option" where
  "conditional_branch_parts (IAddi rd rs1 imm) = None"
| "conditional_branch_parts (IAdd rd rs1 rs2) = None"
| "conditional_branch_parts (ISub rd rs1 rs2) = None"
| "conditional_branch_parts (IAnd rd rs1 rs2) = None"
| "conditional_branch_parts (IAndi rd rs1 imm) = None"
| "conditional_branch_parts (IOr rd rs1 rs2) = None"
| "conditional_branch_parts (IXor rd rs1 rs2) = None"
| "conditional_branch_parts (IMul rd rs1 rs2) = None"
| "conditional_branch_parts (IMulhu rd rs1 rs2) = None"
| "conditional_branch_parts (IDiv rd rs1 rs2) = None"
| "conditional_branch_parts (IDivu rd rs1 rs2) = None"
| "conditional_branch_parts (IRem rd rs1 rs2) = None"
| "conditional_branch_parts (IRemu rd rs1 rs2) = None"
| "conditional_branch_parts (ISlt rd rs1 rs2) = None"
| "conditional_branch_parts (ISltu rd rs1 rs2) = None"
| "conditional_branch_parts (ISgt rd rs1 rs2) = None"
| "conditional_branch_parts (IXori rd rs1 imm) = None"
| "conditional_branch_parts (ISeqz rd rs) = None"
| "conditional_branch_parts (ISnez rd rs) = None"
| "conditional_branch_parts (INeg rd rs) = None"
| "conditional_branch_parts (ILd rd rs1 imm) = None"
| "conditional_branch_parts (ILbu rd rs1 imm) = None"
| "conditional_branch_parts (ISb rs2 rs1 imm) = None"
| "conditional_branch_parts (ISh rs2 rs1 imm) = None"
| "conditional_branch_parts (ISw rs2 rs1 imm) = None"
| "conditional_branch_parts (ISd rs2 rs1 imm) = None"
| "conditional_branch_parts (ISlli rd rs1 shamt) = None"
| "conditional_branch_parts (ISrai rd rs1 shamt) = None"
| "conditional_branch_parts (ISrli rd rs1 shamt) = None"
| "conditional_branch_parts (IRori rd rs1 shamt) = None"
| "conditional_branch_parts (IRoriw rd rs1 shamt) = None"
| "conditional_branch_parts (ISll rd rs1 rs2) = None"
| "conditional_branch_parts (ISrl rd rs1 rs2) = None"
| "conditional_branch_parts (ISra rd rs1 rs2) = None"
| "conditional_branch_parts (ILi rd imm) = None"
| "conditional_branch_parts (ILa rd label) = None"
| "conditional_branch_parts (ICall label) = None"
| "conditional_branch_parts (IJump label) = None"
| "conditional_branch_parts (IBeq rs1 rs2 label) = Some (rs1, rs2, label, 0)"
| "conditional_branch_parts (IBne rs1 rs2 label) = Some (rs1, rs2, label, 1)"
| "conditional_branch_parts (IBlt rs1 rs2 label) = Some (rs1, rs2, label, 4)"
| "conditional_branch_parts (IBge rs1 rs2 label) = Some (rs1, rs2, label, 5)"
| "conditional_branch_parts (IBltu rs1 rs2 label) = Some (rs1, rs2, label, 6)"
| "conditional_branch_parts (IBgeu rs1 rs2 label) = Some (rs1, rs2, label, 7)"
| "conditional_branch_parts (IBeqz rs label) = Some (rs, 0, label, 0)"
| "conditional_branch_parts (IBnez rs label) = Some (rs, 0, label, 1)"
| "conditional_branch_parts IRet = None"
| "conditional_branch_parts IEcall = None"

text \<open>The default arm of the source is \<^verbatim>\<open>unreachable!\<close>; here it is \<open>None\<close>.\<close>

definition inverse_branch_funct3 :: "u32 \<Rightarrow> u32 option" where
  "inverse_branch_funct3 funct3 =
     (if funct3 = 0 then Some 1
      else if funct3 = 1 then Some 0
      else if funct3 = 4 then Some 5
      else if funct3 = 5 then Some 4
      else if funct3 = 6 then Some 7
      else if funct3 = 7 then Some 6
      else None)"

definition asm_branch_target :: "instruction \<Rightarrow> parsed_assembly \<Rightarrow> section_layout \<Rightarrow> nat asm" where
  "asm_branch_target inst p layout =
     (case conditional_branch_parts inst of
        Some (_, _, label, _) \<Rightarrow> symbol_address p label layout
      | None \<Rightarrow> fail NotConditionalBranch)"

section \<open>Encoding\<close>

abbreviation emit_r :: "u32 \<Rightarrow> byte list asm" where
  "emit_r w \<equiv> Ok (u32_le w)"

definition emit :: "u32 asm \<Rightarrow> byte list asm" where
  "emit r = rbind r (\<lambda>w. Ok (u32_le w))"

text \<open>Two encodings in sequence, the first error wins.\<close>

definition emit_seq :: "byte list asm \<Rightarrow> byte list asm \<Rightarrow> byte list asm" where
  "emit_seq a b = rbind a (\<lambda>x. rbind b (\<lambda>y. Ok (x @ y)))"

definition encode_step :: "byte \<Rightarrow> step \<Rightarrow> u32 asm" where
  "encode_step rd s =
     (case s of
        AddFromZero v \<Rightarrow> encode_i_type 0x13 rd 0 0 v
      | LoadUpper v \<Rightarrow> Ok (encode_u_type 0x37 rd v)
      | ShiftLeft k \<Rightarrow> encode_i_type 0x13 rd 1 rd (int k)
      | Add v \<Rightarrow> encode_i_type 0x13 rd 0 rd v
      | ShiftRight k \<Rightarrow> encode_i_type 0x13 rd 5 rd (int k))"

fun encode_steps :: "byte \<Rightarrow> step list \<Rightarrow> byte list asm" where
  "encode_steps rd [] = Ok []"
| "encode_steps rd (s # ss) = emit_seq (emit (encode_step rd s)) (encode_steps rd ss)"

definition encode_li_sequence :: "byte \<Rightarrow> int \<Rightarrow> byte list asm" where
  "encode_li_sequence rd imm = rbind (plan imm) (encode_steps rd)"

fun encode_large_bytes :: "byte \<Rightarrow> byte list \<Rightarrow> byte list asm" where
  "encode_large_bytes rd [] = Ok []"
| "encode_large_bytes rd (b # bs) =
     emit_seq (emit (encode_i_type 0x13 rd 1 rd 8))
       (emit_seq (emit (encode_i_type 0x13 rd 0 rd (uint b))) (encode_large_bytes rd bs))"

definition encode_large_li_sequence :: "byte \<Rightarrow> u64 \<Rightarrow> byte list asm" where
  "encode_large_li_sequence rd bits =
     (let bytes = rev (nat_to_le 8 (unat bits))
      in emit_seq (emit (encode_i_type 0x13 rd 0 0 (uint (bytes ! 0))))
           (encode_large_bytes rd (drop 1 bytes)))"

definition encode_fixed_li_sequence :: "byte \<Rightarrow> int \<Rightarrow> byte list asm" where
  "encode_fixed_li_sequence rd imm =
     (case li_signed_i64 imm of
        Some sv \<Rightarrow>
          if li_fits_lui_addi_rv64 sv then
            rbind (split_hi_lo sv) (\<lambda>(hi, lo).
              emit_seq (emit_r (encode_u_type 0x37 rd hi)) (emit (encode_i_type 0x13 rd 0 rd lo)))
          else rbind (li_bits imm) (encode_large_li_sequence rd)
      | None \<Rightarrow> rbind (li_bits imm) (encode_large_li_sequence rd))"

definition encode_address_sequence :: "byte \<Rightarrow> nat \<Rightarrow> nat \<Rightarrow> byte list asm" where
  "encode_address_sequence rd pc target =
     rbind (relative_offset pc target) (\<lambda>d.
     rbind (split_hi_lo d) (\<lambda>(hi, lo).
       emit_seq (emit_r (encode_u_type 0x17 rd hi)) (emit (encode_i_type 0x13 rd 0 rd lo))))"

definition encode_call_sequence :: "nat \<Rightarrow> nat \<Rightarrow> byte list asm" where
  "encode_call_sequence pc target =
     rbind (relative_offset pc target) (\<lambda>d.
     rbind (split_hi_lo d) (\<lambda>(hi, lo).
       emit_seq (emit_r (encode_u_type 0x17 1 hi)) (emit (encode_i_type 0x67 1 0 1 lo))))"

definition encode_shift ::
  "string \<Rightarrow> int \<Rightarrow> u32 \<Rightarrow> byte \<Rightarrow> u32 \<Rightarrow> byte \<Rightarrow> int \<Rightarrow> int \<Rightarrow> byte list asm" where
  "encode_shift name mx opcode rd funct3 rs1 high shamt =
     (if \<not> (0 \<le> shamt \<and> shamt \<le> mx) then fail (ShiftAmountRange name)
      else emit (encode_i_type opcode rd funct3 rs1 (high OR shamt)))"

definition encode_branch ::
  "byte \<times> byte \<times> string \<times> u32 \<Rightarrow> nat \<Rightarrow> parsed_assembly \<Rightarrow> section_layout \<Rightarrow> bool \<Rightarrow> byte list asm" where
  "encode_branch parts pc parsed layout relaxed_branch =
     (case parts of (rs1, rs2, label, funct3) \<Rightarrow>
        rbind (symbol_address parsed label layout) (\<lambda>target.
          if relaxed_branch then
            case inverse_branch_funct3 funct3 of
              None \<Rightarrow> fail Panic
            | Some inv3 \<Rightarrow>
                emit_seq (emit (encode_b_type 0x63 inv3 rs1 rs2 8))
                  (rbind (relative_offset (pc + 4) target) (\<lambda>d. emit (encode_j_type 0x6f 0 d)))
          else rbind (relative_offset pc target) (\<lambda>d. emit (encode_b_type 0x63 funct3 rs1 rs2 d))))"

text \<open>
  The eight conditional branches share one arm in the source, which takes them apart with
  \<^verbatim>\<open>conditional_branch_parts\<close>; the parts stand in the equations here.
\<close>

primrec encode_instruction ::
  "instruction \<Rightarrow> nat \<Rightarrow> parsed_assembly \<Rightarrow> section_layout \<Rightarrow> bool \<Rightarrow> byte list asm" where
  "encode_instruction (IAddi rd rs1 imm) pc parsed layout relaxed_branch =
     emit (encode_i_type 0x13 rd 0 rs1 imm)"
| "encode_instruction (IAdd rd rs1 rs2) pc parsed layout relaxed_branch =
     emit_r (encode_r_type 0x33 rd 0 rs1 rs2 0)"
| "encode_instruction (ISub rd rs1 rs2) pc parsed layout relaxed_branch =
     emit_r (encode_r_type 0x33 rd 0 rs1 rs2 0x20)"
| "encode_instruction (IAnd rd rs1 rs2) pc parsed layout relaxed_branch =
     emit_r (encode_r_type 0x33 rd 7 rs1 rs2 0)"
| "encode_instruction (IAndi rd rs1 imm) pc parsed layout relaxed_branch =
     emit (encode_i_type 0x13 rd 7 rs1 imm)"
| "encode_instruction (IOr rd rs1 rs2) pc parsed layout relaxed_branch =
     emit_r (encode_r_type 0x33 rd 6 rs1 rs2 0)"
| "encode_instruction (IXor rd rs1 rs2) pc parsed layout relaxed_branch =
     emit_r (encode_r_type 0x33 rd 4 rs1 rs2 0)"
| "encode_instruction (IMul rd rs1 rs2) pc parsed layout relaxed_branch =
     emit_r (encode_r_type 0x33 rd 0 rs1 rs2 0x1)"
| "encode_instruction (IMulhu rd rs1 rs2) pc parsed layout relaxed_branch =
     emit_r (encode_r_type 0x33 rd 3 rs1 rs2 0x1)"
| "encode_instruction (IDiv rd rs1 rs2) pc parsed layout relaxed_branch =
     emit_r (encode_r_type 0x33 rd 4 rs1 rs2 0x1)"
| "encode_instruction (IDivu rd rs1 rs2) pc parsed layout relaxed_branch =
     emit_r (encode_r_type 0x33 rd 5 rs1 rs2 0x1)"
| "encode_instruction (IRem rd rs1 rs2) pc parsed layout relaxed_branch =
     emit_r (encode_r_type 0x33 rd 6 rs1 rs2 0x1)"
| "encode_instruction (IRemu rd rs1 rs2) pc parsed layout relaxed_branch =
     emit_r (encode_r_type 0x33 rd 7 rs1 rs2 0x1)"
| "encode_instruction (ISlt rd rs1 rs2) pc parsed layout relaxed_branch =
     emit_r (encode_r_type 0x33 rd 2 rs1 rs2 0)"
| "encode_instruction (ISltu rd rs1 rs2) pc parsed layout relaxed_branch =
     emit_r (encode_r_type 0x33 rd 3 rs1 rs2 0)"
| "encode_instruction (ISgt rd rs1 rs2) pc parsed layout relaxed_branch =
     emit_r (encode_r_type 0x33 rd 2 rs2 rs1 0)"
| "encode_instruction (IXori rd rs1 imm) pc parsed layout relaxed_branch =
     emit (encode_i_type 0x13 rd 4 rs1 imm)"
| "encode_instruction (ISeqz rd rs) pc parsed layout relaxed_branch =
     emit (encode_i_type 0x13 rd 3 rs 1)"
| "encode_instruction (ISnez rd rs) pc parsed layout relaxed_branch =
     emit_r (encode_r_type 0x33 rd 3 0 rs 0)"
| "encode_instruction (INeg rd rs) pc parsed layout relaxed_branch =
     emit_r (encode_r_type 0x33 rd 0 0 rs 0x20)"
| "encode_instruction (ILd rd rs1 imm) pc parsed layout relaxed_branch =
     emit (encode_i_type 0x03 rd 3 rs1 imm)"
| "encode_instruction (ILbu rd rs1 imm) pc parsed layout relaxed_branch =
     emit (encode_i_type 0x03 rd 4 rs1 imm)"
| "encode_instruction (ISb rs2 rs1 imm) pc parsed layout relaxed_branch =
     emit (encode_s_type 0x23 0 rs1 rs2 imm)"
| "encode_instruction (ISh rs2 rs1 imm) pc parsed layout relaxed_branch =
     emit (encode_s_type 0x23 1 rs1 rs2 imm)"
| "encode_instruction (ISw rs2 rs1 imm) pc parsed layout relaxed_branch =
     emit (encode_s_type 0x23 2 rs1 rs2 imm)"
| "encode_instruction (ISd rs2 rs1 imm) pc parsed layout relaxed_branch =
     emit (encode_s_type 0x23 3 rs1 rs2 imm)"
| "encode_instruction (ISlli rd rs1 shamt) pc parsed layout relaxed_branch =
     encode_shift ''slli'' 63 0x13 rd 1 rs1 0 shamt"
| "encode_instruction (ISrai rd rs1 shamt) pc parsed layout relaxed_branch =
     encode_shift ''srai'' 63 0x13 rd 5 rs1 (push_bit 5 0x20) shamt"
| "encode_instruction (ISrli rd rs1 shamt) pc parsed layout relaxed_branch =
     encode_shift ''srli'' 63 0x13 rd 5 rs1 0 shamt"
| "encode_instruction (IRori rd rs1 shamt) pc parsed layout relaxed_branch =
     encode_shift ''rori'' 63 0x13 rd 5 rs1 (push_bit 6 0x18) shamt"
| "encode_instruction (IRoriw rd rs1 shamt) pc parsed layout relaxed_branch =
     encode_shift ''roriw'' 31 0x1b rd 5 rs1 (push_bit 5 0x30) shamt"
| "encode_instruction (ISll rd rs1 rs2) pc parsed layout relaxed_branch =
     emit_r (encode_r_type 0x33 rd 1 rs1 rs2 0)"
| "encode_instruction (ISrl rd rs1 rs2) pc parsed layout relaxed_branch =
     emit_r (encode_r_type 0x33 rd 5 rs1 rs2 0)"
| "encode_instruction (ISra rd rs1 rs2) pc parsed layout relaxed_branch =
     emit_r (encode_r_type 0x33 rd 5 rs1 rs2 0x20)"
| "encode_instruction (ILi rd imm) pc parsed layout relaxed_branch =
     encode_li_sequence rd imm"
| "encode_instruction (ILa rd label) pc parsed layout relaxed_branch =
     rbind (symbol_address parsed label layout) (encode_address_sequence rd pc)"
| "encode_instruction (ICall label) pc parsed layout relaxed_branch =
     rbind (symbol_address parsed label layout) (encode_call_sequence pc)"
| "encode_instruction (IJump label) pc parsed layout relaxed_branch =
     rbind (symbol_address parsed label layout) (\<lambda>target.
     rbind (relative_offset pc target) (\<lambda>d. emit (encode_j_type 0x6f 0 d)))"
| "encode_instruction (IBeq rs1 rs2 label) pc parsed layout relaxed_branch =
     encode_branch (rs1, rs2, label, 0) pc parsed layout relaxed_branch"
| "encode_instruction (IBne rs1 rs2 label) pc parsed layout relaxed_branch =
     encode_branch (rs1, rs2, label, 1) pc parsed layout relaxed_branch"
| "encode_instruction (IBlt rs1 rs2 label) pc parsed layout relaxed_branch =
     encode_branch (rs1, rs2, label, 4) pc parsed layout relaxed_branch"
| "encode_instruction (IBge rs1 rs2 label) pc parsed layout relaxed_branch =
     encode_branch (rs1, rs2, label, 5) pc parsed layout relaxed_branch"
| "encode_instruction (IBltu rs1 rs2 label) pc parsed layout relaxed_branch =
     encode_branch (rs1, rs2, label, 6) pc parsed layout relaxed_branch"
| "encode_instruction (IBgeu rs1 rs2 label) pc parsed layout relaxed_branch =
     encode_branch (rs1, rs2, label, 7) pc parsed layout relaxed_branch"
| "encode_instruction (IBeqz rs label) pc parsed layout relaxed_branch =
     encode_branch (rs, 0, label, 0) pc parsed layout relaxed_branch"
| "encode_instruction (IBnez rs label) pc parsed layout relaxed_branch =
     encode_branch (rs, 0, label, 1) pc parsed layout relaxed_branch"
| "encode_instruction IRet pc parsed layout relaxed_branch =
     emit (encode_i_type 0x67 0 0 1 0)"
| "encode_instruction IEcall pc parsed layout relaxed_branch =
     emit_r encode_ecall"

section \<open>Sizes\<close>

datatype branch_size_mode = Conservative | Exact "nat set"

definition mode_relaxed_text_branches :: "branch_size_mode \<Rightarrow> nat set option" where
  "mode_relaxed_text_branches m = (case m of Conservative \<Rightarrow> None | Exact r \<Rightarrow> Some r)"

definition branch_size :: "section_kind \<Rightarrow> nat \<Rightarrow> branch_size_mode \<Rightarrow> nat" where
  "branch_size sec op_index mode =
     (case mode of
        Conservative \<Rightarrow> 8
      | Exact relaxed \<Rightarrow> if sec = Text \<and> op_index \<in> relaxed then 8 else 4)"

text \<open>
  The arms of \<^verbatim>\<open>op_size\<close> for instructions: \<^verbatim>\<open>li\<close>, \<^verbatim>\<open>la\<close>, \<^verbatim>\<open>call\<close>, the eight
  conditional branches, and four bytes for every other instruction.
\<close>

definition instruction_size :: "instruction \<Rightarrow> section_kind \<Rightarrow> nat \<Rightarrow> branch_size_mode \<Rightarrow> nat asm" where
  "instruction_size inst sec op_index mode =
     (case inst of
        ILi _ imm \<Rightarrow> li_sequence_size imm
      | ILa _ _ \<Rightarrow> Ok 8
      | ICall _ \<Rightarrow> Ok 8
      | _ \<Rightarrow> Ok (case conditional_branch_parts inst of
                   Some _ \<Rightarrow> branch_size sec op_index mode | None \<Rightarrow> 4))"

definition op_size :: "asm_op \<Rightarrow> nat \<Rightarrow> section_kind \<Rightarrow> nat \<Rightarrow> branch_size_mode \<Rightarrow> nat asm" where
  "op_size op current_offset sec op_index mode =
     (case op of
        OpLabel _ \<Rightarrow> Ok 0
      | OpInstruction inst \<Rightarrow> instruction_size inst sec op_index mode
      | OpWord _ \<Rightarrow> Ok 4
      | OpByte _ \<Rightarrow> Ok 1
      | OpAscii bytes \<Rightarrow> Ok (length bytes)
      | OpAlign bytes \<Rightarrow> Ok (padding_for current_offset bytes))"

section \<open>Registers of an instruction\<close>

text \<open>What parsing guarantees: every register number is below 32.\<close>

primrec regs_ok :: "instruction \<Rightarrow> bool" where
  "regs_ok (IAddi rd rs1 imm) \<longleftrightarrow> rd < 32 \<and> rs1 < 32"
| "regs_ok (IAdd rd rs1 rs2) \<longleftrightarrow> rd < 32 \<and> rs1 < 32 \<and> rs2 < 32"
| "regs_ok (ISub rd rs1 rs2) \<longleftrightarrow> rd < 32 \<and> rs1 < 32 \<and> rs2 < 32"
| "regs_ok (IAnd rd rs1 rs2) \<longleftrightarrow> rd < 32 \<and> rs1 < 32 \<and> rs2 < 32"
| "regs_ok (IAndi rd rs1 imm) \<longleftrightarrow> rd < 32 \<and> rs1 < 32"
| "regs_ok (IOr rd rs1 rs2) \<longleftrightarrow> rd < 32 \<and> rs1 < 32 \<and> rs2 < 32"
| "regs_ok (IXor rd rs1 rs2) \<longleftrightarrow> rd < 32 \<and> rs1 < 32 \<and> rs2 < 32"
| "regs_ok (IMul rd rs1 rs2) \<longleftrightarrow> rd < 32 \<and> rs1 < 32 \<and> rs2 < 32"
| "regs_ok (IMulhu rd rs1 rs2) \<longleftrightarrow> rd < 32 \<and> rs1 < 32 \<and> rs2 < 32"
| "regs_ok (IDiv rd rs1 rs2) \<longleftrightarrow> rd < 32 \<and> rs1 < 32 \<and> rs2 < 32"
| "regs_ok (IDivu rd rs1 rs2) \<longleftrightarrow> rd < 32 \<and> rs1 < 32 \<and> rs2 < 32"
| "regs_ok (IRem rd rs1 rs2) \<longleftrightarrow> rd < 32 \<and> rs1 < 32 \<and> rs2 < 32"
| "regs_ok (IRemu rd rs1 rs2) \<longleftrightarrow> rd < 32 \<and> rs1 < 32 \<and> rs2 < 32"
| "regs_ok (ISlt rd rs1 rs2) \<longleftrightarrow> rd < 32 \<and> rs1 < 32 \<and> rs2 < 32"
| "regs_ok (ISltu rd rs1 rs2) \<longleftrightarrow> rd < 32 \<and> rs1 < 32 \<and> rs2 < 32"
| "regs_ok (ISgt rd rs1 rs2) \<longleftrightarrow> rd < 32 \<and> rs1 < 32 \<and> rs2 < 32"
| "regs_ok (IXori rd rs1 imm) \<longleftrightarrow> rd < 32 \<and> rs1 < 32"
| "regs_ok (ISeqz rd rs) \<longleftrightarrow> rd < 32 \<and> rs < 32"
| "regs_ok (ISnez rd rs) \<longleftrightarrow> rd < 32 \<and> rs < 32"
| "regs_ok (INeg rd rs) \<longleftrightarrow> rd < 32 \<and> rs < 32"
| "regs_ok (ILd rd rs1 imm) \<longleftrightarrow> rd < 32 \<and> rs1 < 32"
| "regs_ok (ILbu rd rs1 imm) \<longleftrightarrow> rd < 32 \<and> rs1 < 32"
| "regs_ok (ISb rs2 rs1 imm) \<longleftrightarrow> rs2 < 32 \<and> rs1 < 32"
| "regs_ok (ISh rs2 rs1 imm) \<longleftrightarrow> rs2 < 32 \<and> rs1 < 32"
| "regs_ok (ISw rs2 rs1 imm) \<longleftrightarrow> rs2 < 32 \<and> rs1 < 32"
| "regs_ok (ISd rs2 rs1 imm) \<longleftrightarrow> rs2 < 32 \<and> rs1 < 32"
| "regs_ok (ISlli rd rs1 shamt) \<longleftrightarrow> rd < 32 \<and> rs1 < 32"
| "regs_ok (ISrai rd rs1 shamt) \<longleftrightarrow> rd < 32 \<and> rs1 < 32"
| "regs_ok (ISrli rd rs1 shamt) \<longleftrightarrow> rd < 32 \<and> rs1 < 32"
| "regs_ok (IRori rd rs1 shamt) \<longleftrightarrow> rd < 32 \<and> rs1 < 32"
| "regs_ok (IRoriw rd rs1 shamt) \<longleftrightarrow> rd < 32 \<and> rs1 < 32"
| "regs_ok (ISll rd rs1 rs2) \<longleftrightarrow> rd < 32 \<and> rs1 < 32 \<and> rs2 < 32"
| "regs_ok (ISrl rd rs1 rs2) \<longleftrightarrow> rd < 32 \<and> rs1 < 32 \<and> rs2 < 32"
| "regs_ok (ISra rd rs1 rs2) \<longleftrightarrow> rd < 32 \<and> rs1 < 32 \<and> rs2 < 32"
| "regs_ok (ILi rd imm) \<longleftrightarrow> rd < 32"
| "regs_ok (ILa rd label) \<longleftrightarrow> rd < 32"
| "regs_ok (ICall label) \<longleftrightarrow> True"
| "regs_ok (IJump label) \<longleftrightarrow> True"
| "regs_ok (IBeq rs1 rs2 label) \<longleftrightarrow> rs1 < 32 \<and> rs2 < 32"
| "regs_ok (IBne rs1 rs2 label) \<longleftrightarrow> rs1 < 32 \<and> rs2 < 32"
| "regs_ok (IBlt rs1 rs2 label) \<longleftrightarrow> rs1 < 32 \<and> rs2 < 32"
| "regs_ok (IBge rs1 rs2 label) \<longleftrightarrow> rs1 < 32 \<and> rs2 < 32"
| "regs_ok (IBltu rs1 rs2 label) \<longleftrightarrow> rs1 < 32 \<and> rs2 < 32"
| "regs_ok (IBgeu rs1 rs2 label) \<longleftrightarrow> rs1 < 32 \<and> rs2 < 32"
| "regs_ok (IBeqz rs label) \<longleftrightarrow> rs < 32"
| "regs_ok (IBnez rs label) \<longleftrightarrow> rs < 32"
| "regs_ok IRet \<longleftrightarrow> True"
| "regs_ok IEcall \<longleftrightarrow> True"

section \<open>Sizes agree with encodings\<close>

lemma emit_Ok [simp]: "emit r = Inr bs \<longleftrightarrow> (\<exists>w. r = Inr w \<and> bs = u32_le w)"
  by (auto simp: emit_def rbind_Ok_iff)

lemma emit_seq_Ok [simp]:
  "emit_seq a b = Inr bs \<longleftrightarrow> (\<exists>x y. a = Inr x \<and> b = Inr y \<and> bs = x @ y)"
  by (auto simp: emit_seq_def rbind_Ok_iff)

lemma encode_steps_length: "encode_steps rd ss = Inr bs \<Longrightarrow> length bs = length ss * 4"
  by (induction ss arbitrary: bs) auto

lemma encode_li_sequence_length:
  "encode_li_sequence rd imm = Inr bs \<Longrightarrow> li_sequence_size imm = Inr (length bs)"
  by (auto simp: encode_li_sequence_def li_sequence_size_def encode_steps_length)

lemma encode_sequences_length:
  "encode_address_sequence rd pc t = Inr bs \<Longrightarrow> length bs = 8"
  "encode_call_sequence pc t = Inr bs \<Longrightarrow> length bs = 8"
  "encode_shift nm mx opc rd f rs h k = Inr bs \<Longrightarrow> length bs = 4"
  "encode_branch parts pc p l rel = Inr bs \<Longrightarrow> length bs = (if rel then 8 else 4)"
  by (auto simp: encode_address_sequence_def encode_call_sequence_def encode_shift_def encode_branch_def
      split: if_splits option.splits prod.splits)

lemma encode_instruction_length:
  assumes "encode_instruction inst pc p l (sec = Text \<and> i \<in> R) = Inr bs"
  shows "instruction_size inst sec i (Exact R) = Inr (length bs)"
  using assms
  by (cases inst)
    (auto simp: instruction_size_def branch_size_def encode_li_sequence_length
      dest: encode_sequences_length)

declare
  for_text_user_size_def [eval_simps] rodata_offset_def [eval_simps] section_size_def [eval_simps]
  symbol_address_def [eval_simps] inverse_branch_funct3_def [eval_simps]
  asm_branch_target_def [eval_simps] emit_def [eval_simps] emit_seq_def [eval_simps]
  encode_step_def [eval_simps] encode_li_sequence_def [eval_simps]
  encode_large_li_sequence_def [eval_simps] encode_fixed_li_sequence_def [eval_simps]
  encode_address_sequence_def [eval_simps] encode_call_sequence_def [eval_simps]
  encode_shift_def [eval_simps] encode_branch_def [eval_simps]
  mode_relaxed_text_branches_def [eval_simps] branch_size_def [eval_simps]
  instruction_size_def [eval_simps] op_size_def [eval_simps] new_error_def [eval_simps]

end
