(* ===== verification/Rust_Str.thy ===== *)
theory Rust_Str
  imports Cs_Prelude "HOL-Library.Sublist"
begin

text \<open>
  The operations of Rust's \<^verbatim>\<open>str\<close> that the assembler and the checker use. A
  \<^verbatim>\<open>str\<close> is its UTF-8 bytes, and a \<open>string\<close> holds one byte per \<open>char\<close>, so
  lengths and offsets are byte counts as in Rust. White space is the Unicode property
  \<^verbatim>\<open>White_Space\<close> that \<^verbatim>\<open>trim\<close> and \<^verbatim>\<open>char::is_whitespace\<close> use, given by the
  byte sequences of its characters: the first byte of each is never a continuation byte, so a
  bytewise match in well-formed text is a match of that character.
\<close>

section \<open>Bytes and characters\<close>

definition str_bytes :: "string \<Rightarrow> byte list" where
  "str_bytes s = map of_char s"

definition bytes_str :: "byte list \<Rightarrow> string" where
  "bytes_str bs = map (\<lambda>b. char_of (unat b)) bs"

lemma unat_of_char [simp]: "unat (of_char c :: byte) = of_char c"
proof -
  have "(of_char c :: byte) = word_of_nat (of_char c)" by (simp only: of_nat_of_char)
  moreover have "(of_char c :: nat) mod 256 = of_char c" by simp
  ultimately show ?thesis by (simp only: unat_of_nat) simp
qed

lemma bytes_str_str_bytes [simp]: "bytes_str (str_bytes s) = s"
  by (induction s) (simp_all add: str_bytes_def bytes_str_def)

lemma length_str_bytes [simp]: "length (str_bytes s) = length s"
  by (simp add: str_bytes_def)

text \<open>
  The width of the first character of a byte string if that character is well formed, as
  \<^verbatim>\<open>core::str::from_utf8\<close> checks it: no overlong forms, surrogates or values above
  \<^verbatim>\<open>U+10FFFF\<close>.
\<close>

definition is_cont :: "byte \<Rightarrow> bool" where
  "is_cont b \<longleftrightarrow> 0x80 \<le> b \<and> b \<le> 0xbf"

definition utf8_width :: "byte list \<Rightarrow> nat option" where
  "utf8_width bs =
     (case bs of
        [] \<Rightarrow> None
      | b0 # rest \<Rightarrow>
          if b0 < 0x80 then Some 1
          else if 0xc2 \<le> b0 \<and> b0 \<le> 0xdf then
            (case rest of b1 # _ \<Rightarrow> if is_cont b1 then Some 2 else None | _ \<Rightarrow> None)
          else if 0xe0 \<le> b0 \<and> b0 \<le> 0xef then
            (case rest of
               b1 # b2 # _ \<Rightarrow>
                 if is_cont b1 \<and> is_cont b2 \<and> (b0 = 0xe0 \<longrightarrow> 0xa0 \<le> b1) \<and> (b0 = 0xed \<longrightarrow> b1 \<le> 0x9f)
                 then Some 3 else None
             | _ \<Rightarrow> None)
          else if 0xf0 \<le> b0 \<and> b0 \<le> 0xf4 then
            (case rest of
               b1 # b2 # b3 # _ \<Rightarrow>
                 if is_cont b1 \<and> is_cont b2 \<and> is_cont b3
                   \<and> (b0 = 0xf0 \<longrightarrow> 0x90 \<le> b1) \<and> (b0 = 0xf4 \<longrightarrow> b1 \<le> 0x8f)
                 then Some 4 else None
             | _ \<Rightarrow> None)
          else None)"

lemma utf8_width_bounds: "utf8_width bs = Some n \<Longrightarrow> 0 < n \<and> n \<le> length bs"
  by (auto simp: utf8_width_def split: list.splits if_splits)

function utf8_valid :: "byte list \<Rightarrow> bool" where
  "utf8_valid bs =
     (if bs = [] then True
      else case utf8_width bs of None \<Rightarrow> False | Some n \<Rightarrow> utf8_valid (drop n bs))"
  by pat_completeness auto
termination
  by (relation "measure length") (auto dest: utf8_width_bounds)

declare utf8_valid.simps [simp del]

lemma utf8_valid_ascii: "\<forall>b\<in>set bs. b < 0x80 \<Longrightarrow> utf8_valid bs"
proof (induction bs)
  case (Cons b bs)
  then have "utf8_width (b # bs) = Some 1" by (simp add: utf8_width_def)
  with Cons show ?case by (simp add: utf8_valid.simps [of "b # bs"])
qed (simp add: utf8_valid.simps)

section \<open>Affixes\<close>

definition starts_with :: "'a list \<Rightarrow> 'a list \<Rightarrow> bool" where
  "starts_with s p \<longleftrightarrow> take (length p) s = p"

definition ends_with :: "'a list \<Rightarrow> 'a list \<Rightarrow> bool" where
  "ends_with s p \<longleftrightarrow> length p \<le> length s \<and> drop (length s - length p) s = p"

definition strip_prefix :: "'a list \<Rightarrow> 'a list \<Rightarrow> 'a list option" where
  "strip_prefix p s = (if starts_with s p then Some (drop (length p) s) else None)"

definition strip_suffix :: "'a list \<Rightarrow> 'a list \<Rightarrow> 'a list option" where
  "strip_suffix p s = (if ends_with s p then Some (take (length s - length p) s) else None)"

lemma starts_with_prefix: "starts_with s p \<longleftrightarrow> prefix p s"
  by (auto simp: starts_with_def prefix_def) (metis append_take_drop_id)

lemma ends_with_suffix: "ends_with s p \<longleftrightarrow> suffix p s"
  by (auto simp: ends_with_def suffix_def) (metis append_take_drop_id)

lemma strip_prefix_Some: "strip_prefix p s = Some r \<longleftrightarrow> s = p @ r"
  by (auto simp: strip_prefix_def starts_with_prefix prefix_def)

lemma strip_suffix_Some: "strip_suffix p s = Some r \<longleftrightarrow> s = r @ p"
  by (auto simp: strip_suffix_def ends_with_suffix suffix_def)

section \<open>White space\<close>

definition is_ws_seq :: "nat list \<Rightarrow> bool" where
  "is_ws_seq bs =
     (case bs of
        [a] \<Rightarrow> 9 \<le> a \<and> a \<le> 13 \<or> a = 32
      | [a, b] \<Rightarrow> a = 0xc2 \<and> (b = 0x85 \<or> b = 0xa0)
      | [a, b, c] \<Rightarrow>
          a = 0xe1 \<and> b = 0x9a \<and> c = 0x80
          \<or> a = 0xe2 \<and> b = 0x80 \<and> (0x80 \<le> c \<and> c \<le> 0x8a \<or> c = 0xa8 \<or> c = 0xa9 \<or> c = 0xaf)
          \<or> a = 0xe2 \<and> b = 0x81 \<and> c = 0x9f
          \<or> a = 0xe3 \<and> b = 0x80 \<and> c = 0x80
      | _ \<Rightarrow> False)"

text \<open>The width of the white space character at the start or at the end of a string.\<close>

definition leading_ws :: "string \<Rightarrow> nat option" where
  "leading_ws s =
     List.find (\<lambda>k. k \<le> length s \<and> is_ws_seq (map of_char (take k s))) [1, 2, 3]"

definition trailing_ws :: "string \<Rightarrow> nat option" where
  "trailing_ws s =
     List.find (\<lambda>k. k \<le> length s \<and> is_ws_seq (map of_char (drop (length s - k) s))) [1, 2, 3]"

lemma leading_ws_Some: "leading_ws s = Some k \<Longrightarrow> 0 < k \<and> k \<le> length s"
  by (auto simp: leading_ws_def split: if_splits)

lemma trailing_ws_Some: "trailing_ws s = Some k \<Longrightarrow> 0 < k \<and> k \<le> length s"
  by (auto simp: trailing_ws_def split: if_splits)

function trim_start :: "string \<Rightarrow> string" where
  "trim_start s = (case leading_ws s of None \<Rightarrow> s | Some k \<Rightarrow> trim_start (drop k s))"
  by pat_completeness auto
termination
  by (relation "measure length") (simp, use leading_ws_Some in fastforce)

function trim_end :: "string \<Rightarrow> string" where
  "trim_end s =
     (case trailing_ws s of None \<Rightarrow> s | Some k \<Rightarrow> trim_end (take (length s - k) s))"
  by pat_completeness auto
termination
  by (relation "measure length") (simp, use trailing_ws_Some in fastforce)

declare trim_start.simps [simp del] trim_end.simps [simp del]

definition trim :: "string \<Rightarrow> string" where
  "trim s = trim_end (trim_start s)"

section \<open>Searching and splitting\<close>

definition find_char :: "'a \<Rightarrow> 'a list \<Rightarrow> nat option" where
  "find_char c s = List.find (\<lambda>i. s ! i = c) [0..<length s]"

definition rfind_char :: "'a \<Rightarrow> 'a list \<Rightarrow> nat option" where
  "rfind_char c s = List.find (\<lambda>i. s ! i = c) (rev [0..<length s])"

text \<open>\<^verbatim>\<open>splitn(2, char::is_whitespace)\<close>: the two fields, the second absent if there is none.\<close>

fun split_ws :: "string \<Rightarrow> string \<times> string option" where
  "split_ws [] = ([], None)"
| "split_ws (c # s) =
     (case leading_ws (c # s) of
        Some k \<Rightarrow> ([], Some (drop k (c # s)))
      | None \<Rightarrow> (case split_ws s of (a, b) \<Rightarrow> (c # a, b)))"

fun split_char :: "'a \<Rightarrow> 'a list \<Rightarrow> 'a list list" where
  "split_char c [] = [[]]"
| "split_char c (x # xs) =
     (if x = c then [] # split_char c xs
      else case split_char c xs of [] \<Rightarrow> [[x]] | f # fs \<Rightarrow> (x # f) # fs)"

section \<open>Numbers\<close>

definition digit_value :: "nat \<Rightarrow> char \<Rightarrow> nat option" where
  "digit_value radix c =
     (let n = of_char c :: nat;
          v = if 48 \<le> n \<and> n \<le> 57 then n - 48
              else if 97 \<le> n \<and> n \<le> 122 then n - 87
              else if 65 \<le> n \<and> n \<le> 90 then n - 55
              else radix
      in if v < radix then Some v else None)"

fun parse_digits :: "nat \<Rightarrow> nat \<Rightarrow> string \<Rightarrow> nat option" where
  "parse_digits radix acc [] = Some acc"
| "parse_digits radix acc (c # s) =
     (case digit_value radix c of None \<Rightarrow> None | Some d \<Rightarrow> parse_digits radix (acc * radix + d) s)"

text \<open>
  \<^verbatim>\<open>from_str_radix\<close> for an integer type with bounds \<open>lo\<close> and \<open>hi\<close>: empty text and
  a lone sign are errors, a leading plus is accepted, a leading minus for signed types only. The
  accumulator moves away from zero only, so overflow at a step is overflow of the result.
\<close>

definition from_str_radix :: "int \<Rightarrow> int \<Rightarrow> nat \<Rightarrow> string \<Rightarrow> int option" where
  "from_str_radix lo hi radix s =
     (if s = [] \<or> s = ''+'' \<or> s = ''-'' then None
      else let signed_minus = (lo < 0 \<and> hd s = CHR ''-'');
               digits = (if hd s = CHR ''+'' \<or> signed_minus then tl s else s)
           in case parse_digits radix 0 digits of
                None \<Rightarrow> None
              | Some n \<Rightarrow>
                  let v = (if signed_minus then - int n else int n)
                  in if lo \<le> v \<and> v \<le> hi then Some v else None)"

lemma from_str_radix_range: "from_str_radix lo hi radix s = Some v \<Longrightarrow> lo \<le> v \<and> v \<le> hi"
  by (auto simp: from_str_radix_def Let_def split: if_splits option.splits)

lemma parse_digits_bad: "c \<in> set s \<Longrightarrow> digit_value r c = None \<Longrightarrow> parse_digits r acc s = None"
  by (induction s arbitrary: acc) (auto split: option.splits)

lemma from_str_radix_bad:
  assumes "c \<in> set s" "digit_value r c = None" "c \<noteq> CHR ''+''" "c \<noteq> CHR ''-''"
  shows "from_str_radix lo hi r s = None"
proof -
  have "parse_digits r 0 s = None" using assms(1,2) by (rule parse_digits_bad)
  moreover have "parse_digits r 0 (tl s) = None" if "hd s = CHR ''+'' \<or> hd s = CHR ''-''"
  proof (rule parse_digits_bad [OF _ assms(2)])
    show "c \<in> set (tl s)" using assms that by (cases s) auto
  qed
  ultimately show ?thesis by (auto simp: from_str_radix_def Let_def)
qed

abbreviation i64_from_str_radix :: "nat \<Rightarrow> string \<Rightarrow> int option" where
  "i64_from_str_radix \<equiv> from_str_radix (- (2 ^ 63)) (2 ^ 63 - 1)"

abbreviation i128_from_str_radix :: "nat \<Rightarrow> string \<Rightarrow> int option" where
  "i128_from_str_radix \<equiv> from_str_radix (- (2 ^ 127)) (2 ^ 127 - 1)"

abbreviation u128_from_str_radix :: "nat \<Rightarrow> string \<Rightarrow> int option" where
  "u128_from_str_radix \<equiv> from_str_radix 0 (2 ^ 128 - 1)"

abbreviation u8_from_str_radix :: "nat \<Rightarrow> string \<Rightarrow> int option" where
  "u8_from_str_radix \<equiv> from_str_radix 0 255"

section \<open>Plain text\<close>

text \<open>
  Printable ASCII without the comma that separates operands: such text is never trimmed, split or
  confused with white space.
\<close>

definition plain_char :: "char \<Rightarrow> bool" where
  "plain_char c \<longleftrightarrow> 32 < (of_char c :: nat) \<and> (of_char c :: nat) < 128 \<and> (of_char c :: nat) \<noteq> 44"

abbreviation plain :: "string \<Rightarrow> bool" where
  "plain s \<equiv> list_all plain_char s"

lemma leading_ws_plain [simp]: "plain_char c \<Longrightarrow> leading_ws (c # s) = None"
  by (auto simp: leading_ws_def is_ws_seq_def plain_char_def split: list.splits)

lemma leading_ws_Nil [simp]: "leading_ws [] = None"
  by (simp add: leading_ws_def)

lemma leading_ws_space [simp]: "leading_ws (CHR '' '' # s) = Some 1"
  by (simp add: leading_ws_def is_ws_seq_def)

lemma is_ws_seq_last: "32 < n \<Longrightarrow> n < 128 \<Longrightarrow> \<not> is_ws_seq (xs @ [n])"
  by (auto simp: is_ws_seq_def append_eq_Cons_conv split: list.splits)

lemma trailing_ws_plain [simp]:
  assumes "plain_char c"
  shows "trailing_ws (s @ [c]) = None"
proof -
  have "\<not> is_ws_seq (map of_char (drop (length (s @ [c]) - k) (s @ [c])))" if "0 < k" for k
    using assms that is_ws_seq_last [of "of_char c" "map of_char (drop (length s + 1 - k) s)"]
    by (simp add: plain_char_def)
  then show ?thesis by (simp add: trailing_ws_def del: length_append drop_append)
qed

lemma trim_end_plain [simp]: "plain s \<Longrightarrow> trim_end s = s"
proof (cases s rule: rev_cases)
  case Nil
  then show ?thesis by (simp add: trim_end.simps trailing_ws_def)
next
  case (snoc t c)
  then show "plain s \<Longrightarrow> trim_end s = s" by (simp add: trim_end.simps [of "t @ [c]"])
qed

lemma trim_plain [simp]: "plain s \<Longrightarrow> trim s = s"
  by (cases s) (simp_all add: trim_def trim_start.simps)

lemma trim_space [simp]: "trim (CHR '' '' # s) = trim s"
  by (simp add: trim_def trim_start.simps [of "CHR '' '' # s"])

lemma trim_outer:
  assumes "plain_char c" "plain_char d"
  shows "trim (c # s @ [d]) = c # s @ [d]"
proof -
  have "trailing_ws (c # s @ [d]) = None" using trailing_ws_plain [OF assms(2), of "c # s"] by simp
  then show ?thesis using assms by (simp add: trim_def trim_start.simps [of "c # s @ [d]"] trim_end.simps [of "c # s @ [d]"])
qed

lemma split_ws_plain [simp]: "plain a \<Longrightarrow> split_ws (a @ CHR '' '' # r) = (a, Some r)"
  by (induction a) auto

lemma split_ws_whole [simp]: "plain a \<Longrightarrow> split_ws a = (a, None)"
  by (induction a) auto

lemma split_char_field [simp]: "c \<notin> set a \<Longrightarrow> split_char c (a @ c # r) = a # split_char c r"
  by (induction a) auto

lemma split_char_whole [simp]: "c \<notin> set a \<Longrightarrow> split_char c a = [a]"
  by (induction a) auto

lemma plain_char_no_comma [simp]: "\<not> plain_char CHR '',''"
  by (simp add: plain_char_def)

lemma plain_no_comma [simp]: "plain a \<Longrightarrow> CHR '','' \<notin> set a"
  by (induction a) auto

lemma is_ws_seq_plain: "is_ws_seq ns \<Longrightarrow> n \<in> set ns \<Longrightarrow> n \<le> 32 \<or> 128 \<le> n"
  by (auto simp: is_ws_seq_def split: list.splits)

lemma leading_ws_keeps:
  assumes "leading_ws s = Some k" "c \<in> set s" "plain_char c"
  shows "c \<in> set (drop k s)"
proof -
  have "is_ws_seq (map of_char (take k s))"
    using assms(1) by (auto simp: leading_ws_def split: if_splits)
  then have "c \<notin> set (take k s)" using is_ws_seq_plain [of _ "of_char c"] assms(3) by (force simp: plain_char_def)
  then show ?thesis using assms(2) by (metis Un_iff append_take_drop_id set_append)
qed

lemma trailing_ws_keeps:
  assumes "trailing_ws s = Some k" "c \<in> set s" "plain_char c"
  shows "c \<in> set (take (length s - k) s)"
proof -
  have "is_ws_seq (map of_char (drop (length s - k) s))"
    using assms(1) by (auto simp: trailing_ws_def split: if_splits)
  then have "c \<notin> set (drop (length s - k) s)"
    using is_ws_seq_plain [of _ "of_char c"] assms(3) by (force simp: plain_char_def)
  then show ?thesis using assms(2) by (metis Un_iff append_take_drop_id set_append)
qed

lemma trim_start_keeps: "c \<in> set s \<Longrightarrow> plain_char c \<Longrightarrow> c \<in> set (trim_start s)"
  by (induction s rule: trim_start.induct)
    (subst trim_start.simps, auto dest: leading_ws_keeps split: option.split)

lemma trim_end_keeps: "c \<in> set s \<Longrightarrow> plain_char c \<Longrightarrow> c \<in> set (trim_end s)"
  by (induction s rule: trim_end.induct)
    (subst trim_end.simps, auto dest: trailing_ws_keeps split: option.split)

lemma trim_keeps: "c \<in> set s \<Longrightarrow> plain_char c \<Longrightarrow> c \<in> set (trim s)"
  by (simp add: trim_def trim_start_keeps trim_end_keeps)

lemma find_char_Some: "find_char c s = Some i \<Longrightarrow> i < length s \<and> s ! i = c"
  by (auto simp: find_char_def find_Some_iff)

lemma rfind_char_Some: "rfind_char c s = Some i \<Longrightarrow> i < length s \<and> s ! i = c"
  by (auto simp: rfind_char_def find_Some_iff rev_nth)

section \<open>Printing of integers\<close>

text \<open>The decimal text that \<^verbatim>\<open>format!\<close> produces for an integer.\<close>

fun show_nat :: "nat \<Rightarrow> string" where
  "show_nat n =
     (if n < 10 then [char_of (48 + n)] else show_nat (n div 10) @ [char_of (48 + n mod 10)])"

declare show_nat.simps [simp del]

definition show_int :: "int \<Rightarrow> string" where
  "show_int v = (if v < 0 then CHR ''-'' # show_nat (nat (- v)) else show_nat (nat v))"

lemma digit_char: "d < 10 \<Longrightarrow> of_char (char_of (48 + d)) = 48 + (d :: nat)"
  by (simp add: of_char_of)

lemma parse_digits_snoc:
  "parse_digits r acc (s @ [c]) =
     (case parse_digits r acc s of None \<Rightarrow> None
      | Some n \<Rightarrow> (case digit_value r c of None \<Rightarrow> None | Some d \<Rightarrow> Some (n * r + d)))"
  by (induction s arbitrary: acc) (auto split: option.splits)

lemma digit_value_decimal: "d < (10 :: nat) \<Longrightarrow> digit_value 10 (char_of (48 + d)) = Some d"
  by (simp add: digit_value_def digit_char)

lemma parse_show_nat: "parse_digits 10 0 (show_nat n) = Some n"
proof (induction n rule: show_nat.induct)
  case (1 n)
  then show ?case
    by (subst show_nat.simps) (auto simp: parse_digits_snoc digit_value_decimal)
qed

lemma show_nat_first: "\<exists>d s. d < (10 :: nat) \<and> show_nat n = char_of (48 + d) # s"
proof (induction n rule: show_nat.induct)
  case (1 n)
  then show ?case by (subst show_nat.simps) fastforce
qed

lemma plain_digit: "d < (10 :: nat) \<Longrightarrow> plain_char (char_of (48 + d))"
  by (simp add: plain_char_def digit_char)

lemma plain_show_nat [simp]: "plain (show_nat n)"
proof (induction n rule: show_nat.induct)
  case (1 n)
  then show ?case by (subst show_nat.simps) (auto simp: plain_digit)
qed

lemma plain_show_int [simp]: "plain (show_int v)"
  by (simp add: show_int_def plain_char_def)

lemma from_str_radix_show_int:
  assumes "lo \<le> v" "v \<le> hi"
  shows "from_str_radix lo hi 10 (show_int v) = Some v"
proof (cases "v < 0")
  case True
  obtain d t where "show_nat (nat (- v)) = char_of (48 + d :: nat) # t" using show_nat_first by blast
  with True assms show ?thesis
    using parse_show_nat [of "nat (- v)"] by (simp add: from_str_radix_def show_int_def)
next
  case False
  obtain d t where d: "d < 10" "show_nat (nat v) = char_of (48 + d :: nat) # t" using show_nat_first by blast
  have "char_of (48 + d) \<noteq> CHR ''+''" "char_of (48 + d) \<noteq> CHR ''-''"
    using d(1) by (auto dest!: arg_cong [of _ _ "of_char :: char \<Rightarrow> nat"])
  with False assms d show ?thesis
    using parse_show_nat [of "nat v"] by (simp add: from_str_radix_def show_int_def)
qed

declare
  str_bytes_def [eval_simps] is_cont_def [eval_simps] utf8_width_def [eval_simps]
  utf8_valid.simps [eval_simps] starts_with_def [eval_simps] ends_with_def [eval_simps]
  strip_prefix_def [eval_simps] strip_suffix_def [eval_simps] is_ws_seq_def [eval_simps]
  leading_ws_def [eval_simps] trailing_ws_def [eval_simps] trim_start.simps [eval_simps]
  trim_end.simps [eval_simps] trim_def [eval_simps] find_char_def [eval_simps]
  rfind_char_def [eval_simps] digit_value_def [eval_simps] from_str_radix_def [eval_simps]

end
