(* ===== verification/Asm_Parse.thy ===== *)
theory Asm_Parse
  imports Asm_Op Rust_Str
begin

text \<open>
  The line parser of the assembler: comments, operands, directives and instructions
  (\<^verbatim>\<open>strip_comment\<close>, \<^verbatim>\<open>parse_*\<close> of \<^verbatim>\<open>src/codegen/assembler.rs\<close>), with every error it
  reports. A line is a string of UTF-8 bytes. What parsing establishes is \<open>op_ok\<close>: register
  numbers below 32, immediates in the range of their Rust type, alignments that are powers of two.
\<close>

section \<open>Operands\<close>

definition parse_register :: "string \<Rightarrow> byte asm" where
  "parse_register name =
     (if name = ''zero'' \<or> name = ''x0'' then Ok 0
      else if name = ''ra'' \<or> name = ''x1'' then Ok 1
      else if name = ''sp'' \<or> name = ''x2'' then Ok 2
      else if name = ''gp'' \<or> name = ''x3'' then Ok 3
      else if name = ''tp'' \<or> name = ''x4'' then Ok 4
      else if name = ''t0'' \<or> name = ''x5'' then Ok 5
      else if name = ''t1'' \<or> name = ''x6'' then Ok 6
      else if name = ''t2'' \<or> name = ''x7'' then Ok 7
      else if name = ''s0'' \<or> name = ''fp'' \<or> name = ''x8'' then Ok 8
      else if name = ''s1'' \<or> name = ''x9'' then Ok 9
      else if name = ''a0'' \<or> name = ''x10'' then Ok 10
      else if name = ''a1'' \<or> name = ''x11'' then Ok 11
      else if name = ''a2'' \<or> name = ''x12'' then Ok 12
      else if name = ''a3'' \<or> name = ''x13'' then Ok 13
      else if name = ''a4'' \<or> name = ''x14'' then Ok 14
      else if name = ''a5'' \<or> name = ''x15'' then Ok 15
      else if name = ''a6'' \<or> name = ''x16'' then Ok 16
      else if name = ''a7'' \<or> name = ''x17'' then Ok 17
      else if name = ''s2'' \<or> name = ''x18'' then Ok 18
      else if name = ''s3'' \<or> name = ''x19'' then Ok 19
      else if name = ''s4'' \<or> name = ''x20'' then Ok 20
      else if name = ''s5'' \<or> name = ''x21'' then Ok 21
      else if name = ''s6'' \<or> name = ''x22'' then Ok 22
      else if name = ''s7'' \<or> name = ''x23'' then Ok 23
      else if name = ''s8'' \<or> name = ''x24'' then Ok 24
      else if name = ''s9'' \<or> name = ''x25'' then Ok 25
      else if name = ''s10'' \<or> name = ''x26'' then Ok 26
      else if name = ''s11'' \<or> name = ''x27'' then Ok 27
      else if name = ''t3'' \<or> name = ''x28'' then Ok 28
      else if name = ''t4'' \<or> name = ''x29'' then Ok 29
      else if name = ''t5'' \<or> name = ''x30'' then Ok 30
      else if name = ''t6'' \<or> name = ''x31'' then Ok 31
      else fail (UnknownRegister name))"

text \<open>
  A negated \<^verbatim>\<open>-0x\<close> immediate: the digits may carry a sign of their own, so the value to
  negate can be the least \<^verbatim>\<open>i64\<close>, whose negation overflows.
\<close>

definition parse_immediate :: "string \<Rightarrow> int asm" where
  "parse_immediate s =
     (case strip_prefix ''-0x'' s of
        Some hex \<Rightarrow>
          rbind (ok_or (new_error (InvalidImmediate s)) (i64_from_str_radix 16 hex)) (\<lambda>v.
            if v = - (2 ^ 63) then fail Panic else Ok (- v))
      | None \<Rightarrow>
          (case (case strip_prefix ''0x'' s of Some hex \<Rightarrow> Some hex | None \<Rightarrow> strip_prefix ''+0x'' s) of
             Some hex \<Rightarrow> ok_or (new_error (InvalidImmediate s)) (i64_from_str_radix 16 hex)
           | None \<Rightarrow> ok_or (new_error (InvalidImmediate s)) (i64_from_str_radix 10 s)))"

definition validate_li_immediate :: "int \<Rightarrow> string \<Rightarrow> int asm" where
  "validate_li_immediate parsed s =
     (if - (2 ^ 63) \<le> parsed \<and> parsed \<le> 2 ^ 64 - 1 then Ok parsed else fail (LiLiteralDomain s))"

definition parse_li_immediate :: "string \<Rightarrow> int asm" where
  "parse_li_immediate s =
     (case strip_prefix ''-0x'' s of
        Some hex \<Rightarrow>
          rbind (ok_or (new_error (InvalidImmediate s)) (i128_from_str_radix 16 hex)) (\<lambda>parsed.
            if parsed = - (2 ^ 127) then fail Panic else validate_li_immediate (- parsed) s)
      | None \<Rightarrow>
          (case (case strip_prefix ''0x'' s of Some hex \<Rightarrow> Some hex | None \<Rightarrow> strip_prefix ''+0x'' s) of
             Some hex \<Rightarrow>
               rbind (ok_or (new_error (InvalidImmediate s)) (u128_from_str_radix 16 hex)) (\<lambda>parsed.
                 if parsed \<le> 2 ^ 64 - 1 then Ok parsed else fail (LiLiteralDomain s))
           | None \<Rightarrow>
               if starts_with s ''-'' then
                 rbind (ok_or (new_error (InvalidImmediate s)) (i128_from_str_radix 10 s)) (\<lambda>parsed.
                   validate_li_immediate parsed s)
               else
                 rbind (ok_or (new_error (InvalidImmediate s)) (u128_from_str_radix 10 s)) (\<lambda>parsed.
                   if parsed \<le> 2 ^ 64 - 1 then Ok parsed else fail (LiLiteralDomain s))))"

text \<open>The slice between the parentheses panics when they are reversed.\<close>

definition parse_memory_operand :: "string \<Rightarrow> (int \<times> byte) asm" where
  "parse_memory_operand s =
     rbind (ok_or (new_error (InvalidMemoryOperand s)) (find_char CHR ''('' s)) (\<lambda>open_at.
     rbind (ok_or (new_error (InvalidMemoryOperand s)) (rfind_char CHR '')'' s)) (\<lambda>close_at.
     rbind (parse_immediate (trim (take open_at s))) (\<lambda>imm.
     if close_at < open_at + 1 then fail Panic
     else rbind (parse_register (trim (take (close_at - (open_at + 1)) (drop (open_at + 1) s)))) (\<lambda>rs1.
       Ok (imm, rs1)))))"

definition memory_operand_offset_and_base :: "string \<Rightarrow> (int \<times> string) option asm" where
  "memory_operand_offset_and_base s =
     (case find_char CHR ''('' s of
        None \<Rightarrow> Ok None
      | Some open_at \<Rightarrow>
          (case rfind_char CHR '')'' s of
             None \<Rightarrow> Ok None
           | Some close_at \<Rightarrow>
               (case parse_immediate (trim (take open_at s)) of
                  Inl e \<Rightarrow> if err_kind e = Panic then fail Panic else Ok None
                | Inr offset \<Rightarrow>
                    if close_at < open_at + 1 then fail Panic
                    else let base = trim (take (close_at - (open_at + 1)) (drop (open_at + 1) s))
                         in Ok (if base \<noteq> [] then Some (offset, base) else None))))"

definition scratch_candidates :: "string list" where
  "scratch_candidates = [''t6'', ''t5'', ''t3'', ''t2'', ''t1'', ''t0'']"

definition scratch_register_avoiding :: "string list \<Rightarrow> string option" where
  "scratch_register_avoiding registers =
     List.find (\<lambda>candidate. \<forall>register \<in> set registers.
        \<not> is_ok (parse_register register) \<or> parse_register register \<noteq> parse_register candidate)
       scratch_candidates"

section \<open>Comments and string literals\<close>

text \<open>
  The scan for a comment: the index of the first hash outside a string literal. The characters it
  looks for are ASCII, so scanning bytes and scanning characters find the same place.
\<close>

fun comment_start :: "bool \<Rightarrow> bool \<Rightarrow> nat \<Rightarrow> string \<Rightarrow> nat option" where
  "comment_start in_string escape idx [] = None"
| "comment_start in_string escape idx (ch # rest) =
     (if ch = CHR 0x22 \<and> \<not> escape then comment_start (\<not> in_string) False (Suc idx) rest
      else if ch = CHR ''#'' \<and> \<not> in_string then Some idx
      else if ch = CHR 0x5C \<and> in_string then comment_start in_string (\<not> escape) (Suc idx) rest
      else comment_start in_string False (Suc idx) rest)"

definition strip_comment :: "string \<Rightarrow> string option" where
  "strip_comment line =
     (case comment_start False False 0 line of
        Some idx \<Rightarrow> Some (trim (take idx line))
      | None \<Rightarrow> let trimmed = trim line in if trimmed \<noteq> [] then Some trimmed else None)"

text \<open>The next character of a string: its bytes and the rest.\<close>

definition next_char :: "string \<Rightarrow> (string \<times> string) option" where
  "next_char s =
     (if s = [] then None
      else let k = (case utf8_width (str_bytes s) of Some k \<Rightarrow> max 1 k | None \<Rightarrow> 1)
           in Some (take k s, drop k s))"

lemma next_char_shorter: "next_char s = Some (c, r) \<Longrightarrow> length r < length s"
  by (auto simp: next_char_def Let_def split: if_splits option.splits)

function ascii_body :: "string \<Rightarrow> byte list \<Rightarrow> byte list asm" where
  "ascii_body s out =
     (case next_char s of
        None \<Rightarrow> Ok out
      | Some (ch, rest) \<Rightarrow>
          if ch \<noteq> [CHR 0x5C] then ascii_body rest (out @ str_bytes ch)
          else (case next_char rest of
             None \<Rightarrow> fail UnterminatedEscape
           | Some (escaped, rest) \<Rightarrow>
               if escaped = ''n'' then ascii_body rest (out @ [10])
               else if escaped = ''r'' then ascii_body rest (out @ [13])
               else if escaped = ''t'' then ascii_body rest (out @ [9])
               else if escaped = [CHR 0x5C] then ascii_body rest (out @ [0x5c])
               else if escaped = [CHR 0x22] then ascii_body rest (out @ [0x22])
               else if escaped = ''x'' then
                 (case next_char rest of
                    None \<Rightarrow> fail IncompleteHexEscape
                  | Some (high, rest) \<Rightarrow>
                      (case next_char rest of
                         None \<Rightarrow> fail IncompleteHexEscape
                       | Some (low, rest) \<Rightarrow>
                           (case u8_from_str_radix 16 (high @ low) of
                              None \<Rightarrow> fail (InvalidHexEscape (high @ low))
                            | Some b \<Rightarrow> ascii_body rest (out @ [word_of_int b]))))
               else fail (UnsupportedEscape escaped)))"
  by pat_completeness auto
termination
  by (relation "measure (\<lambda>(s, out). length s)") (auto dest!: next_char_shorter)

declare ascii_body.simps [simp del]

definition parse_ascii_literal :: "string \<Rightarrow> byte list asm" where
  "parse_ascii_literal s =
     (case Option.bind (strip_prefix [CHR 0x22] s) (strip_suffix [CHR 0x22]) of
        None \<Rightarrow> fail (InvalidAscii s)
      | Some inner \<Rightarrow> ascii_body inner [])"

section \<open>Lines\<close>

definition parse_section_directive :: "string \<Rightarrow> section_kind option asm" where
  "parse_section_directive line =
     (case strip_prefix ''.section '' line of
        Some sec \<Rightarrow>
          if trim sec = ''.text'' then Ok (Some Text)
          else if trim sec = ''.rodata'' then Ok (Some Rodata)
          else fail (UnsupportedSection (trim sec))
      | None \<Rightarrow> Ok None)"

definition arg :: "string list \<Rightarrow> nat \<Rightarrow> string asm" where
  "arg args index = (if index < length args then Ok (args ! index) else fail MalformedInstruction)"

definition reg_arg :: "string list \<Rightarrow> nat \<Rightarrow> byte asm" where
  "reg_arg args index = rbind (arg args index) parse_register"

text \<open>The operand shapes that several mnemonics share.\<close>

definition parse_rrr :: "(byte \<Rightarrow> byte \<Rightarrow> byte \<Rightarrow> instruction) \<Rightarrow> string list \<Rightarrow> instruction asm" where
  "parse_rrr con args =
     rbind (reg_arg args 0) (\<lambda>rd. rbind (reg_arg args 1) (\<lambda>rs1. rbind (reg_arg args 2) (\<lambda>rs2.
       Ok (con rd rs1 rs2))))"

definition parse_rri :: "(byte \<Rightarrow> byte \<Rightarrow> int \<Rightarrow> instruction) \<Rightarrow> string list \<Rightarrow> instruction asm" where
  "parse_rri con args =
     rbind (reg_arg args 0) (\<lambda>rd. rbind (reg_arg args 1) (\<lambda>rs1.
     rbind (rbind (arg args 2) parse_immediate) (\<lambda>imm. Ok (con rd rs1 imm))))"

definition parse_rr :: "(byte \<Rightarrow> byte \<Rightarrow> instruction) \<Rightarrow> string list \<Rightarrow> instruction asm" where
  "parse_rr con args =
     rbind (reg_arg args 0) (\<lambda>rd. rbind (reg_arg args 1) (\<lambda>rs. Ok (con rd rs)))"

definition parse_mem :: "(byte \<Rightarrow> byte \<Rightarrow> int \<Rightarrow> instruction) \<Rightarrow> string list \<Rightarrow> instruction asm" where
  "parse_mem con args =
     rbind (rbind (arg args 1) parse_memory_operand) (\<lambda>(imm, rs1).
     rbind (reg_arg args 0) (\<lambda>r. Ok (con r rs1 imm)))"

definition parse_rrl :: "(byte \<Rightarrow> byte \<Rightarrow> string \<Rightarrow> instruction) \<Rightarrow> string list \<Rightarrow> instruction asm" where
  "parse_rrl con args =
     rbind (reg_arg args 0) (\<lambda>rs1. rbind (reg_arg args 1) (\<lambda>rs2. rbind (arg args 2) (\<lambda>label.
       Ok (con rs1 rs2 label))))"

definition parse_rl :: "(byte \<Rightarrow> string \<Rightarrow> instruction) \<Rightarrow> string list \<Rightarrow> instruction asm" where
  "parse_rl con args =
     rbind (reg_arg args 0) (\<lambda>rs. rbind (arg args 1) (\<lambda>label. Ok (con rs label)))"

definition split_args :: "string \<Rightarrow> string list" where
  "split_args args = (if args = [] then [] else map trim (split_char CHR '','' args))"

definition parse_mnemonic :: "string \<Rightarrow> string list \<Rightarrow> instruction asm" where
  "parse_mnemonic opcode args =
     (if opcode = ''addi'' then parse_rri IAddi args
      else if opcode = ''add'' then parse_rrr IAdd args
      else if opcode = ''sub'' then parse_rrr ISub args
      else if opcode = ''and'' then parse_rrr IAnd args
      else if opcode = ''andi'' then parse_rri IAndi args
      else if opcode = ''or'' then parse_rrr IOr args
      else if opcode = ''xor'' then parse_rrr IXor args
      else if opcode = ''mul'' then parse_rrr IMul args
      else if opcode = ''mulhu'' then parse_rrr IMulhu args
      else if opcode = ''div'' then parse_rrr IDiv args
      else if opcode = ''divu'' then parse_rrr IDivu args
      else if opcode = ''rem'' then parse_rrr IRem args
      else if opcode = ''remu'' then parse_rrr IRemu args
      else if opcode = ''slt'' then parse_rrr ISlt args
      else if opcode = ''sltu'' then parse_rrr ISltu args
      else if opcode = ''sgt'' then parse_rrr ISgt args
      else if opcode = ''xori'' then parse_rri IXori args
      else if opcode = ''seqz'' then parse_rr ISeqz args
      else if opcode = ''snez'' then parse_rr ISnez args
      else if opcode = ''neg'' then parse_rr INeg args
      else if opcode = ''ld'' then parse_mem ILd args
      else if opcode = ''lbu'' then parse_mem ILbu args
      else if opcode = ''sb'' then parse_mem ISb args
      else if opcode = ''sh'' then parse_mem ISh args
      else if opcode = ''sw'' then parse_mem ISw args
      else if opcode = ''sd'' then parse_mem ISd args
      else if opcode = ''slli'' then parse_rri ISlli args
      else if opcode = ''srai'' then parse_rri ISrai args
      else if opcode = ''srli'' then parse_rri ISrli args
      else if opcode = ''rori'' then parse_rri IRori args
      else if opcode = ''roriw'' then parse_rri IRoriw args
      else if opcode = ''sll'' then parse_rrr ISll args
      else if opcode = ''srl'' then parse_rrr ISrl args
      else if opcode = ''sra'' then parse_rrr ISra args
      else if opcode = ''li'' then rbind (reg_arg args 0) (\<lambda>rd. rbind (rbind (arg args 1) parse_li_immediate) (\<lambda>imm. Ok (ILi rd imm)))
      else if opcode = ''mv'' then rbind (reg_arg args 0) (\<lambda>rd. rbind (reg_arg args 1) (\<lambda>rs1. Ok (IAddi rd rs1 0)))
      else if opcode = ''la'' then rbind (reg_arg args 0) (\<lambda>rd. rbind (arg args 1) (\<lambda>label. Ok (ILa rd label)))
      else if opcode = ''call'' then rbind (arg args 0) (\<lambda>label. Ok (ICall label))
      else if opcode = ''j'' then rbind (arg args 0) (\<lambda>label. Ok (IJump label))
      else if opcode = ''bgt'' then rbind (reg_arg args 1) (\<lambda>rs1. rbind (reg_arg args 0) (\<lambda>rs2.
          rbind (arg args 2) (\<lambda>label. Ok (IBlt rs1 rs2 label))))
      else if opcode = ''bgez'' then rbind (reg_arg args 0) (\<lambda>rs1. rbind (arg args 1) (\<lambda>label. Ok (IBge rs1 0 label)))
      else if opcode = ''beq'' then parse_rrl IBeq args
      else if opcode = ''bne'' then parse_rrl IBne args
      else if opcode = ''blt'' then parse_rrl IBlt args
      else if opcode = ''bge'' then parse_rrl IBge args
      else if opcode = ''bltu'' then parse_rrl IBltu args
      else if opcode = ''bgeu'' then parse_rrl IBgeu args
      else if opcode = ''beqz'' then parse_rl IBeqz args
      else if opcode = ''bnez'' then parse_rl IBnez args
      else if opcode = ''ret'' then Ok IRet
      else if opcode = ''ecall'' then Ok IEcall
      else fail (UnsupportedInstruction opcode))"

definition parse_instruction :: "string \<Rightarrow> instruction asm" where
  "parse_instruction line =
     parse_mnemonic (trim (fst (split_ws line)))
       (split_args (trim (case snd (split_ws line) of None \<Rightarrow> [] | Some rest \<Rightarrow> rest)))"

definition parse_asm_op :: "string \<Rightarrow> asm_op asm" where
  "parse_asm_op line =
     (case strip_prefix ''.word '' line of
        Some v \<Rightarrow> rbind (parse_immediate (trim v)) (\<lambda>v.
          if 0 \<le> v \<and> v < 2 ^ 32 then Ok (OpWord (word_of_int v)) else fail (WordRange v))
      | None \<Rightarrow>
     (case strip_prefix ''.byte '' line of
        Some v \<Rightarrow> rbind (parse_immediate (trim v)) (\<lambda>v.
          if 0 \<le> v \<and> v < 2 ^ 8 then Ok (OpByte (word_of_int v)) else fail (ByteRange v))
      | None \<Rightarrow>
     (case strip_prefix ''.ascii '' line of
        Some v \<Rightarrow> rbind (parse_ascii_literal (trim v)) (\<lambda>bytes. Ok (OpAscii bytes))
      | None \<Rightarrow>
     (case strip_prefix ''.align '' line of
        Some v \<Rightarrow> rbind (parse_immediate (trim v)) (\<lambda>align_pow.
          if \<not> (0 \<le> align_pow \<and> align_pow \<le> 16) then fail (UnsupportedAlign align_pow)
          else Ok (OpAlign (2 ^ nat align_pow)))
      | None \<Rightarrow> rbind (parse_instruction line) (\<lambda>inst. Ok (OpInstruction inst))))))"

section \<open>What parsing establishes\<close>

definition imm_ok :: "instruction \<Rightarrow> bool" where
  "imm_ok inst \<longleftrightarrow>
     (case inst of
        IAddi rd rs1 imm \<Rightarrow> in_i64 imm
      | IAndi rd rs1 imm \<Rightarrow> in_i64 imm
      | IXori rd rs1 imm \<Rightarrow> in_i64 imm
      | ILd rd rs1 imm \<Rightarrow> in_i64 imm
      | ILbu rd rs1 imm \<Rightarrow> in_i64 imm
      | ISb rs2 rs1 imm \<Rightarrow> in_i64 imm
      | ISh rs2 rs1 imm \<Rightarrow> in_i64 imm
      | ISw rs2 rs1 imm \<Rightarrow> in_i64 imm
      | ISd rs2 rs1 imm \<Rightarrow> in_i64 imm
      | ISlli rd rs1 shamt \<Rightarrow> in_i64 shamt
      | ISrai rd rs1 shamt \<Rightarrow> in_i64 shamt
      | ISrli rd rs1 shamt \<Rightarrow> in_i64 shamt
      | IRori rd rs1 shamt \<Rightarrow> in_i64 shamt
      | IRoriw rd rs1 shamt \<Rightarrow> in_i64 shamt
      | ILi rd imm \<Rightarrow> - (2 ^ 63) \<le> imm \<and> imm < 2 ^ 64
      | _ \<Rightarrow> True)"

definition op_ok :: "asm_op \<Rightarrow> bool" where
  "op_ok op \<longleftrightarrow>
     (case op of
        OpInstruction inst \<Rightarrow> regs_ok inst \<and> imm_ok inst
      | OpAlign n \<Rightarrow> \<exists>k \<le> 16. n = 2 ^ k
      | _ \<Rightarrow> True)"

lemma parse_register_ok: "all_ok (\<lambda>r. r < 32) (parse_register name)"
  by (simp add: parse_register_def all_ok_def)

lemma reg_arg_ok: "all_ok (\<lambda>r. r < 32) (reg_arg args i)"
  unfolding reg_arg_def by (rule all_ok_rbind [OF all_ok_True parse_register_ok])

lemma parse_immediate_ok: "all_ok in_i64 (parse_immediate s)"
  by (auto simp: all_ok_def parse_immediate_def in_i64_def dest!: from_str_radix_range
      split: option.splits if_splits)

lemma parse_li_immediate_ok: "all_ok (\<lambda>v. - (2 ^ 63) \<le> v \<and> v < 2 ^ 64) (parse_li_immediate s)"
  by (auto simp: all_ok_def parse_li_immediate_def validate_li_immediate_def dest!: from_str_radix_range
      split: option.splits if_splits)

lemma parse_memory_operand_ok: "all_ok (\<lambda>(imm, r). in_i64 imm \<and> r < 32) (parse_memory_operand s)"
  by (auto simp: all_ok_def parse_memory_operand_def dest: all_okD [OF parse_immediate_ok]
      all_okD [OF parse_register_ok] split: if_splits)

lemma parse_rrr_ok: "(\<And>a b c. a < 32 \<Longrightarrow> b < 32 \<Longrightarrow> c < 32 \<Longrightarrow> P (con a b c)) \<Longrightarrow> all_ok P (parse_rrr con args)"
  unfolding parse_rrr_def by (intro all_ok_rbind [OF reg_arg_ok] all_ok_Inr) simp

lemma parse_rri_ok: "(\<And>a b i. a < 32 \<Longrightarrow> b < 32 \<Longrightarrow> in_i64 i \<Longrightarrow> P (con a b i)) \<Longrightarrow> all_ok P (parse_rri con args)"
  unfolding parse_rri_def
  by (intro all_ok_rbind [OF reg_arg_ok] all_ok_rbind [OF all_ok_rbind [OF all_ok_True parse_immediate_ok]] all_ok_Inr) simp

lemma parse_rr_ok: "(\<And>a b. a < 32 \<Longrightarrow> b < 32 \<Longrightarrow> P (con a b)) \<Longrightarrow> all_ok P (parse_rr con args)"
  unfolding parse_rr_def by (intro all_ok_rbind [OF reg_arg_ok] all_ok_Inr) simp

lemma parse_mem_ok: "(\<And>a b i. a < 32 \<Longrightarrow> b < 32 \<Longrightarrow> in_i64 i \<Longrightarrow> P (con a b i)) \<Longrightarrow> all_ok P (parse_mem con args)"
  unfolding parse_mem_def
  by (rule all_ok_rbind [OF all_ok_rbind [OF all_ok_True parse_memory_operand_ok]])
    (auto intro!: all_ok_rbind [OF reg_arg_ok] all_ok_Inr)

lemma parse_rrl_ok: "(\<And>a b l. a < 32 \<Longrightarrow> b < 32 \<Longrightarrow> P (con a b l)) \<Longrightarrow> all_ok P (parse_rrl con args)"
  unfolding parse_rrl_def by (intro all_ok_rbind [OF reg_arg_ok] all_ok_rbind [OF all_ok_True] all_ok_Inr) simp

lemma parse_rl_ok: "(\<And>a l. a < 32 \<Longrightarrow> P (con a l)) \<Longrightarrow> all_ok P (parse_rl con args)"
  unfolding parse_rl_def by (intro all_ok_rbind [OF reg_arg_ok] all_ok_rbind [OF all_ok_True] all_ok_Inr) simp

lemmas parse_shapes_ok =
  parse_rrr_ok parse_rri_ok parse_rr_ok parse_mem_ok parse_rrl_ok parse_rl_ok

lemma parse_mnemonic_ok: "all_ok (\<lambda>inst. regs_ok inst \<and> imm_ok inst) (parse_mnemonic opcode args)"
  unfolding parse_mnemonic_def
  by (intro all_ok_if all_ok_Inl parse_shapes_ok all_ok_rbind [OF reg_arg_ok] all_ok_rbind [OF all_ok_True]
      all_ok_rbind [OF all_ok_rbind [OF all_ok_True parse_li_immediate_ok]] all_ok_Inr)
    (simp_all add: imm_ok_def in_i64_def)

lemma parse_instruction_ok: "parse_instruction line = Inr inst \<Longrightarrow> regs_ok inst \<and> imm_ok inst"
  by (auto simp: parse_instruction_def dest: all_okD [OF parse_mnemonic_ok])

lemma parse_asm_op_ok: "all_ok op_ok (parse_asm_op line)"
proof -
  have any: "all_ok (\<lambda>_. True) (parse_ascii_literal v)" for v by (rule all_ok_True)
  have inst: "all_ok (\<lambda>inst. regs_ok inst \<and> imm_ok inst) (parse_instruction line)"
    by (simp add: all_ok_def parse_instruction_ok)
  show ?thesis
    unfolding parse_asm_op_def
    by (intro all_ok_option all_ok_rbind [OF parse_immediate_ok] all_ok_rbind [OF any]
        all_ok_rbind [OF inst] all_ok_if all_ok_Inl all_ok_Inr) (simp_all add: op_ok_def nat_le_iff)
qed

section \<open>Errors of the parser carry no location\<close>

abbreviation unlocated :: "'a asm \<Rightarrow> bool" where
  "unlocated \<equiv> all_err (\<lambda>e. err_asm e = None)"

lemma err_asm_new_error [simp]: "err_asm (new_error k) = None"
  by (simp add: new_error_def)

lemma unlocated_register [err_intros]: "unlocated (parse_register name)"
  unfolding parse_register_def by (intro err_intros) simp

lemma unlocated_immediate [err_intros]: "unlocated (parse_immediate s)"
  unfolding parse_immediate_def by (intro err_intros) simp_all

lemma unlocated_li_immediate [err_intros]: "unlocated (parse_li_immediate s)"
  unfolding parse_li_immediate_def validate_li_immediate_def by (intro err_intros) simp_all

lemma unlocated_memory_operand [err_intros]: "unlocated (parse_memory_operand s)"
  unfolding parse_memory_operand_def by (intro err_intros) simp_all

lemma unlocated_arg [err_intros]: "unlocated (arg args i)"
  unfolding arg_def by (intro err_intros) simp

lemma unlocated_reg_arg [err_intros]: "unlocated (reg_arg args i)"
  unfolding reg_arg_def by (intro err_intros)

lemma unlocated_ascii_body: "unlocated (ascii_body s out)"
proof (induction s out rule: ascii_body.induct)
  case (1 s out)
  show ?case by (subst ascii_body.simps) (intro err_intros, auto intro: 1)
qed

lemma unlocated_mnemonic: "unlocated (parse_mnemonic opcode args)"
  unfolding parse_mnemonic_def parse_rrr_def parse_rri_def parse_rr_def parse_mem_def parse_rrl_def parse_rl_def
  by (intro err_intros) simp

lemma unlocated_asm_op: "unlocated (parse_asm_op line)"
  unfolding parse_asm_op_def parse_ascii_literal_def parse_instruction_def
  by (intro err_intros unlocated_ascii_body unlocated_mnemonic) simp_all

lemma unlocated_section_directive: "unlocated (parse_section_directive line)"
  unfolding parse_section_directive_def by (intro err_intros) simp

section \<open>Printed immediates parse back\<close>

lemma show_nat_digits: "set (show_nat n) \<subseteq> (\<lambda>d. char_of (48 + d :: nat)) ` {..<10}"
proof (induction n rule: show_nat.induct)
  case (1 n)
  then show ?case by (subst show_nat.simps) auto
qed

lemma digit_not_x: "d < (10 :: nat) \<Longrightarrow> char_of (48 + d) \<noteq> CHR ''x''"
  by (auto dest!: arg_cong [of _ _ "of_char :: char \<Rightarrow> nat"])

lemma show_int_no_x: "CHR ''x'' \<notin> set (show_int v)"
  using show_nat_digits [of "nat v"] show_nat_digits [of "nat (- v)"]
  by (auto simp: show_int_def dest!: digit_not_x dest: sym)

lemma show_int_no_hex [simp]:
  "CHR ''x'' \<in> set p \<Longrightarrow> strip_prefix p (show_int v) = None"
  using show_int_no_x [of v] by (cases "strip_prefix p (show_int v)") (auto simp: strip_prefix_Some)

lemma show_int_minus [simp]: "starts_with (show_int v) ''-'' \<longleftrightarrow> v < 0"
proof -
  obtain d t where d: "d < 10" "show_nat (nat v) = char_of (48 + d :: nat) # t" using show_nat_first by blast
  then have "char_of (48 + d) \<noteq> CHR ''-''" by (auto dest!: arg_cong [of _ _ "of_char :: char \<Rightarrow> nat"])
  with d show ?thesis by (simp add: starts_with_def show_int_def)
qed

lemma parse_immediate_show [simp]: "in_i64 v \<Longrightarrow> parse_immediate (show_int v) = Inr v"
  by (simp add: parse_immediate_def from_str_radix_show_int in_i64_def)

lemma parse_li_immediate_show [simp]:
  "- (2 ^ 63) \<le> v \<Longrightarrow> v < 2 ^ 64 \<Longrightarrow> parse_li_immediate (show_int v) = Inr v"
  by (simp add: parse_li_immediate_def from_str_radix_show_int validate_li_immediate_def)

lemma parse_register_candidates:
  "map parse_register scratch_candidates = map Inr [31, 30, 28, 7, 6, 5]"
  by (simp add: parse_register_def scratch_candidates_def)

lemma scratch_register_exists:
  assumes "length registers \<le> 5"
  shows "scratch_register_avoiding registers \<noteq> None"
proof
  assume "scratch_register_avoiding registers = None"
  then have "\<forall>c \<in> set scratch_candidates. parse_register c \<in> parse_register ` set registers"
    unfolding scratch_register_avoiding_def find_None_iff by (metis imageI)
  then have sub: "set (map parse_register scratch_candidates) \<subseteq> parse_register ` set registers" by auto
  have "card (set (map parse_register scratch_candidates)) = 6"
    unfolding parse_register_candidates by simp
  with card_mono [OF _ sub] have "6 \<le> card (parse_register ` set registers)" by simp
  also have "\<dots> \<le> length registers" using card_image_le card_length le_trans by blast
  finally show False using assms by simp
qed

section \<open>Memory operands\<close>

lemma parse_immediate_paren:
  assumes "CHR '')'' \<in> set s"
  shows "parse_immediate s = fail (InvalidImmediate s)"
proof -
  have bad: "from_str_radix lo hi r t = None" if "CHR '')'' \<in> set t" "r = 10 \<or> r = 16" for lo hi r t
    using that by (intro from_str_radix_bad [of "CHR '')''"]) (auto simp: digit_value_def)
  have "CHR '')'' \<in> set t" if "s = p @ t" "p \<in> {''-0x'', ''0x'', ''+0x''}" for p t
    using assms that by auto
  then show ?thesis
    by (auto simp: parse_immediate_def strip_prefix_Some bad assms split: option.split)
qed

text \<open>
  The slice between the parentheses is never reversed: a closing parenthesis before the opening one
  is part of the offset, which then fails to parse.
\<close>

lemma parse_memory_operand_error:
  assumes "parse_memory_operand s = Inl e"
  shows "e = new_error (InvalidMemoryOperand s) \<or> (\<exists>t. parse_immediate t = Inl e) \<or> (\<exists>t. parse_register t = Inl e)"
proof (rule ccontr)
  assume no: "\<not> ?thesis"
  from assms no obtain i j imm where ij: "find_char CHR ''('' s = Some i" "rfind_char CHR '')'' s = Some j"
    and imm: "parse_immediate (trim (take i s)) = Inr imm" and "j < i + 1"
    by (auto simp: parse_memory_operand_def rbind_Err_iff ok_or_def split: if_splits option.splits)
  with find_char_Some [OF ij(1)] rfind_char_Some [OF ij(2)] have "j < i" by (cases "j = i") auto
  with rfind_char_Some [OF ij(2)] have "CHR '')'' \<in> set (take i s)"
    by (auto simp: in_set_conv_nth intro!: exI [of _ j])
  then have "CHR '')'' \<in> set (trim (take i s))" by (rule trim_keeps) (simp add: plain_char_def)
  with imm show False by (simp add: parse_immediate_paren)
qed

declare
  parse_register_def [eval_simps] parse_immediate_def [eval_simps] validate_li_immediate_def [eval_simps]
  parse_li_immediate_def [eval_simps] parse_memory_operand_def [eval_simps] strip_comment_def [eval_simps]
  next_char_def [eval_simps] ascii_body.simps [eval_simps] parse_ascii_literal_def [eval_simps]
  parse_section_directive_def [eval_simps] arg_def [eval_simps] reg_arg_def [eval_simps]
  parse_rrr_def [eval_simps] parse_rri_def [eval_simps] parse_rr_def [eval_simps] parse_mem_def [eval_simps]
  parse_rrl_def [eval_simps] parse_rl_def [eval_simps] split_args_def [eval_simps]
  parse_mnemonic_def [eval_simps] parse_instruction_def [eval_simps] parse_asm_op_def [eval_simps]

section \<open>Properties\<close>

text \<open>
  C26: A line that parses yields a well-formed operation: every register number is below 32, every
  immediate lies in the range of its Rust type, an \<^verbatim>\<open>li\<close> literal lies in the 64-bit domain and an
  alignment is a power of two up to 65536. In particular an \<^verbatim>\<open>li\<close> that parses can be encoded.
\<close>
theorem parse_asm_op_well_formed:
  assumes "parse_asm_op line = Inr op"
  shows "op_ok op \<and> (\<forall>rd imm. op = OpInstruction (ILi rd imm) \<longrightarrow> (\<exists>n. li_sequence_size imm = Inr n))"
proof -
  have "op_ok op" using all_okD [OF parse_asm_op_ok assms] .
  moreover have "\<exists>n. li_sequence_size imm = Inr n" if "op = OpInstruction (ILi rd imm)" for rd imm
  proof -
    have "- (2 ^ 63) \<le> imm" "imm \<le> 2 ^ 64 - 1"
      using \<open>op_ok op\<close> that by (auto simp: op_ok_def imm_ok_def)
    then obtain ss where "plan imm = Inr ss" using plan_Ok by metis
    then show ?thesis by (simp add: li_sequence_size_def)
  qed
  ultimately show ?thesis by blast
qed

theorem parse_asm_op_well_formed_witness:
  "op_ok (OpInstruction (ILi 10 (- 16))) \<and> (\<exists>n. li_sequence_size (- 16) = Inr n)"
proof -
  have "parse_asm_op ''li a0, -0x10'' = Inr (OpInstruction (ILi 10 (- 16)))" by (simp add: eval_simps)
  from parse_asm_op_well_formed [OF this] show ?thesis by simp
qed

text \<open>
  C39: The decimal text the code generator prints for an immediate parses back to the same value, for
  every \<^verbatim>\<open>i64\<close> operand and for every \<^verbatim>\<open>li\<close> literal of the 64-bit domain.
\<close>
theorem immediate_roundtrip:
  "(in_i64 v \<longrightarrow> parse_immediate (show_int v) = Inr v)
   \<and> (- (2 ^ 63) \<le> v \<and> v < 2 ^ 64 \<longrightarrow> parse_li_immediate (show_int v) = Inr v)"
  by simp

theorem immediate_roundtrip_witness:
  "parse_immediate (show_int (- 2048)) = Inr (- 2048) \<and> parse_li_immediate (show_int (2 ^ 63)) = Inr (2 ^ 63)"
  using immediate_roundtrip [of "- 2048"] immediate_roundtrip [of "2 ^ 63"] by (simp add: in_i64_def)

text \<open>
  C27: A scratch register is never one of the registers to avoid, under any of their names, and never
  a register the calling convention reserves; with at most five registers to avoid one is always found.
\<close>
theorem scratch_register_disjoint:
  "(\<forall>r. scratch_register_avoiding registers = Some r \<longrightarrow>
      (\<exists>i. parse_register r = Inr i \<and> i \<in> {5, 6, 7, 28, 30, 31}
         \<and> (\<forall>x \<in> set registers. parse_register x \<noteq> Inr i)))
   \<and> (length registers \<le> 5 \<longrightarrow> scratch_register_avoiding registers \<noteq> None)"
proof -
  have "\<exists>i. parse_register r = Inr i \<and> i \<in> {5, 6, 7, 28, 30, 31}
      \<and> (\<forall>x \<in> set registers. parse_register x \<noteq> Inr i)"
    if found: "scratch_register_avoiding registers = Some r" for r
  proof -
    from found have r: "r \<in> set scratch_candidates"
      and free: "\<forall>x \<in> set registers. \<not> is_ok (parse_register x) \<or> parse_register x \<noteq> parse_register r"
      by (auto simp: scratch_register_avoiding_def find_Some_iff)
    from r obtain i where "parse_register r = Inr i" "i \<in> {5, 6, 7, 28, 30, 31}"
      by (auto simp: scratch_candidates_def parse_register_def)
    with free show ?thesis by force
  qed
  then show ?thesis using scratch_register_exists by blast
qed

theorem scratch_register_disjoint_witness:
  "scratch_register_avoiding [''x31'', ''t5''] = Some ''t3'' \<and> parse_register ''x31'' \<noteq> parse_register ''t3''"
  using scratch_register_disjoint [of "[''x31'', ''t5'']"]
  by (simp add: scratch_register_avoiding_def scratch_candidates_def parse_register_def)

lemma parse_immediate_overflow: "parse_asm_op ''.word -0x-8000000000000000'' = fail Panic"
  by (simp add: eval_simps cong: rbind_weak_cong)

end
