(* ===== verification/Asm_Layout.thy ===== *)
theory Asm_Layout
  imports Asm_Parse
begin

text \<open>
  The two-pass assembler (\<^verbatim>\<open>ParsedAssembly\<close> of \<^verbatim>\<open>src/codegen/assembler.rs\<close>): reading lines into
  sections with a symbol table, choosing the branches to relax, and encoding a section. The lemmas
  relate the two passes: the sizes the first pass adds up are the lengths the second one emits, so
  every symbol offset is the position of the byte it labels, and a branch that was not relaxed is in
  reach when it is encoded.
\<close>

section \<open>Reading lines\<close>

text \<open>
  The loop variables of \<^verbatim>\<open>from_lines_with_branch_mode\<close>. The source keeps one variable per section
  and selects it with a \<^verbatim>\<open>match\<close> on the current section; here the selection is an argument.
\<close>

record reader =
  rd_section :: section_kind
  rd_size :: "section_kind \<Rightarrow> nat"
  rd_ops :: "section_kind \<Rightarrow> located_op list"
  rd_symbols :: "(string \<times> symbol_def) list"
  rd_globals :: "string set"
  rd_entry :: "string option"
  rd_fallback :: "string option"

definition initial_reader :: reader where
  "initial_reader = \<lparr>rd_section = Text, rd_size = (\<lambda>_. 0), rd_ops = (\<lambda>_. []), rd_symbols = [],
     rd_globals = {}, rd_entry = None, rd_fallback = None\<rparr>"

definition provenance_at :: "reader \<Rightarrow> nat \<Rightarrow> string \<Rightarrow> provenance" where
  "provenance_at st line_number clean =
     \<lparr>prov_line = line_number, prov_text = clean, prov_section = rd_section st,
      prov_op_index = length (rd_ops st (rd_section st))\<rparr>"

definition push_op :: "located_op \<Rightarrow> nat \<Rightarrow> reader \<Rightarrow> reader" where
  "push_op op bytes st =
     st\<lparr>rd_ops := (rd_ops st)(rd_section st := rd_ops st (rd_section st) @ [op]),
        rd_size := (rd_size st)(rd_section st := rd_size st (rd_section st) + bytes)\<rparr>"

definition add_label :: "nat \<Rightarrow> string \<Rightarrow> string \<Rightarrow> reader \<Rightarrow> reader" where
  "add_label line_number clean label st =
     (let symbol = \<lparr>sym_section = rd_section st, sym_offset = rd_size st (rd_section st), sym_line = line_number\<rparr>;
          exported = (rd_section st = Text \<and> label \<in> rd_globals st)
      in push_op \<lparr>the_op = OpLabel label, op_prov = provenance_at st line_number clean\<rparr> 0
           (st\<lparr>rd_symbols := (label, symbol) # rd_symbols st,
               rd_fallback := (if exported \<and> rd_fallback st = None then Some label else rd_fallback st),
               rd_entry := (if exported \<and> \<not> starts_with label ''__'' \<and> rd_entry st = None
                            then Some label else rd_entry st)\<rparr>))"

definition define_label :: "nat \<Rightarrow> string \<Rightarrow> string \<Rightarrow> reader \<Rightarrow> reader asm" where
  "define_label line_number clean label st =
     (case map_of (rd_symbols st) label of
        Some previous \<Rightarrow>
          Err (attach (provenance_at st line_number clean) (new_error (DuplicateLabel label (sym_line previous))))
      | None \<Rightarrow> Ok (add_label line_number clean label st))"

definition read_op :: "branch_size_mode \<Rightarrow> nat \<Rightarrow> string \<Rightarrow> reader \<Rightarrow> reader asm" where
  "read_op mode line_number clean st =
     (let prov = provenance_at st line_number clean; sec = rd_section st
      in rbind (map_err (attach prov) (parse_asm_op clean)) (\<lambda>op.
         rbind (map_err (attach prov)
             (op_size op (rd_size st sec) sec (length (rd_ops st sec)) mode)) (\<lambda>size.
         Ok (push_op \<lparr>the_op = op, op_prov = prov\<rparr> size st))))"

definition read_clean :: "branch_size_mode \<Rightarrow> nat \<Rightarrow> string \<Rightarrow> reader \<Rightarrow> reader asm" where
  "read_clean mode line_number clean st =
     rbind (map_err (attach (provenance_at st line_number clean)) (parse_section_directive clean)) (\<lambda>d.
       case d of
         Some sec \<Rightarrow> Ok (st\<lparr>rd_section := sec\<rparr>)
       | None \<Rightarrow>
           if starts_with clean ''.option '' \<or> starts_with clean ''.type '' then Ok st
           else case strip_prefix ''.global '' clean of
             Some symbol \<Rightarrow> Ok (st\<lparr>rd_globals := insert (trim symbol) (rd_globals st)\<rparr>)
           | None \<Rightarrow>
               (case strip_suffix '':'' clean of
                  Some label \<Rightarrow> define_label line_number clean (trim label) st
                | None \<Rightarrow> read_op mode line_number clean st))"

definition read_line :: "branch_size_mode \<Rightarrow> nat \<Rightarrow> string \<Rightarrow> reader \<Rightarrow> reader asm" where
  "read_line mode line_number line st =
     (case strip_comment line of
        None \<Rightarrow> Ok st
      | Some clean \<Rightarrow> if clean = [] then Ok st else read_clean mode line_number clean st)"

fun read_lines :: "branch_size_mode \<Rightarrow> nat \<Rightarrow> string list \<Rightarrow> reader \<Rightarrow> reader asm" where
  "read_lines mode line_index [] st = Ok st"
| "read_lines mode line_index (line # lines) st =
     rbind (read_line mode (line_index + 1) line st) (read_lines mode (line_index + 1) lines)"

definition parsed_of :: "branch_size_mode \<Rightarrow> reader \<Rightarrow> parsed_assembly" where
  "parsed_of mode st =
     \<lparr>text_ops = rd_ops st Text, rodata_ops = rd_ops st Rodata, text_size = rd_size st Text,
      rodata_size = rd_size st Rodata, symbols = rd_symbols st, globals = rd_globals st,
      entry_label = (case rd_entry st of Some l \<Rightarrow> Some l | None \<Rightarrow> rd_fallback st),
      relaxed_text_branches =
        (case mode_relaxed_text_branches mode of Some R \<Rightarrow> R | None \<Rightarrow> {})\<rparr>"

definition from_lines_with_branch_mode :: "string list \<Rightarrow> branch_size_mode \<Rightarrow> parsed_assembly asm" where
  "from_lines_with_branch_mode lines mode =
     rbind (read_lines mode 0 lines initial_reader) (\<lambda>st. Ok (parsed_of mode st))"

section \<open>Branch relaxation\<close>

fun relaxed_from ::
  "parsed_assembly \<Rightarrow> section_layout \<Rightarrow> nat \<Rightarrow> nat \<Rightarrow> located_op list \<Rightarrow> nat set \<Rightarrow> nat set asm" where
  "relaxed_from p layout index offset [] relaxed = Ok relaxed"
| "relaxed_from p layout index offset (op # ops) relaxed =
     rbind (case the_op op of
          OpInstruction inst \<Rightarrow>
            if conditional_branch_parts inst \<noteq> None then
              rbind (map_err (attach (op_prov op)) (asm_branch_target inst p layout)) (\<lambda>target.
              rbind (map_err (attach (op_prov op))
                  (relative_offset (text_user_base layout + offset) target)) (\<lambda>d.
                Ok (if \<not> signed_bits_fit d 13 then insert index relaxed else relaxed)))
            else Ok relaxed
        | _ \<Rightarrow> Ok relaxed) (\<lambda>relaxed.
     rbind (map_err (attach (op_prov op)) (op_size (the_op op) offset Text index Conservative)) (\<lambda>size.
       relaxed_from p layout (Suc index) (offset + size) ops relaxed))"

definition relaxed_branch_indices :: "parsed_assembly \<Rightarrow> section_layout \<Rightarrow> nat set asm" where
  "relaxed_branch_indices p layout = relaxed_from p layout 0 0 (text_ops p) {}"

definition from_lines_relaxed :: "string list \<Rightarrow> section_layout \<Rightarrow> parsed_assembly asm" where
  "from_lines_relaxed lines layout =
     rbind (from_lines_with_branch_mode lines Conservative) (\<lambda>conservative.
     rbind (relaxed_branch_indices conservative layout) (\<lambda>relaxed.
       from_lines_with_branch_mode lines (Exact relaxed)))"

section \<open>Encoding a section\<close>

definition pad_to_alignment :: "byte list \<Rightarrow> nat \<Rightarrow> byte list" where
  "pad_to_alignment out align = out @ replicate (padding_for (length out) align) 0"

definition encode_op ::
  "parsed_assembly \<Rightarrow> section_kind \<Rightarrow> section_layout \<Rightarrow> nat \<Rightarrow> nat \<Rightarrow> located_op \<Rightarrow> byte list \<Rightarrow> byte list asm" where
  "encode_op p sec layout base_bias op_index op out =
     (case the_op op of
        OpLabel _ \<Rightarrow> Ok out
      | OpWord w \<Rightarrow> Ok (out @ u32_le w)
      | OpByte b \<Rightarrow> Ok (out @ [b])
      | OpAscii bytes \<Rightarrow> Ok (out @ bytes)
      | OpAlign n \<Rightarrow> Ok (pad_to_alignment out n)
      | OpInstruction inst \<Rightarrow>
          map_err (attach (op_prov op))
            (if length out < base_bias then fail BiasUnderflow
             else rbind (encode_instruction inst
                    ((case sec of Text \<Rightarrow> text_user_base layout | Rodata \<Rightarrow> rodata_base layout)
                       + (length out - base_bias))
                    p layout (sec = Text \<and> op_index \<in> relaxed_text_branches p)) (\<lambda>bytes.
               Ok (out @ bytes))))"

fun encode_ops ::
  "parsed_assembly \<Rightarrow> section_kind \<Rightarrow> section_layout \<Rightarrow> nat \<Rightarrow> nat \<Rightarrow> located_op list \<Rightarrow> byte list \<Rightarrow> byte list asm" where
  "encode_ops p sec layout base_bias op_index [] out = Ok out"
| "encode_ops p sec layout base_bias op_index (op # ops) out =
     rbind (encode_op p sec layout base_bias op_index op out) (\<lambda>out.
       encode_ops p sec layout base_bias (Suc op_index) ops out)"

definition section_ops :: "parsed_assembly \<Rightarrow> section_kind \<Rightarrow> located_op list" where
  "section_ops p sec = (case sec of Text \<Rightarrow> text_ops p | Rodata \<Rightarrow> rodata_ops p)"

definition encode_section ::
  "parsed_assembly \<Rightarrow> section_kind \<Rightarrow> byte list \<Rightarrow> section_layout \<Rightarrow> nat \<Rightarrow> byte list asm" where
  "encode_section p sec out layout base_bias =
     encode_ops p sec layout base_bias 0 (section_ops p sec) out"

section \<open>Sizes and emitted bytes\<close>

text \<open>
  The two passes over a list of operations: the running offset, and the concatenated bytes. Both
  hand each operation its offset and its index.
\<close>

fun run_size :: "(nat \<Rightarrow> nat \<Rightarrow> 'op \<Rightarrow> 'e + nat) \<Rightarrow> nat \<Rightarrow> nat \<Rightarrow> 'op list \<Rightarrow> 'e + nat" where
  "run_size sz off i [] = Ok off"
| "run_size sz off i (op # ops) = rbind (sz off i op) (\<lambda>n. run_size sz (off + n) (Suc i) ops)"

fun run_emit :: "(nat \<Rightarrow> nat \<Rightarrow> 'op \<Rightarrow> 'e + byte list) \<Rightarrow> nat \<Rightarrow> nat \<Rightarrow> 'op list \<Rightarrow> 'e + byte list" where
  "run_emit em off i [] = Ok []"
| "run_emit em off i (op # ops) =
     rbind (em off i op) (\<lambda>bs. rbind (run_emit em (off + length bs) (Suc i) ops) (\<lambda>rest. Ok (bs @ rest)))"

lemma run_size_append:
  "run_size sz off i (xs @ ys) = rbind (run_size sz off i xs) (\<lambda>off. run_size sz off (i + length xs) ys)"
proof (induction xs arbitrary: off i)
  case (Cons x xs)
  then show ?case by (cases "sz off i x") auto
qed simp

lemma run_size_mono: "run_size sz off i ops = Inr t \<Longrightarrow> off \<le> t"
  by (induction ops arbitrary: off i) (auto, metis add_leE)

lemma run_size_prefix:
  assumes "run_size sz off i ops = Inr t"
  obtains u where "run_size sz off i (take k ops) = Inr u" "u \<le> t"
proof -
  have "run_size sz off i (take k ops @ drop k ops) = Inr t" using assms by simp
  then show ?thesis using that run_size_mono unfolding run_size_append by blast
qed

locale sized_emitter =
  fixes sz :: "nat \<Rightarrow> nat \<Rightarrow> 'op \<Rightarrow> 'e + nat"
    and em :: "nat \<Rightarrow> nat \<Rightarrow> 'op \<Rightarrow> 'f + byte list"
    and adm :: "'op \<Rightarrow> bool"
  assumes sized: "adm op \<Longrightarrow> em off i op = Inr bs \<Longrightarrow> sz off i op = Inr (length bs)"
begin

lemma emit_size:
  "list_all adm ops \<Longrightarrow> run_emit em off i ops = Inr out \<Longrightarrow> run_size sz off i ops = Inr (off + length out)"
proof (induction ops arbitrary: off i out)
  case (Cons op ops)
  from Cons.prems(2) obtain bs rest where
    e: "em off i op = Inr bs" "run_emit em (off + length bs) (Suc i) ops = Inr rest" "out = bs @ rest" by auto
  with Cons show ?case by (simp add: sized add.assoc)
qed simp

lemma emit_at:
  assumes "list_all adm ops" "run_emit em off i ops = Inr out" "k < length ops"
  shows "\<exists>pos bs. run_size sz off i (take k ops) = Inr (off + pos) \<and> em (off + pos) (i + k) (ops ! k) = Inr bs
    \<and> pos + length bs \<le> length out \<and> take (length bs) (drop pos out) = bs"
  using assms
proof (induction ops arbitrary: off i out k)
  case (Cons op ops)
  from Cons.prems(2) obtain bs rest where
    e: "em off i op = Inr bs" "run_emit em (off + length bs) (Suc i) ops = Inr rest" "out = bs @ rest" by auto
  show ?case
  proof (cases k)
    case 0
    then show ?thesis using e by (intro exI [of _ 0] exI [of _ bs]) simp
  next
    case (Suc j)
    with Cons.prems e obtain pos cs where
      "run_size sz (off + length bs) (Suc i) (take j ops) = Inr (off + length bs + pos)"
      "em (off + length bs + pos) (Suc i + j) (ops ! j) = Inr cs"
      "pos + length cs \<le> length rest" "take (length cs) (drop pos rest) = cs"
      using Cons.IH [OF _ e(2), of j] by auto
    with Suc e Cons.prems show ?thesis
      by (intro exI [of _ "length bs + pos"] exI [of _ cs]) (simp add: sized add.assoc)
  qed
qed simp

end

text \<open>The bytes of one operation at its offset, and the condition under which padding agrees.\<close>

definition op_bytes ::
  "parsed_assembly \<Rightarrow> section_kind \<Rightarrow> section_layout \<Rightarrow> nat \<Rightarrow> nat \<Rightarrow> nat \<Rightarrow> located_op \<Rightarrow> byte list asm" where
  "op_bytes p sec layout base_bias off i op =
     (case the_op op of
        OpLabel _ \<Rightarrow> Ok []
      | OpWord w \<Rightarrow> Ok (u32_le w)
      | OpByte b \<Rightarrow> Ok [b]
      | OpAscii bytes \<Rightarrow> Ok bytes
      | OpAlign n \<Rightarrow> Ok (replicate (padding_for (base_bias + off) n) 0)
      | OpInstruction inst \<Rightarrow>
          map_err (attach (op_prov op))
            (encode_instruction inst
               ((case sec of Text \<Rightarrow> text_user_base layout | Rodata \<Rightarrow> rodata_base layout) + off)
               p layout (sec = Text \<and> i \<in> relaxed_text_branches p)))"

definition pads_alike :: "nat \<Rightarrow> located_op \<Rightarrow> bool" where
  "pads_alike base_bias op \<longleftrightarrow> (case the_op op of OpAlign n \<Rightarrow> (\<exists>k. n = 2 ^ k) \<and> n dvd base_bias | _ \<Rightarrow> True)"

abbreviation op_len :: "branch_size_mode \<Rightarrow> section_kind \<Rightarrow> nat \<Rightarrow> nat \<Rightarrow> located_op \<Rightarrow> nat asm" where
  "op_len mode sec off i op \<equiv> op_size (the_op op) off sec i mode"

lemma padding_for_shift:
  assumes "2 ^ k dvd b"
  shows "padding_for (b + off) (2 ^ k) = padding_for off (2 ^ k)"
proof -
  from assms obtain q where b: "b = 2 ^ k * q" by (elim dvdE)
  have "1 \<le> (2 :: nat) ^ k" by simp
  then have "b + off + 2 ^ k - 1 = (off + 2 ^ k - 1) + 2 ^ k * q" unfolding b by linarith
  moreover have "(2 :: nat) ^ k \<noteq> 0" by simp
  ultimately have "(b + off + 2 ^ k - 1) div 2 ^ k = q + (off + 2 ^ k - 1) div 2 ^ k"
    by (metis div_mult_self2)
  then show ?thesis by (simp add: padding_for_def align_up_pow2 b algebra_simps)
qed

lemma encode_op_bytes:
  "length out = base_bias + off \<Longrightarrow>
    encode_op p sec layout base_bias i op out
      = rbind (op_bytes p sec layout base_bias off i op) (\<lambda>bs. Ok (out @ bs))"
  by (cases "the_op op") (simp_all add: encode_op_def op_bytes_def pad_to_alignment_def map_err_rbind)

lemma encode_ops_run:
  "length out = base_bias + off \<Longrightarrow>
    encode_ops p sec layout base_bias i ops out
      = rbind (run_emit (op_bytes p sec layout base_bias) off i ops) (\<lambda>bs. Ok (out @ bs))"
proof (induction ops arbitrary: off i out)
  case (Cons op ops)
  show ?case
  proof (cases "op_bytes p sec layout base_bias off i op")
    case (Inr bs)
    with Cons.prems Cons.IH [of "out @ bs" "off + length bs" "Suc i"] show ?thesis
      by (cases "run_emit (op_bytes p sec layout base_bias) (off + length bs) (Suc i) ops")
        (simp_all add: encode_op_bytes)
  qed (use Cons.prems in \<open>simp add: encode_op_bytes\<close>)
qed simp

interpretation section_emitter: sized_emitter
  "op_len (Exact (relaxed_text_branches p)) sec" "op_bytes p sec layout base_bias" "pads_alike base_bias"
  for p sec layout base_bias
proof
  fix op off i bs
  assume "pads_alike base_bias op" "op_bytes p sec layout base_bias off i op = Inr bs"
  then show "op_len (Exact (relaxed_text_branches p)) sec off i op = Inr (length bs)"
    by (cases "the_op op")
      (auto simp: op_size_def op_bytes_def pads_alike_def padding_for_shift encode_instruction_length)
qed

lemma encode_section_run:
  assumes "encode_section p sec out layout (length out) = Inr res"
  obtains bs where "run_emit (op_bytes p sec layout (length out)) 0 0 (section_ops p sec) = Inr bs" "res = out @ bs"
  using assms encode_ops_run [of out "length out" 0] by (auto simp: encode_section_def)

section \<open>Invariant of the reader\<close>

text \<open>
  What holds after every line: the size of a section is the running size of its operations; every
  operation is well-formed and carries its section and index; the symbol table lists exactly the
  labels of the operations, each once, with the running size at its place; an entry point is an
  exported label of the text section.
\<close>

definition label_at :: "reader \<Rightarrow> string \<Rightarrow> section_kind \<Rightarrow> nat \<Rightarrow> bool" where
  "label_at st l sec k \<longleftrightarrow> k < length (rd_ops st sec) \<and> the_op (rd_ops st sec ! k) = OpLabel l"

definition sizes_ok :: "branch_size_mode \<Rightarrow> reader \<Rightarrow> bool" where
  "sizes_ok mode st \<longleftrightarrow> (\<forall>sec. run_size (op_len mode sec) 0 0 (rd_ops st sec) = Inr (rd_size st sec))"

definition op_located :: "section_kind \<Rightarrow> nat \<Rightarrow> located_op \<Rightarrow> bool" where
  "op_located sec k op \<longleftrightarrow>
     op_ok (the_op op) \<and> prov_section (op_prov op) = sec \<and> prov_op_index (op_prov op) = k"

definition ops_located :: "reader \<Rightarrow> bool" where
  "ops_located st \<longleftrightarrow> (\<forall>sec. \<forall>k < length (rd_ops st sec). op_located sec k (rd_ops st sec ! k))"

definition symbol_at :: "branch_size_mode \<Rightarrow> reader \<Rightarrow> string \<Rightarrow> symbol_def \<Rightarrow> nat \<Rightarrow> bool" where
  "symbol_at mode st l d k \<longleftrightarrow>
     label_at st l (sym_section d) k
     \<and> run_size (op_len mode (sym_section d)) 0 0 (take k (rd_ops st (sym_section d))) = Inr (sym_offset d)
     \<and> (\<forall>sec j. label_at st l sec j \<longrightarrow> sec = sym_section d \<and> j = k)"

definition symbols_ok :: "branch_size_mode \<Rightarrow> reader \<Rightarrow> bool" where
  "symbols_ok mode st \<longleftrightarrow>
     (\<forall>l. case map_of (rd_symbols st) l of
        None \<Rightarrow> \<forall>sec k. \<not> label_at st l sec k
      | Some d \<Rightarrow> \<exists>k. symbol_at mode st l d k)"

lemma symbols_okD:
  assumes "symbols_ok mode st"
  shows "map_of (rd_symbols st) l = Some d \<Longrightarrow> \<exists>k. symbol_at mode st l d k"
    and "label_at st l sec k \<Longrightarrow> \<exists>d. map_of (rd_symbols st) l = Some d"
  using spec [OF assms [unfolded symbols_ok_def], of l] by (auto split: option.splits)

definition entry_ok :: "reader \<Rightarrow> bool" where
  "entry_ok st \<longleftrightarrow>
     (\<forall>l \<in> set_option (rd_entry st) \<union> set_option (rd_fallback st).
        l \<in> rd_globals st \<and> (\<exists>d. map_of (rd_symbols st) l = Some d \<and> sym_section d = Text))"

definition reader_ok :: "branch_size_mode \<Rightarrow> reader \<Rightarrow> bool" where
  "reader_ok mode st \<longleftrightarrow> sizes_ok mode st \<and> ops_located st \<and> symbols_ok mode st \<and> entry_ok st"

lemma label_at_cong: "rd_ops st' = rd_ops st \<Longrightarrow> label_at st' = label_at st"
  by (intro ext) (simp add: label_at_def)

lemma symbol_at_cong: "rd_ops st' = rd_ops st \<Longrightarrow> symbol_at mode st' = symbol_at mode st"
  by (intro ext) (simp add: symbol_at_def label_at_cong [of st' st])

lemma reader_ok_cong:
  assumes "rd_ops st' = rd_ops st" "rd_size st' = rd_size st" "rd_symbols st' = rd_symbols st"
    "rd_entry st' = rd_entry st" "rd_fallback st' = rd_fallback st" "rd_globals st \<subseteq> rd_globals st'"
    "reader_ok mode st"
  shows "reader_ok mode st'"
  using assms(2-7)
  unfolding reader_ok_def sizes_ok_def ops_located_def symbols_ok_def entry_ok_def
    label_at_cong [OF assms(1)] symbol_at_cong [OF assms(1)] assms(1)
  by auto

lemma reader_ok_section: "reader_ok mode st \<Longrightarrow> reader_ok mode (st\<lparr>rd_section := sec\<rparr>)"
  by (rule reader_ok_cong [of _ st]) simp_all

lemma reader_ok_global: "reader_ok mode st \<Longrightarrow> reader_ok mode (st\<lparr>rd_globals := insert g (rd_globals st)\<rparr>)"
  by (rule reader_ok_cong [of _ st]) auto

lemma reader_ok_initial: "reader_ok mode initial_reader"
  by (simp add: reader_ok_def sizes_ok_def ops_located_def symbols_ok_def entry_ok_def initial_reader_def
      label_at_def)

lemma push_op_fields [simp]:
  "rd_section (push_op op n st) = rd_section st" "rd_symbols (push_op op n st) = rd_symbols st"
  "rd_globals (push_op op n st) = rd_globals st" "rd_entry (push_op op n st) = rd_entry st"
  "rd_fallback (push_op op n st) = rd_fallback st"
  by (simp_all add: push_op_def)

lemma label_at_push:
  "label_at (push_op op n st) l sec k \<longleftrightarrow>
    label_at st l sec k
    \<or> sec = rd_section st \<and> k = length (rd_ops st sec) \<and> the_op op = OpLabel l"
  by (auto simp: label_at_def push_op_def nth_append less_Suc_eq)

lemma take_push:
  "k \<le> length (rd_ops st sec) \<Longrightarrow> take k (rd_ops (push_op op n st) sec) = take k (rd_ops st sec)"
  by (auto simp: push_op_def)

lemma sizes_ok_push:
  assumes "sizes_ok mode st" "op_len mode (rd_section st) (rd_size st (rd_section st))
      (length (rd_ops st (rd_section st))) op = Inr n"
  shows "sizes_ok mode (push_op op n st)"
  using assms by (auto simp: sizes_ok_def push_op_def run_size_append)

lemma ops_located_push:
  assumes "ops_located st" "op_located (rd_section st) (length (rd_ops st (rd_section st))) op"
  shows "ops_located (push_op op n st)"
  using assms by (auto simp: ops_located_def push_op_def nth_append less_Suc_eq)

lemma symbol_at_push:
  assumes "symbol_at mode st l d k" "the_op op \<noteq> OpLabel l"
  shows "symbol_at mode (push_op op n st) l d k"
proof -
  have "k \<le> length (rd_ops st (sym_section d))" using assms(1) by (simp add: symbol_at_def label_at_def)
  with assms show ?thesis by (simp add: symbol_at_def label_at_push take_push)
qed

lemma symbols_ok_push:
  assumes "symbols_ok mode st" "\<And>l. the_op op \<noteq> OpLabel l"
  shows "symbols_ok mode (push_op op n st)"
  unfolding symbols_ok_def
proof
  fix l
  show "case map_of (rd_symbols (push_op op n st)) l of
      None \<Rightarrow> \<forall>sec k. \<not> label_at (push_op op n st) l sec k
    | Some d \<Rightarrow> \<exists>k. symbol_at mode (push_op op n st) l d k"
    using assms spec [OF assms(1) [unfolded symbols_ok_def], of l]
    by (auto simp: label_at_push split: option.splits intro: symbol_at_push)
qed

lemma symbols_ok_label:
  assumes "symbols_ok mode st" "sizes_ok mode st" "map_of (rd_symbols st) label = None"
    "the_op op = OpLabel label" "sym_section d = rd_section st" "sym_offset d = rd_size st (rd_section st)"
    "rd_ops st' = rd_ops st" "rd_section st' = rd_section st" "rd_symbols st' = (label, d) # rd_symbols st"
  shows "symbols_ok mode (push_op op 0 st')"
proof -
  have same: "label_at st' l sec k = label_at st l sec k" "symbol_at mode st' l e k = symbol_at mode st l e k" for l sec k e
    using label_at_cong [OF assms(7)] symbol_at_cong [OF assms(7)] by simp_all
  have fresh: "\<not> label_at st label sec k" for sec k
    using assms(1,3) unfolding symbols_ok_def by (metis option.case_eq_if)
  have new: "symbol_at mode (push_op op 0 st') label d (length (rd_ops st (rd_section st)))"
    using assms fresh by (auto simp: symbol_at_def label_at_push same take_push sizes_ok_def)
  show ?thesis
    unfolding symbols_ok_def
  proof
    fix l
    show "case map_of (rd_symbols (push_op op 0 st')) l of
        None \<Rightarrow> \<forall>sec k. \<not> label_at (push_op op 0 st') l sec k
      | Some d \<Rightarrow> \<exists>k. symbol_at mode (push_op op 0 st') l d k"
    proof (cases "l = label")
      case True
      with new assms(9) show ?thesis by auto
    next
      case False
      with spec [OF assms(1) [unfolded symbols_ok_def], of l] assms show ?thesis
        by (auto simp: label_at_push same split: option.splits intro!: symbol_at_push)
    qed
  qed
qed

lemma reader_ok_define_label:
  assumes ok: "reader_ok mode st" and "define_label ln clean l st = Inr st'"
  shows "reader_ok mode st'"
proof -
  let ?op = "\<lparr>the_op = OpLabel l, op_prov = provenance_at st ln clean\<rparr>"
  from assms(2) obtain st1 where fresh: "map_of (rd_symbols st) l = None" and st': "st' = push_op ?op 0 st1"
    and st1: "rd_ops st1 = rd_ops st" "rd_section st1 = rd_section st" "rd_size st1 = rd_size st"
      "rd_globals st1 = rd_globals st"
      "rd_symbols st1 = (l, \<lparr>sym_section = rd_section st, sym_offset = rd_size st (rd_section st), sym_line = ln\<rparr>)
         # rd_symbols st"
      "rd_entry st1 \<in> {rd_entry st, Some l}" "rd_fallback st1 \<in> {rd_fallback st, Some l}"
      "rd_entry st1 \<noteq> rd_entry st \<or> rd_fallback st1 \<noteq> rd_fallback st \<longrightarrow> rd_section st = Text \<and> l \<in> rd_globals st"
    by (auto simp: define_label_def add_label_def Let_def split: option.splits)
  from ok have parts: "sizes_ok mode st" "ops_located st" "symbols_ok mode st" "entry_ok st"
    by (simp_all add: reader_ok_def)
  have "sizes_ok mode st1" "ops_located st1" using parts st1 by (simp_all add: sizes_ok_def ops_located_def)
  moreover have "op_located (rd_section st1) (length (rd_ops st1 (rd_section st1))) ?op"
    by (simp add: op_located_def op_ok_def provenance_at_def st1)
  moreover have "symbols_ok mode st'"
    unfolding st' by (rule symbols_ok_label [OF parts(3,1) fresh _ _ _ st1(1,2,5)]) simp_all
  moreover have "entry_ok st'"
    unfolding entry_ok_def
  proof
    fix m
    assume "m \<in> set_option (rd_entry st') \<union> set_option (rd_fallback st')"
    then consider "m \<in> set_option (rd_entry st) \<union> set_option (rd_fallback st)"
      | "m = l" "rd_section st = Text" "l \<in> rd_globals st"
      using st1(6-8) by (auto simp: st')
    then show "m \<in> rd_globals st' \<and> (\<exists>d. map_of (rd_symbols st') m = Some d \<and> sym_section d = Text)"
    proof cases
      case 1
      with parts(4) have "m \<in> rd_globals st" "\<exists>d. map_of (rd_symbols st) m = Some d \<and> sym_section d = Text"
        by (simp_all add: entry_ok_def)
      with fresh show ?thesis by (auto simp: st' st1)
    qed (simp add: st' st1)
  qed
  ultimately show ?thesis
    unfolding reader_ok_def st' by (auto simp: op_size_def intro!: sizes_ok_push ops_located_push)
qed

lemma reader_ok_read_op:
  assumes ok: "reader_ok mode st" and "read_op mode ln clean st = Inr st'"
  shows "reader_ok mode st'"
proof -
  from assms(2) obtain op n where op: "parse_asm_op clean = Inr op"
    and n: "op_size op (rd_size st (rd_section st)) (rd_section st) (length (rd_ops st (rd_section st))) mode = Inr n"
    and st': "st' = push_op \<lparr>the_op = op, op_prov = provenance_at st ln clean\<rparr> n st"
    by (auto simp: read_op_def Let_def)
  have "op_ok op" using all_okD [OF parse_asm_op_ok op] .
  moreover have "op \<noteq> OpLabel l" for l
    using op by (auto simp: parse_asm_op_def split: option.splits if_splits)
  ultimately show ?thesis
    using ok n unfolding reader_ok_def st'
    by (auto simp: op_located_def provenance_at_def entry_ok_def
        intro!: sizes_ok_push ops_located_push symbols_ok_push)
qed

lemma reader_ok_read_line:
  assumes "reader_ok mode st" "read_line mode ln line st = Inr st'"
  shows "reader_ok mode st'"
  using assms
  by (auto simp: read_line_def read_clean_def split: option.splits if_splits
      intro: reader_ok_section reader_ok_global reader_ok_define_label reader_ok_read_op)

lemma reader_ok_read_lines:
  "reader_ok mode st \<Longrightarrow> read_lines mode i lines st = Inr st' \<Longrightarrow> reader_ok mode st'"
  by (induction lines arbitrary: i st) (auto dest: reader_ok_read_line)

section \<open>The parsed program\<close>

definition label_index :: "parsed_assembly \<Rightarrow> string \<Rightarrow> section_kind \<Rightarrow> nat \<Rightarrow> bool" where
  "label_index p l sec k \<longleftrightarrow> k < length (section_ops p sec) \<and> the_op (section_ops p sec ! k) = OpLabel l"

definition offset_of :: "branch_size_mode \<Rightarrow> parsed_assembly \<Rightarrow> section_kind \<Rightarrow> nat \<Rightarrow> nat asm" where
  "offset_of mode p sec k = run_size (op_len mode sec) 0 0 (take k (section_ops p sec))"

definition reader_of :: "branch_size_mode \<Rightarrow> parsed_assembly \<Rightarrow> reader \<Rightarrow> bool" where
  "reader_of mode p st \<longleftrightarrow>
     reader_ok mode st \<and> section_ops p = rd_ops st \<and> section_size p = rd_size st
     \<and> symbols p = rd_symbols st \<and> globals p = rd_globals st
     \<and> entry_label p = (case rd_entry st of Some l \<Rightarrow> Some l | None \<Rightarrow> rd_fallback st)
     \<and> relaxed_text_branches p = (case mode_relaxed_text_branches mode of Some R \<Rightarrow> R | None \<Rightarrow> {})"

lemma section_ops_parsed: "section_ops (parsed_of mode st) = rd_ops st"
  by (intro ext) (simp add: parsed_of_def section_ops_def split: section_kind.split)

lemma section_size_parsed: "section_size (parsed_of mode st) = rd_size st"
  by (intro ext) (simp add: parsed_of_def section_size_def split: section_kind.split)

lemma from_lines_reader:
  assumes "from_lines_with_branch_mode lines mode = Inr p"
  obtains st where "reader_of mode p st"
proof -
  from assms obtain st where st: "read_lines mode 0 lines initial_reader = Inr st" and p: "p = parsed_of mode st"
    by (auto simp: from_lines_with_branch_mode_def)
  have "section_ops p = rd_ops st" "section_size p = rd_size st"
    by (simp_all add: p section_ops_parsed section_size_parsed)
  then have "reader_of mode p st"
    using reader_ok_read_lines [OF reader_ok_initial st] by (simp add: reader_of_def p parsed_of_def)
  then show ?thesis by (rule that)
qed

lemma from_lines_symbol:
  assumes "from_lines_with_branch_mode lines mode = Inr p" "map_of (symbols p) l = Some d"
  obtains k where "label_index p l (sym_section d) k" "offset_of mode p (sym_section d) k = Inr (sym_offset d)"
    "\<And>sec j. label_index p l sec j \<Longrightarrow> sec = sym_section d \<and> j = k"
proof -
  obtain st where st: "reader_of mode p st" using from_lines_reader [OF assms(1)] .
  then have "\<exists>k. symbol_at mode st l d k"
    using assms(2) symbols_okD(1) by (auto simp: reader_of_def reader_ok_def)
  then obtain k where "symbol_at mode st l d k" ..
  then have k: "label_at st l (sym_section d) k"
      "run_size (op_len mode (sym_section d)) 0 0 (take k (rd_ops st (sym_section d))) = Inr (sym_offset d)"
      "\<And>sec j. label_at st l sec j \<Longrightarrow> sec = sym_section d \<and> j = k"
    by (simp_all add: symbol_at_def)
  have ops: "section_ops p = rd_ops st" using st by (simp add: reader_of_def)
  show ?thesis
  proof (rule that [of k])
    show "label_index p l (sym_section d) k" using k(1) by (simp add: label_at_def label_index_def ops)
    show "offset_of mode p (sym_section d) k = Inr (sym_offset d)" using k(2) by (simp add: offset_of_def ops)
    show "sec = sym_section d \<and> j = k" if "label_index p l sec j" for sec j
      using that by (intro k(3)) (simp add: label_at_def label_index_def ops)
  qed
qed

lemma from_lines_labels:
  assumes "from_lines_with_branch_mode lines mode = Inr p" "label_index p l sec k"
  shows "\<exists>d. map_of (symbols p) l = Some d"
proof -
  obtain st where st: "reader_of mode p st" using from_lines_reader [OF assms(1)] .
  with assms(2) have "label_at st l sec k" by (simp add: label_at_def label_index_def reader_of_def)
  with st show ?thesis using symbols_okD(2) by (auto simp: reader_of_def reader_ok_def)
qed

lemma from_lines_size:
  assumes "from_lines_with_branch_mode lines mode = Inr p"
  shows "run_size (op_len mode sec) 0 0 (section_ops p sec) = Inr (section_size p sec)"
proof -
  obtain st where st: "reader_of mode p st" using from_lines_reader [OF assms(1)] .
  then show ?thesis by (simp add: reader_of_def reader_ok_def sizes_ok_def)
qed

lemma from_lines_located:
  assumes "from_lines_with_branch_mode lines mode = Inr p" "k < length (section_ops p sec)"
  shows "op_located sec k (section_ops p sec ! k)"
proof -
  obtain st where st: "reader_of mode p st" using from_lines_reader [OF assms(1)] .
  with assms(2) show ?thesis by (simp add: reader_of_def reader_ok_def ops_located_def)
qed

lemma from_lines_entry:
  assumes "from_lines_with_branch_mode lines mode = Inr p" "entry_label p = Some l"
  shows "l \<in> globals p \<and> (\<exists>d. map_of (symbols p) l = Some d \<and> sym_section d = Text)"
proof -
  obtain st where st: "reader_of mode p st" using from_lines_reader [OF assms(1)] .
  with assms(2) have "l \<in> set_option (rd_entry st) \<union> set_option (rd_fallback st)"
    using st by (auto simp: reader_of_def split: option.splits)
  with st show ?thesis by (simp add: reader_of_def reader_ok_def entry_ok_def)
qed

lemma from_lines_relaxed_set:
  "from_lines_with_branch_mode lines (Exact R) = Inr p \<Longrightarrow> relaxed_text_branches p = R"
  by (erule from_lines_reader) (simp add: reader_of_def mode_relaxed_text_branches_def)

section \<open>Both passes agree\<close>

text \<open>
  A section encoded on top of \<open>length out\<close> bytes that belong to something else: the position of
  each operation in the output is its offset.
\<close>

definition padded_alike :: "nat \<Rightarrow> parsed_assembly \<Rightarrow> section_kind \<Rightarrow> bool" where
  "padded_alike base_bias p sec \<longleftrightarrow> list_all (pads_alike base_bias) (section_ops p sec)"

lemma encode_section_size:
  assumes p: "from_lines_with_branch_mode lines (Exact R) = Inr p" and "padded_alike (length out) p sec"
    and "encode_section p sec out layout (length out) = Inr res"
  obtains bs where "res = out @ bs" "length bs = section_size p sec"
proof -
  from encode_section_run [OF assms(3)] obtain bs where
    bs: "run_emit (op_bytes p sec layout (length out)) 0 0 (section_ops p sec) = Inr bs" "res = out @ bs" .
  from section_emitter.emit_size [OF assms(2) [unfolded padded_alike_def] bs(1)] from_lines_size [OF p, of sec]
  have "length bs = section_size p sec" by (simp add: from_lines_relaxed_set [OF p])
  with bs that show ?thesis by blast
qed

lemma encode_section_at:
  assumes p: "from_lines_with_branch_mode lines (Exact R) = Inr p" and "padded_alike (length out) p sec"
    and "encode_section p sec out layout (length out) = Inr res" and "k < length (section_ops p sec)"
  obtains off bs where "offset_of (Exact R) p sec k = Inr off"
    "op_bytes p sec layout (length out) off k (section_ops p sec ! k) = Inr bs"
    "length out + off + length bs \<le> length res"
    "take (length bs) (drop (length out + off) res) = bs"
proof -
  from encode_section_run [OF assms(3)] obtain bs where
    bs: "run_emit (op_bytes p sec layout (length out)) 0 0 (section_ops p sec) = Inr bs" "res = out @ bs" .
  from section_emitter.emit_at [OF assms(2) [unfolded padded_alike_def] bs(1) assms(4)] bs that
  show ?thesis by (auto simp: from_lines_relaxed_set [OF p] offset_of_def)
qed

section \<open>Errors carry their line\<close>

lemma unlocated_split_hi_lo: "unlocated (split_hi_lo v)"
  unfolding split_hi_lo_def Let_def by (intro err_intros) simp_all

lemma unlocated_plan: "unlocated (plan v)"
proof -
  have "unlocated (legacy v bits)" for bits
    by (cases "li_form v") (auto simp: legacy_def Let_def intro!: err_intros unlocated_split_hi_lo)
  then show ?thesis
    unfolding plan_def li_bits_def Let_def by (intro err_intros) simp_all
qed

lemma unlocated_op_size: "unlocated (op_size op off sec i mode)"
proof (cases op)
  case (OpInstruction inst)
  have "unlocated (li_sequence_size v)" for v
    unfolding li_sequence_size_def by (intro err_intros unlocated_plan)
  then show ?thesis
    unfolding OpInstruction op_size_def by (cases inst) (auto simp: instruction_size_def intro: err_intros)
qed (simp_all add: op_size_def all_err_Inr)

definition error_at :: "reader \<Rightarrow> nat \<Rightarrow> string \<Rightarrow> compile_error \<Rightarrow> bool" where
  "error_at st ln line e \<longleftrightarrow>
     (\<exists>clean. strip_comment line = Some clean \<and> err_asm e = Some (provenance_at st ln clean))"

lemma error_at_attach:
  assumes "strip_comment line = Some clean" "unlocated r"
  shows "all_err (error_at st ln line) (map_err (attach (provenance_at st ln clean)) r)"
  using assms by (cases r) (auto simp: all_err_def error_at_def attach_def)

lemma read_line_error: "all_err (error_at st ln line) (read_line mode ln line st)"
proof (cases "strip_comment line")
  case (Some clean)
  note attach = error_at_attach [OF Some]
  have "all_err (error_at st ln line) (define_label ln clean l st)" for l
    using attach [of "fail k" for k] unfolding define_label_def
    by (intro err_intros) (simp add: all_err_def)
  moreover have "all_err (error_at st ln line) (read_op mode ln clean st)"
    unfolding read_op_def Let_def by (intro err_intros attach unlocated_asm_op unlocated_op_size)
  ultimately have "all_err (error_at st ln line) (read_clean mode ln clean st)"
    unfolding read_clean_def by (intro err_intros attach unlocated_section_directive)
  with Some show ?thesis by (simp add: read_line_def all_err_Inr)
qed (simp add: read_line_def all_err_Inr)

text \<open>Reading stops at the first line that fails, in the state the lines before it lead to.\<close>

lemma read_lines_append:
  "read_lines mode i (xs @ ys) st = rbind (read_lines mode i xs st) (read_lines mode (i + length xs) ys)"
proof (induction xs arbitrary: i st)
  case (Cons x xs)
  then show ?case by (cases "read_line mode (i + 1) x st") simp_all
qed simp

lemma read_lines_error:
  "read_lines mode i lines st = Inl e \<Longrightarrow> \<exists>k < length lines. \<exists>st'. read_lines mode i (take k lines) st = Inr st'
     \<and> read_line mode (i + k + 1) (lines ! k) st' = Inl e \<and> error_at st' (i + k + 1) (lines ! k) e"
proof (induction lines arbitrary: i st)
  case (Cons line lines)
  show ?case
  proof (cases "read_line mode (i + 1) line st")
    case (Inl e')
    with Cons.prems all_errD [OF read_line_error Inl] show ?thesis by (intro exI [of _ 0]) simp
  next
    case (Inr st')
    with Cons.prems Cons.IH [of "i + 1" st'] obtain k st'' where "k < length lines"
      "read_lines mode (i + 1) (take k lines) st' = Inr st''"
      "read_line mode (i + 1 + k + 1) (lines ! k) st'' = Inl e" "error_at st'' (i + 1 + k + 1) (lines ! k) e"
      by auto
    with Inr show ?thesis by (intro exI [of _ "Suc k"]) simp
  qed
qed simp

lemma run_size_labels:
  assumes "k \<le> i" "i \<le> length ops" "\<And>j. k \<le> j \<Longrightarrow> j < i \<Longrightarrow> \<exists>m. the_op (ops ! j) = OpLabel m"
  shows "run_size (op_len mode sec) off n (take i ops) = run_size (op_len mode sec) off n (take k ops)"
  using assms
proof (induction i rule: dec_induct)
  case (step i)
  then obtain m where "the_op (ops ! i) = OpLabel m" by (meson lessI order_refl)
  with step show ?case
    by (cases "run_size (op_len mode sec) off n (take k ops)")
      (auto simp: take_Suc_conv_app_nth run_size_append op_size_def less_Suc_eq)
qed simp

section \<open>A sample program\<close>

definition sample_lines :: "string list" where
  "sample_lines = [''.section .text'', ''.global main'', ''main:'', ''    beqz a0, .Lzero  # test'',
     ''    addi a0, a0, -1'', ''.Lzero:'', ''    ret'']"

definition sample_op :: "nat \<Rightarrow> string \<Rightarrow> nat \<Rightarrow> asm_op \<Rightarrow> located_op" where
  "sample_op ln clean i op =
     \<lparr>the_op = op, op_prov = \<lparr>prov_line = ln, prov_text = clean, prov_section = Text, prov_op_index = i\<rparr>\<rparr>"

definition sample_parsed :: parsed_assembly where
  "sample_parsed =
     \<lparr>text_ops = [sample_op 3 ''main:'' 0 (OpLabel ''main''),
        sample_op 4 ''beqz a0, .Lzero'' 1 (OpInstruction (IBeqz 10 ''.Lzero'')),
        sample_op 5 ''addi a0, a0, -1'' 2 (OpInstruction (IAddi 10 10 (- 1))),
        sample_op 6 ''.Lzero:'' 3 (OpLabel ''.Lzero''), sample_op 7 ''ret'' 4 (OpInstruction IRet)],
      rodata_ops = [], text_size = 12, rodata_size = 0,
      symbols = [(''.Lzero'', \<lparr>sym_section = Text, sym_offset = 8, sym_line = 6\<rparr>),
        (''main'', \<lparr>sym_section = Text, sym_offset = 0, sym_line = 3\<rparr>)],
      globals = {''main''}, entry_label = Some ''main'', relaxed_text_branches = {}\<rparr>"

declare
  initial_reader_def [eval_simps] provenance_at_def [eval_simps] push_op_def [eval_simps]
  add_label_def [eval_simps] define_label_def [eval_simps] read_op_def [eval_simps]
  read_clean_def [eval_simps] read_line_def [eval_simps] parsed_of_def [eval_simps]
  from_lines_with_branch_mode_def [eval_simps] relaxed_branch_indices_def [eval_simps]
  from_lines_relaxed_def [eval_simps] pad_to_alignment_def [eval_simps] encode_op_def [eval_simps]
  section_ops_def [eval_simps] encode_section_def [eval_simps]

lemma sample_exact: "from_lines_with_branch_mode sample_lines (Exact {}) = Inr sample_parsed"
  unfolding sample_lines_def sample_parsed_def sample_op_def
  by (simp add: eval_simps cong: rbind_weak_cong)

lemma sample_relaxed: "from_lines_relaxed sample_lines (for_text_user_size 16) = Inr sample_parsed"
  unfolding sample_lines_def sample_parsed_def sample_op_def
  by (simp add: eval_simps cong: rbind_weak_cong)

section \<open>Properties\<close>

text \<open>
  C24: The symbol table of a parsed program is exact. A label is defined at one place only; its entry
  names the section it stands in and the number of bytes the operations before it occupy there;
  every label that occurs has an entry; the size of a section is the size of its operations; and the
  entry point is a label of the text section that was declared global.
\<close>
theorem symbol_table_exact:
  assumes "from_lines_with_branch_mode lines mode = Inr p"
  shows "run_size (op_len mode sec) 0 0 (section_ops p sec) = Inr (section_size p sec)
    \<and> (\<forall>l d. map_of (symbols p) l = Some d \<longrightarrow>
         (\<exists>k. \<forall>s j. (label_index p l s j \<longleftrightarrow> s = sym_section d \<and> j = k)
            \<and> offset_of mode p (sym_section d) k = Inr (sym_offset d)))
    \<and> (\<forall>l s j. label_index p l s j \<longrightarrow> l \<in> dom (map_of (symbols p)))
    \<and> (\<forall>l. entry_label p = Some l \<longrightarrow>
         l \<in> globals p \<and> (\<exists>d. map_of (symbols p) l = Some d \<and> sym_section d = Text))"
proof -
  have "\<exists>k. \<forall>s j. (label_index p l s j \<longleftrightarrow> s = sym_section d \<and> j = k)
      \<and> offset_of mode p (sym_section d) k = Inr (sym_offset d)" if d: "map_of (symbols p) l = Some d" for l d
    using from_lines_symbol [OF assms d] by metis
  then show ?thesis
    using from_lines_size [OF assms] from_lines_labels [OF assms] from_lines_entry [OF assms] by blast
qed

theorem symbol_table_exact_witness:
  "run_size (op_len (Exact {}) Text) 0 0 (section_ops sample_parsed Text) = Inr (section_size sample_parsed Text)
   \<and> ''main'' \<in> globals sample_parsed"
  using symbol_table_exact [OF sample_exact, of Text] by (simp add: sample_parsed_def)

text \<open>
  C5: The bytes that encoding a section appends are as many as its computed size, and a symbol points
  at its code: the bytes at the symbol's offset are the encoding, at the symbol's address, of the
  first instruction after its label. The condition is that no alignment of the section is coarser
  than the number of bytes already in the buffer allows (in the text section, the 20-byte trampoline).
\<close>
theorem symbol_points_at_code:
  assumes "from_lines_with_branch_mode lines (Exact R) = Inr p" "padded_alike (length out) p sec"
    "encode_section p sec out layout (length out) = Inr res"
    "map_of (symbols p) l = Some d" "sym_section d = sec"
    "label_index p l sec k" "k < i" "i < length (section_ops p sec)"
    "\<forall>j. k < j \<and> j < i \<longrightarrow> (\<exists>m. label_index p m sec j)"
    "the_op (section_ops p sec ! i) = OpInstruction inst"
  shows "length res = length out + section_size p sec
    \<and> (\<exists>bs addr. symbol_address p l layout = Inr addr
        \<and> encode_instruction inst addr p layout (sec = Text \<and> i \<in> R) = Inr bs
        \<and> take (length bs) (drop (length out + sym_offset d) res) = bs)"
proof -
  have len: "length res = length out + section_size p sec"
    using encode_section_size [OF assms(1-3)] by (metis length_append)
  obtain off bs where at: "offset_of (Exact R) p sec i = Inr off"
    "op_bytes p sec layout (length out) off i (section_ops p sec ! i) = Inr bs"
    "take (length bs) (drop (length out + off) res) = bs"
    using encode_section_at [OF assms(1-3,8)] by metis
  have "offset_of (Exact R) p sec k = Inr (sym_offset d)"
    using from_lines_symbol [OF assms(1,4)] assms(5,6) by metis
  moreover have "offset_of (Exact R) p sec i = offset_of (Exact R) p sec k"
    unfolding offset_of_def
  proof (rule run_size_labels)
    show "\<exists>m. the_op (section_ops p sec ! j) = OpLabel m" if "k \<le> j" "j < i" for j
      using that assms(6,9) by (cases "j = k") (auto simp: label_index_def)
  qed (use assms in simp_all)
  ultimately have "off = sym_offset d" using at(1) by simp
  with at assms(4,5,10) len show ?thesis
    by (auto simp: op_bytes_def symbol_address_def from_lines_relaxed_set [OF assms(1)]
        split: section_kind.splits)
qed

theorem symbol_points_at_code_witness:
  "\<exists>bs addr. symbol_address sample_parsed ''.Lzero'' (for_text_user_size 12) = Inr addr
     \<and> encode_instruction IRet addr sample_parsed (for_text_user_size 12) (Text = Text \<and> 4 \<in> ({} :: nat set)) = Inr bs
     \<and> take (length bs) (drop (20 + 8) (replicate 20 0 @ u32_le 0x00050463 @ u32_le 0xfff50513 @ u32_le 0x00008067)) = bs"
proof -
  have "encode_section sample_parsed Text (replicate 20 0) (for_text_user_size 12) (length (replicate 20 (0 :: byte)))
      = Inr (replicate 20 0 @ u32_le 0x00050463 @ u32_le 0xfff50513 @ u32_le 0x00008067)"
    unfolding sample_parsed_def sample_op_def by (simp add: eval_simps)
  moreover have "padded_alike (length (replicate 20 (0 :: byte))) sample_parsed Text"
    by (simp add: padded_alike_def sample_parsed_def sample_op_def section_ops_def pads_alike_def)
  moreover have "\<exists>m. label_index sample_parsed m Text j" if "3 < j" "j < 4" for j using that by simp
  ultimately have "\<exists>bs addr. symbol_address sample_parsed ''.Lzero'' (for_text_user_size 12) = Inr addr
     \<and> encode_instruction IRet addr sample_parsed (for_text_user_size 12) (Text = Text \<and> 4 \<in> ({} :: nat set)) = Inr bs
     \<and> take (length bs) (drop (length (replicate 20 (0 :: byte)) + 8)
         (replicate 20 0 @ u32_le 0x00050463 @ u32_le 0xfff50513 @ u32_le 0x00008067)) = bs"
    using symbol_points_at_code [OF sample_exact, of "replicate 20 0" Text "for_text_user_size 12" _ "''.Lzero''"
        "\<lparr>sym_section = Text, sym_offset = 8, sym_line = 6\<rparr>" 3 4 IRet]
    by (simp add: sample_parsed_def sample_op_def section_ops_def label_index_def)
  then show ?thesis by simp
qed

text \<open>
  The condition is needed. In the text section the first pass pads from the start of the user code
  and the second from the start of the trampoline, so with an alignment of eight a label after it
  is recorded at offset 8 while its code is emitted at offset 4.
\<close>

lemma coarse_text_alignment:
  "\<exists>p d. from_lines_with_branch_mode [''f:'', ''ret'', ''.align 3'', ''g:'', ''ret''] (Exact {}) = Inr p
     \<and> map_of (symbols p) ''g'' = Some d \<and> sym_offset d = 8 \<and> text_size p = 12
     \<and> encode_section p Text (replicate 20 0) (for_text_user_size 12) 20
         = Inr (replicate 20 0 @ u32_le 0x00008067 @ u32_le 0x00008067)"
  by (simp add: eval_simps cong: rbind_weak_cong)

text \<open>
  C25: Every error of reading the assembly names the line that failed, whatever the cause (an unknown
  mnemonic, a bad operand, a duplicate label, an unsupported section). The lines before the named one
  are accepted, and with it the same error is reported whatever follows. The error carries the text of
  the line after comment removal and the number of operations read before it in its section.
\<close>
theorem from_lines_errors_located:
  assumes "from_lines_with_branch_mode lines mode = Inl e"
  shows "\<exists>k prov p. k < length lines \<and> err_asm e = Some prov \<and> prov_line prov = k + 1
    \<and> strip_comment (lines ! k) = Some (prov_text prov)
    \<and> from_lines_with_branch_mode (take k lines) mode = Inr p
    \<and> prov_op_index prov = length (section_ops p (prov_section prov))
    \<and> (\<forall>rest. from_lines_with_branch_mode (take (Suc k) lines @ rest) mode = Inl e)"
proof -
  from assms obtain k st where k: "k < length lines" "read_lines mode 0 (take k lines) initial_reader = Inr st"
    "read_line mode (k + 1) (lines ! k) st = Inl e" "error_at st (k + 1) (lines ! k) e"
    using read_lines_error [of mode 0 lines initial_reader e]
    by (auto simp: from_lines_with_branch_mode_def rbind_Err_iff)
  from k(4) obtain clean where clean: "strip_comment (lines ! k) = Some clean"
    "err_asm e = Some (provenance_at st (k + 1) clean)" by (auto simp: error_at_def)
  have "read_lines mode 0 (take (Suc k) lines @ rest) initial_reader = Inl e" for rest
    using k by (simp add: take_Suc_conv_app_nth read_lines_append)
  moreover have "length (rd_ops st (rd_section st)) = length (section_ops (parsed_of mode st) (rd_section st))"
    by (cases "rd_section st") (simp_all add: section_ops_def parsed_of_def)
  ultimately show ?thesis
    using k(1,2) clean
    by (intro exI [of _ k] exI [of _ "provenance_at st (k + 1) clean"] exI [of _ "parsed_of mode st"])
      (simp add: from_lines_with_branch_mode_def provenance_at_def)
qed

theorem from_lines_errors_located_witness:
  "\<exists>e p. from_lines_with_branch_mode [''f:'', '' mv a9, a0 # x'', ''ret''] Conservative = Inl e
     \<and> err_kind e = UnknownRegister ''a9'' \<and> from_lines_with_branch_mode [''f:''] Conservative = Inr p
     \<and> err_asm e = Some \<lparr>prov_line = 2, prov_text = ''mv a9, a0'', prov_section = Text,
         prov_op_index = length (text_ops p)\<rparr>
     \<and> (\<forall>rest. from_lines_with_branch_mode ([''f:'', '' mv a9, a0 # x''] @ rest) Conservative = Inl e)"
proof -
  let ?e = "\<lparr>err_kind = UnknownRegister ''a9'', err_code = None,
          err_asm = Some \<lparr>prov_line = 2, prov_text = ''mv a9, a0'', prov_section = Text, prov_op_index = 1\<rparr>\<rparr>"
  have e: "from_lines_with_branch_mode [''f:'', '' mv a9, a0 # x'', ''ret''] Conservative = Inl ?e"
    by (simp add: eval_simps attach_def cong: rbind_weak_cong)
  from from_lines_errors_located [OF e] obtain k prov p where k: "err_asm ?e = Some prov" "prov_line prov = k + 1"
    "from_lines_with_branch_mode (take k [''f:'', '' mv a9, a0 # x'', ''ret'']) Conservative = Inr p"
    "prov_op_index prov = length (section_ops p (prov_section prov))"
    "\<forall>rest. from_lines_with_branch_mode (take (Suc k) [''f:'', '' mv a9, a0 # x'', ''ret''] @ rest) Conservative = Inl ?e"
    by blast
  from k(1) have prov: "prov = \<lparr>prov_line = 2, prov_text = ''mv a9, a0'', prov_section = Text, prov_op_index = 1\<rparr>"
    by simp
  with k(2) have "k = 1" by simp
  with k(3,5) have "from_lines_with_branch_mode [''f:''] Conservative = Inr p"
    "\<forall>rest. from_lines_with_branch_mode ([''f:'', '' mv a9, a0 # x''] @ rest) Conservative = Inl ?e" by simp_all
  moreover have "length (text_ops p) = 1" using k(4) prov by (simp add: section_ops_def)
  ultimately show ?thesis using e by (intro exI [of _ ?e] exI [of _ p] conjI) simp_all
qed

end
