(* ===== verification/Elf_Decode.thy ===== *)
theory Elf_Decode
  imports Rv_Encode
begin

text \<open>
  The instruction-level half of the independent checker,
  \<^verbatim>\<open>crates/cellscript-artifact-checker/src/elf.rs\<close>: reads of little-endian fields, the
  allowlist of RV64 words, the decoders of branch, jump and call targets, the rules for writes of
  the stack pointer, and the scan of \<^verbatim>\<open>.text\<close>. An \<^verbatim>\<open>ElfParseError\<close> is modelled by
  its kind; \<open>ElfPanic\<close> stands for an index out of bounds or an overflowing sum, which Rust
  would turn into a panic.
\<close>

unbundle bit_operations_syntax

section \<open>Errors and data\<close>

datatype elf_error_kind =
    Truncated
  | InvalidHeader
  | UnsupportedClass
  | UnsupportedEndian
  | UnsupportedType
  | UnsupportedMachine
  | InvalidTable
  | InvalidSection
  | ProhibitedLinkState
  | MissingText
  | InvalidInstruction
  | InvalidBranchTarget
  | BudgetExceeded

datatype elf_fault = ElfErr elf_error_kind | ElfPanic

type_synonym 'a elf = "elf_fault + 'a"

abbreviation elf_fail :: "elf_error_kind \<Rightarrow> 'a elf" where
  "elf_fail k \<equiv> Inl (ElfErr k)"

record machine_range =
  rng_start :: nat
  rng_end :: nat

definition range_len :: "machine_range \<Rightarrow> nat" where
  "range_len r = saturating_sub_u64 (rng_end r) (rng_start r)"

definition range_is_empty :: "machine_range \<Rightarrow> bool" where
  "range_is_empty r \<longleftrightarrow> rng_start r = rng_end r"

definition range_contains :: "machine_range \<Rightarrow> nat \<Rightarrow> bool" where
  "range_contains r address \<longleftrightarrow> rng_start r \<le> address \<and> address < rng_end r"

definition range_contains_range :: "machine_range \<Rightarrow> machine_range \<Rightarrow> bool" where
  "range_contains_range r other \<longleftrightarrow> rng_start r \<le> rng_start other \<and> rng_end other \<le> rng_end r"

datatype control_flow_kind = ConditionalBranch | DirectJump

record decoded_control_flow =
  flow_address :: nat
  flow_target :: nat
  flow_kind :: control_flow_kind

record decoded_instruction =
  inst_address :: nat
  inst_word :: u32

record stack_adjustment =
  adj_address :: nat
  adj_delta :: int

record decoded_text =
  dt_instructions :: "decoded_instruction list"
  dt_stack_adjustments :: "stack_adjustment list"
  dt_syscall_addresses :: "nat list"
  dt_control_flow :: "decoded_control_flow list"

section \<open>Field reads\<close>

definition read_u16 :: "byte list \<Rightarrow> nat \<Rightarrow> nat elf" where
  "read_u16 bytes offset =
     (case get_range bytes offset (offset + 2) of
        None \<Rightarrow> elf_fail Truncated
      | Some bs \<Rightarrow> Ok (le_to_nat bs))"

definition read_u32 :: "byte list \<Rightarrow> nat \<Rightarrow> u32 elf" where
  "read_u32 bytes offset =
     (case get_range bytes offset (offset + 4) of
        None \<Rightarrow> elf_fail Truncated
      | Some bs \<Rightarrow> Ok (u32_of_le bs))"

definition read_u64 :: "byte list \<Rightarrow> nat \<Rightarrow> nat elf" where
  "read_u64 bytes offset =
     (case get_range bytes offset (offset + 8) of
        None \<Rightarrow> elf_fail Truncated
      | Some bs \<Rightarrow> Ok (le_to_nat bs))"

section \<open>Decoders\<close>

definition saturating_add_i64 :: "int \<Rightarrow> int \<Rightarrow> int" where
  "saturating_add_i64 a b = max (- (2 ^ 63)) (min (2 ^ 63 - 1) (a + b))"

definition sign_extend :: "u32 \<Rightarrow> nat \<Rightarrow> int" where
  "sign_extend value bits = (let shift = 64 - bits in i64_shr (i64_shl (uint value) shift) shift)"

definition add_signed :: "nat \<Rightarrow> int \<Rightarrow> nat" where
  "add_signed base offset =
     (if offset \<ge> 0 then saturating_add_u64 base (nat offset)
      else saturating_sub_u64 base (nat (- offset)))"

definition branch_target :: "nat \<Rightarrow> u32 \<Rightarrow> nat" where
  "branch_target address word =
     (let immediate = push_bit 12 (drop_bit 31 word AND 0x1) OR push_bit 11 (drop_bit 7 word AND 0x1)
            OR push_bit 5 (drop_bit 25 word AND 0x3f) OR push_bit 1 (drop_bit 8 word AND 0xf)
      in add_signed address (sign_extend immediate 13))"

definition jal_target :: "nat \<Rightarrow> u32 \<Rightarrow> nat" where
  "jal_target address word =
     (let immediate = push_bit 20 (drop_bit 31 word AND 0x1) OR push_bit 12 (drop_bit 12 word AND 0xff)
            OR push_bit 11 (drop_bit 20 word AND 0x1) OR push_bit 1 (drop_bit 21 word AND 0x3ff)
      in add_signed address (sign_extend immediate 21))"

definition opcode_writes_rd :: "u32 \<Rightarrow> bool" where
  "opcode_writes_rd opcode \<longleftrightarrow> opcode \<in> {0x03, 0x13, 0x17, 0x1b, 0x33, 0x37, 0x3b, 0x67, 0x6f}"

definition instruction_is_allowed :: "u32 \<Rightarrow> bool" where
  "instruction_is_allowed word =
     (let opcode = word AND 0x7f; rd = drop_bit 7 word AND 0x1f; funct3 = drop_bit 12 word AND 0x7;
          funct7 = drop_bit 25 word AND 0x7f; funct6 = drop_bit 26 word AND 0x3f
      in if opcode = 0x03 then funct3 \<in> {3, 4}
         else if opcode = 0x13 then
           (if funct3 \<in> {0, 4, 6, 7} then True
            else if funct3 = 1 then funct6 = 0
            else if funct3 = 3 then drop_bit 20 word = 1
            else if funct3 = 5 then funct6 \<in> {0, 0x10, 0x18}
            else False)
         else if opcode \<in> {0x17, 0x37} then True
         else if opcode = 0x6f then rd \<in> {0, 1}
         else if opcode = 0x1b then
           (if funct3 = 0 then True
            else if funct3 = 1 then funct7 = 0
            else if funct3 = 5 then funct7 \<in> {0, 0x20, 0x30}
            else False)
         else if opcode = 0x23 then funct3 \<in> {0, 1, 2, 3}
         else if opcode = 0x33 then
           (if funct7 \<in> {0, 1} then True
            else if funct7 = 0x20 then funct3 \<in> {0, 5}
            else False)
         else if opcode = 0x3b then
           (if funct7 = 0 then funct3 \<in> {0, 1, 5}
            else if funct7 = 1 then funct3 \<in> {0, 4, 5, 6, 7}
            else if funct7 = 0x20 then funct3 \<in> {0, 5}
            else False)
         else if opcode = 0x63 then \<not> funct3 \<in> {2, 3}
         else if opcode = 0x67 then funct3 = 0
         else if opcode = 0x73 then word = 0x00000073
         else False)"

text \<open>The word at an index; the product of an index into a vector does not overflow.\<close>

definition instruction_word :: "byte list \<Rightarrow> nat \<Rightarrow> u32 elf" where
  "instruction_word bytes index = read_u32 bytes (index * 4)"

definition decode_call_target :: "byte list \<Rightarrow> nat \<Rightarrow> u32 \<Rightarrow> nat \<Rightarrow> nat elf" where
  "decode_call_target bytes index word address =
     (let rd = drop_bit 7 word AND 0x1f; funct3 = drop_bit 12 word AND 0x7;
          rs1 = drop_bit 15 word AND 0x1f
      in if rd \<noteq> 1 \<or> rs1 \<noteq> 1 \<or> funct3 \<noteq> 0 \<or> index = 0 then elf_fail InvalidInstruction
         else rbind (instruction_word bytes (index - 1)) (\<lambda>previous.
           if previous AND 0x7f \<noteq> 0x17 \<or> drop_bit 7 previous AND 0x1f \<noteq> 1
           then elf_fail InvalidInstruction
           else if address < 4 then Inl ElfPanic
           else let high = sign_extend (previous AND 0xfffff000) 32;
                    low = sign_extend (drop_bit 20 word) 12
                in Ok (nat (int (add_signed (address - 4) (saturating_add_i64 high low)) AND NOT 1))))"

definition preceding_frame_constant :: "byte list \<Rightarrow> nat \<Rightarrow> u32 \<Rightarrow> int option" where
  "preceding_frame_constant bytes index register =
     (if index = 0 \<or> register \<in> {0, 2} then None
      else case instruction_word bytes (index - 1) of
        Inl _ \<Rightarrow> None
      | Inr addi \<Rightarrow>
          if addi AND 0x7f = 0x37 \<and> drop_bit 7 addi AND 0x1f = register
          then Some (sign_extend (addi AND 0xfffff000) 32)
          else if index < 2 then None
          else case instruction_word bytes (index - 2) of
            Inl _ \<Rightarrow> None
          | Inr lui \<Rightarrow>
              if addi AND 0x7f \<noteq> 0x13 \<or> drop_bit 12 addi AND 0x7 \<noteq> 0
                \<or> drop_bit 7 addi AND 0x1f \<noteq> register \<or> drop_bit 15 addi AND 0x1f \<noteq> register
                \<or> lui AND 0x7f \<noteq> 0x37 \<or> drop_bit 7 lui AND 0x1f \<noteq> register
              then None
              else Some (saturating_add_i64 (sign_extend (lui AND 0xfffff000) 32)
                           (sign_extend (drop_bit 20 addi) 12)))"

text \<open>The vector of adjustments is passed in and returned with the new one pushed.\<close>

definition validate_stack_pointer_write ::
  "byte list \<Rightarrow> nat \<Rightarrow> u32 \<Rightarrow> nat \<Rightarrow> stack_adjustment list \<Rightarrow> stack_adjustment list elf" where
  "validate_stack_pointer_write bytes index word address adjustments =
     (let opcode = word AND 0x7f; rd = drop_bit 7 word AND 0x1f
      in if rd \<noteq> 2 \<or> \<not> opcode_writes_rd opcode then Ok adjustments
         else let rs1 = drop_bit 15 word AND 0x1f; funct3 = drop_bit 12 word AND 0x7
           in if opcode = 0x13 \<and> funct3 = 0 \<and> rs1 = 2
              then Ok (adjustments @
                [\<lparr>adj_address = address, adj_delta = sign_extend (drop_bit 20 word) 12\<rparr>])
              else let rs2 = drop_bit 20 word AND 0x1f
                in if opcode = 0x33 \<and> funct3 = 0 \<and> drop_bit 25 word AND 0x7f = 0 \<and> rs1 = 2
                   then rbind (ok_or (ElfErr InvalidInstruction)
                                (preceding_frame_constant bytes index rs2)) (\<lambda>delta.
                     Ok (adjustments @ [\<lparr>adj_address = address, adj_delta = delta\<rparr>]))
                   else elf_fail InvalidInstruction)"

section \<open>The scan of the text section\<close>

text \<open>
  The loop state of \<^verbatim>\<open>validate_instructions\<close>: the four vectors it fills and the marker of an
  \<^verbatim>\<open>auipc ra\<close> that no call has consumed.
\<close>

record scan_state =
  scan_text :: decoded_text
  scan_unconsumed :: bool

definition scan_target :: "byte list \<Rightarrow> nat \<Rightarrow> u32 \<Rightarrow> nat \<Rightarrow> (nat \<times> control_flow_kind) option elf" where
  "scan_target bytes index word address =
     (let opcode = word AND 0x7f
      in if opcode = 0x63 then Ok (Some (branch_target address word, ConditionalBranch))
         else if opcode = 0x6f then Ok (Some (jal_target address word, DirectJump))
         else if opcode = 0x67 \<and> word \<noteq> 0x00008067
           then rbind (decode_call_target bytes index word address) (\<lambda>t. Ok (Some (t, DirectJump)))
         else Ok None)"

definition scan_marker :: "u32 \<Rightarrow> bool \<Rightarrow> bool" where
  "scan_marker word unconsumed =
     (let opcode = word AND 0x7f; rd = drop_bit 7 word AND 0x1f; rs1 = drop_bit 15 word AND 0x1f
      in if opcode = 0x17 \<and> rd = 1 then True
         else if (opcode = 0x67 \<and> rs1 = 1) \<or> rd = 1 then False
         else unconsumed)"

definition scan_instruction ::
  "byte list \<Rightarrow> nat \<Rightarrow> machine_range \<Rightarrow> nat \<Rightarrow> u32 \<Rightarrow> scan_state \<Rightarrow> scan_state elf" where
  "scan_instruction bytes base text_range index word st =
     (let address = base + index * 4; dt = scan_text st
      in if \<not> address < 2 ^ 64 then Inl ElfPanic
         else if \<not> instruction_is_allowed word then elf_fail InvalidInstruction
         else rbind (validate_stack_pointer_write bytes index word address (dt_stack_adjustments dt))
           (\<lambda>adjs.
             if word = 0x00008067 \<and> scan_unconsumed st then elf_fail InvalidInstruction
             else rbind (scan_target bytes index word address) (\<lambda>target.
               let dt' = dt\<lparr>dt_instructions := dt_instructions dt @
                              [\<lparr>inst_address = address, inst_word = word\<rparr>],
                            dt_stack_adjustments := adjs,
                            dt_syscall_addresses := dt_syscall_addresses dt @
                              (if word = 0x00000073 then [address] else [])\<rparr>;
                   st' = \<lparr>scan_text = dt', scan_unconsumed = scan_marker word (scan_unconsumed st)\<rparr>
               in case target of
                    None \<Rightarrow> Ok st'
                  | Some (t, kind) \<Rightarrow>
                      if t mod 4 \<noteq> 0 \<or> \<not> range_contains text_range t
                      then elf_fail InvalidBranchTarget
                      else Ok (st'\<lparr>scan_text := dt'\<lparr>dt_control_flow := dt_control_flow dt @
                             [\<lparr>flow_address = address, flow_target = t, flow_kind = kind\<rparr>]\<rparr>\<rparr>))))"

fun scan_chunks ::
  "byte list \<Rightarrow> nat \<Rightarrow> machine_range \<Rightarrow> nat \<Rightarrow> byte list list \<Rightarrow> scan_state \<Rightarrow> scan_state elf" where
  "scan_chunks bytes base text_range index [] st = Ok st"
| "scan_chunks bytes base text_range index (chunk # chunks) st =
     rbind (scan_instruction bytes base text_range index (u32_of_le chunk) st)
       (scan_chunks bytes base text_range (Suc index) chunks)"

definition empty_text :: decoded_text where
  "empty_text = \<lparr>dt_instructions = [], dt_stack_adjustments = [], dt_syscall_addresses = [],
                 dt_control_flow = []\<rparr>"

definition validate_instructions :: "byte list \<Rightarrow> nat \<Rightarrow> machine_range \<Rightarrow> decoded_text elf" where
  "validate_instructions bytes base text_range =
     rbind (scan_chunks bytes base text_range 0 (chunks_exact 4 bytes)
              \<lparr>scan_text = empty_text, scan_unconsumed = False\<rparr>)
       (\<lambda>st. Ok (scan_text st))"

section \<open>Decoders invert encoders\<close>

lemma sign_extend_take_bit:
  assumes "signed_bits_fit v k" "0 < k" "k \<le> 32"
  shows "sign_extend (take_bit k (word_of_int v)) k = v"
proof -
  have u: "uint (take_bit k (word_of_int v) :: u32) = take_bit k v"
    using assms(3) by (simp add: unsigned_take_bit_eq uint_word_of_int_eq min_def)
  have fit: "- (2 ^ (k - 1)) \<le> v" "v < 2 ^ (k - 1)"
    using assms(1) by (simp_all add: signed_bits_fit_def Let_def)
  have "sign_extend (take_bit k (word_of_int v)) k = signed_take_bit (k - 1) (take_bit k v)"
    using assms(2,3) by (simp add: sign_extend_def u i64_shl_shr)
  also have "\<dots> = v"
    using fit assms(2) by (auto simp: signed_take_bit_take_bit signed_take_bit_int_eq_self)
  finally show ?thesis .
qed

lemma add_signed_exact:
  "int base + offset = int t \<Longrightarrow> t < 2 ^ 64 \<Longrightarrow> add_signed base offset = t"
  by (auto simp: add_signed_def saturating_add_u64_def saturating_sub_u64_def)

lemma branch_target_encode:
  assumes "encode_b_type opcode funct3 rs1 rs2 d = Inr w" "bits_below 7 opcode" "bits_below 3 funct3"
    "bits_below 5 rs1" "bits_below 5 rs2" "int pc + d = int t" "t < 2 ^ 64"
  shows "branch_target pc w = t"
proof -
  note f = b_type_fields [OF assms(2-5,1)]
  show ?thesis
    unfolding branch_target_def Let_def f(5)
    using assms(6,7) sign_extend_take_bit [OF f(6)] by (simp add: add_signed_exact)
qed

lemma jal_target_encode:
  assumes "encode_j_type opcode rd d = Inr w" "bits_below 7 opcode" "bits_below 5 rd"
    "int pc + d = int t" "t < 2 ^ 64"
  shows "jal_target pc w = t"
proof -
  note f = j_type_fields [OF assms(2,3,1)]
  show ?thesis
    unfolding jal_target_def Let_def f(3)
    using assms(4,5) sign_extend_take_bit [OF f(4)] by (simp add: add_signed_exact)
qed

text \<open>The upper immediate of LUI and AUIPC, read as a signed 32-bit value.\<close>

lemma and_upper_mask: "(w :: u32) AND 0xfffff000 = push_bit 12 (drop_bit 12 w)"
proof -
  have m: "(0xfffff000 :: u32) = NOT (mask 12)" by (simp add: mask_eq_exp_minus_1)
  show ?thesis unfolding m by (rule bit_word_eqI) (auto simp: bit_simps)
qed

lemma upper_immediate_encode:
  assumes "bits_below 7 opcode" "bits_below 5 rd" "- 0x80000 \<le> hi" "hi \<le> 0x7ffff"
  shows "sign_extend (encode_u_type opcode rd hi AND 0xfffff000) 32 = hi * 4096"
proof -
  have "push_bit 12 (take_bit 20 (word_of_int hi)) = (word_of_int (hi * 4096) :: u32)"
  proof -
    have "push_bit 12 (word_of_int hi) = (word_of_int (hi * 4096) :: u32)"
      by (simp add: push_bit_eq_mult)
    moreover have "push_bit 12 (take_bit 20 x) = push_bit 12 x" for x :: u32
      by (rule bit_word_eqI) (auto simp: bit_simps)
    ultimately show ?thesis by simp
  qed
  moreover have "signed_bits_fit (hi * 4096) 32"
    using assms(3,4) by (simp add: signed_bits_fit_def)
  from sign_extend_take_bit [OF this]
  have "sign_extend (word_of_int (hi * 4096)) 32 = hi * 4096"
    by (simp add: take_bit_word_eq_self)
  ultimately show ?thesis
    by (simp add: and_upper_mask u_type_fields(3) [OF assms(1,2) refl])
qed

lemma i_immediate_encode:
  assumes "encode_i_type opcode rd funct3 rs1 imm = Inr w"
    "bits_below 7 opcode" "bits_below 5 rd" "bits_below 3 funct3" "bits_below 5 rs1"
  shows "sign_extend (drop_bit 20 w) 12 = imm"
  using i_type_fields(5,6) [OF assms(2-5,1)] by (simp add: sign_extend_take_bit)

section \<open>What an accepted text section looks like\<close>

definition text_words :: "byte list \<Rightarrow> u32 list" where
  "text_words bytes = map u32_of_le (chunks_exact 4 bytes)"

lemma length_text_words: "length (text_words bytes) = length bytes div 4"
  by (simp add: text_words_def length_chunks_exact)

lemma u32_le_text_words:
  "i < length bytes div 4 \<Longrightarrow> u32_le (text_words bytes ! i) = take 4 (drop (i * 4) bytes)"
  by (simp add: text_words_def length_chunks_exact nth_chunks_exact u32_le_u32_of_le)

text \<open>Words that are neither a return nor touch \<^verbatim>\<open>ra\<close> leave the marker as it is.\<close>

definition sets_marker :: "u32 \<Rightarrow> bool" where
  "sets_marker w \<longleftrightarrow> w AND 0x7f = 0x17 \<and> drop_bit 7 w AND 0x1f = 1"

definition clears_marker :: "u32 \<Rightarrow> bool" where
  "clears_marker w \<longleftrightarrow> \<not> sets_marker w \<and>
     (w AND 0x7f = 0x67 \<and> drop_bit 15 w AND 0x1f = 1 \<or> drop_bit 7 w AND 0x1f = 1)"

lemma scan_marker_eq:
  "scan_marker w u \<longleftrightarrow> sets_marker w \<or> u \<and> \<not> clears_marker w"
  by (auto simp: scan_marker_def sets_marker_def clears_marker_def Let_def)

lemma scan_chunks_induct:
  assumes "scan_chunks bytes base r i cs st = Inr st'" "P i st"
    and "\<And>j s s'. i \<le> j \<Longrightarrow> j < i + length cs \<Longrightarrow> P j s \<Longrightarrow>
           scan_instruction bytes base r j (u32_of_le (cs ! (j - i))) s = Inr s' \<Longrightarrow> P (Suc j) s'"
  shows "P (i + length cs) st'"
  using assms
proof (induction cs arbitrary: i st)
  case (Cons c cs)
  from Cons.prems(1) obtain s where
    s: "scan_instruction bytes base r i (u32_of_le c) st = Inr s"
    and rest: "scan_chunks bytes base r (Suc i) cs s = Inr st'" by auto
  have "P (Suc i) s" using Cons.prems(2) Cons.prems(3) [of i st s] s by simp
  from Cons.IH [OF rest this] have "P (Suc i + length cs) st'"
    using Cons.prems(3) by (simp add: Suc_diff_le nth_Cons')
  then show ?case by simp
qed simp

text \<open>The control transfer a scan records for the word at index \<open>i\<close>.\<close>

definition flows_of :: "byte list \<Rightarrow> nat \<Rightarrow> nat \<Rightarrow> u32 \<Rightarrow> decoded_control_flow list" where
  "flows_of bytes base i w =
     (case scan_target bytes i w (base + i * 4) of
        Inr (Some (t, k)) \<Rightarrow> [\<lparr>flow_address = base + i * 4, flow_target = t, flow_kind = k\<rparr>]
      | _ \<Rightarrow> [])"

text \<open>The stack adjustment it records, which does not depend on those recorded before.\<close>

definition adjs_of :: "byte list \<Rightarrow> nat \<Rightarrow> nat \<Rightarrow> u32 \<Rightarrow> stack_adjustment list" where
  "adjs_of bytes base i w =
     (case validate_stack_pointer_write bytes i w (base + i * 4) [] of Inr b \<Rightarrow> b | Inl _ \<Rightarrow> [])"

lemma validate_stack_pointer_write_append:
  assumes "validate_stack_pointer_write bytes i w (base + i * 4) a = Inr b"
  shows "b = a @ adjs_of bytes base i w"
    "is_ok (validate_stack_pointer_write bytes i w (base + i * 4) [])"
  using assms unfolding validate_stack_pointer_write_def adjs_of_def Let_def ok_or_def
  by (auto split: if_splits option.splits)

text \<open>One accepted step, field by field.\<close>

lemma scan_instruction_Ok:
  assumes "scan_instruction bytes base r i w s = Inr s'"
  shows "base + i * 4 < 2 ^ 64" "instruction_is_allowed w"
    "\<not> (w = 0x00008067 \<and> scan_unconsumed s)"
    "scan_unconsumed s' = scan_marker w (scan_unconsumed s)"
    "dt_instructions (scan_text s') = dt_instructions (scan_text s) @
       [\<lparr>inst_address = base + i * 4, inst_word = w\<rparr>]"
    "dt_syscall_addresses (scan_text s') = dt_syscall_addresses (scan_text s) @
       (if w = 0x00000073 then [base + i * 4] else [])"
    "validate_stack_pointer_write bytes i w (base + i * 4) (dt_stack_adjustments (scan_text s))
       = Inr (dt_stack_adjustments (scan_text s'))"
    "is_ok (scan_target bytes i w (base + i * 4))"
    "dt_control_flow (scan_text s') = dt_control_flow (scan_text s) @ flows_of bytes base i w"
    "\<forall>f\<in>set (flows_of bytes base i w). flow_target f mod 4 = 0 \<and> range_contains r (flow_target f)"
  using assms unfolding scan_instruction_def Let_def flows_of_def
  by (auto split: if_splits option.splits)

text \<open>
  The declared content of a scan result after the first \<open>n\<close> words: which instructions, system
  calls and control transfers it lists.
\<close>

definition scanned :: "byte list \<Rightarrow> nat \<Rightarrow> machine_range \<Rightarrow> nat \<Rightarrow> scan_state \<Rightarrow> bool" where
  "scanned bytes base r n s \<longleftrightarrow>
     dt_instructions (scan_text s) =
       map (\<lambda>i. \<lparr>inst_address = base + i * 4, inst_word = text_words bytes ! i\<rparr>) [0..<n] \<and>
     dt_syscall_addresses (scan_text s) =
       map (\<lambda>i. base + i * 4) (filter (\<lambda>i. text_words bytes ! i = 0x00000073) [0..<n]) \<and>
     dt_stack_adjustments (scan_text s) =
       concat (map (\<lambda>i. adjs_of bytes base i (text_words bytes ! i)) [0..<n]) \<and>
     dt_control_flow (scan_text s) =
       concat (map (\<lambda>i. flows_of bytes base i (text_words bytes ! i)) [0..<n]) \<and>
     (\<forall>i<n. instruction_is_allowed (text_words bytes ! i) \<and> base + i * 4 < 2 ^ 64 \<and>
        is_ok (scan_target bytes i (text_words bytes ! i) (base + i * 4)) \<and>
        is_ok (validate_stack_pointer_write bytes i (text_words bytes ! i) (base + i * 4) [])) \<and>
     (\<forall>f\<in>set (dt_control_flow (scan_text s)).
        flow_target f mod 4 = 0 \<and> range_contains r (flow_target f)) \<and>
     (scan_unconsumed s \<longleftrightarrow> (\<exists>k<n. sets_marker (text_words bytes ! k) \<and>
        (\<forall>m. k < m \<and> m < n \<longrightarrow> \<not> clears_marker (text_words bytes ! m)))) \<and>
     (\<forall>j<n. text_words bytes ! j = 0x00008067 \<longrightarrow>
        (\<forall>k<j. sets_marker (text_words bytes ! k) \<longrightarrow>
           (\<exists>m. k < m \<and> m < j \<and> clears_marker (text_words bytes ! m))))"

lemma scanned_empty: "scanned bytes base r 0 \<lparr>scan_text = empty_text, scan_unconsumed = False\<rparr>"
  by (simp add: scanned_def empty_text_def)

lemma scanned_step:
  assumes P: "scanned bytes base r n s"
    and step: "scan_instruction bytes base r n (text_words bytes ! n) s = Inr s'"
  shows "scanned bytes base r (Suc n) s'"
proof -
  let ?w = "\<lambda>i. text_words bytes ! i"
  note ok = scan_instruction_Ok [OF step]
  note adj = validate_stack_pointer_write_append [OF ok(7)]
  note P' = P [unfolded scanned_def]
  have unconsumed: "scan_unconsumed s \<longleftrightarrow>
      (\<exists>k<n. sets_marker (?w k) \<and> (\<forall>m. k < m \<and> m < n \<longrightarrow> \<not> clears_marker (?w m)))"
    using P' by blast
  have "scan_unconsumed s' \<longleftrightarrow> sets_marker (?w n) \<or> scan_unconsumed s \<and> \<not> clears_marker (?w n)"
    by (simp only: ok(4) scan_marker_eq)
  then have u: "scan_unconsumed s' \<longleftrightarrow>
      (\<exists>k<Suc n. sets_marker (?w k) \<and> (\<forall>m. k < m \<and> m < Suc n \<longrightarrow> \<not> clears_marker (?w m)))"
    unfolding unconsumed by (auto simp: less_Suc_eq)
  have ret: "\<forall>j<Suc n. ?w j = 0x00008067 \<longrightarrow> (\<forall>k<j. sets_marker (?w k) \<longrightarrow>
      (\<exists>m. k < m \<and> m < j \<and> clears_marker (?w m)))"
  proof (intro allI impI)
    fix j k
    assume "j < Suc n" and j: "?w j = 0x00008067" "k < j" "sets_marker (?w k)"
    then consider "j < n" | "j = n" by linarith
    then show "\<exists>m. k < m \<and> m < j \<and> clears_marker (?w m)"
    proof cases
      case 1
      with P' j show ?thesis by blast
    next
      case 2
      with ok(3) j have "\<not> scan_unconsumed s" by blast
      with unconsumed j 2 show ?thesis by blast
    qed
  qed
  show ?thesis
    unfolding scanned_def using P' ok adj u ret
    by (simp add: less_Suc_eq all_conj_distrib ball_Un)
qed

lemma validate_instructions_scanned:
  assumes "validate_instructions bytes base r = Inr dt"
  obtains s where "scanned bytes base r (length (text_words bytes)) s" "scan_text s = dt"
proof -
  from assms obtain s where
    run: "scan_chunks bytes base r 0 (chunks_exact 4 bytes)
            \<lparr>scan_text = empty_text, scan_unconsumed = False\<rparr> = Inr s" and dt: "scan_text s = dt"
    by (auto simp: validate_instructions_def)
  have "scanned bytes base r (0 + length (chunks_exact 4 bytes)) s"
    by (rule scan_chunks_induct [OF run])
      (auto simp: scanned_empty text_words_def intro!: scanned_step)
  with dt show thesis by (intro that [of s]) (simp_all add: text_words_def)
qed

lemma instruction_word_text:
  assumes "i < length bytes div 4"
  shows "instruction_word bytes i = Inr (text_words bytes ! i)"
proof -
  have "i * 4 + 4 \<le> length bytes" using assms by linarith
  then show ?thesis
    using assms by (simp add: instruction_word_def read_u32_def get_range_def text_words_def
        length_chunks_exact nth_chunks_exact)
qed

text \<open>The call target an accepted \<^verbatim>\<open>jalr\<close> has: the sum of the two immediates, bit 0 cleared.\<close>

definition call_pair_target :: "nat \<Rightarrow> u32 \<Rightarrow> u32 \<Rightarrow> nat" where
  "call_pair_target address previous word =
     nat (int (add_signed (address - 4)
       (saturating_add_i64 (sign_extend (previous AND 0xfffff000) 32)
          (sign_extend (drop_bit 20 word) 12))) AND NOT 1)"

lemma decode_call_target_Ok:
  assumes "decode_call_target bytes i w a = Inr t" "i < length bytes div 4"
  shows "0 < i" "drop_bit 7 w AND 0x1f = 1" "drop_bit 15 w AND 0x1f = 1"
    "text_words bytes ! (i - 1) AND 0x7f = 0x17" "drop_bit 7 (text_words bytes ! (i - 1)) AND 0x1f = 1"
    "t = call_pair_target a (text_words bytes ! (i - 1)) w"
proof -
  have "instruction_word bytes (i - 1) = Inr (text_words bytes ! (i - 1))"
    using assms(2) by (intro instruction_word_text) simp
  with assms(1) show "0 < i" "drop_bit 7 w AND 0x1f = 1" "drop_bit 15 w AND 0x1f = 1"
    "text_words bytes ! (i - 1) AND 0x7f = 0x17" "drop_bit 7 (text_words bytes ! (i - 1)) AND 0x1f = 1"
    "t = call_pair_target a (text_words bytes ! (i - 1)) w"
    by (simp_all add: decode_call_target_def call_pair_target_def Let_def split: if_splits)
qed

lemma scanned_flow:
  assumes "scanned bytes base r n s" "i < n" "n \<le> length bytes div 4"
  shows "text_words bytes ! i AND 0x7f = 0x63 \<Longrightarrow>
      \<lparr>flow_address = base + i * 4, flow_target = branch_target (base + i * 4) (text_words bytes ! i),
       flow_kind = ConditionalBranch\<rparr> \<in> set (dt_control_flow (scan_text s))"
    "text_words bytes ! i AND 0x7f = 0x6f \<Longrightarrow>
      \<lparr>flow_address = base + i * 4, flow_target = jal_target (base + i * 4) (text_words bytes ! i),
       flow_kind = DirectJump\<rparr> \<in> set (dt_control_flow (scan_text s))"
    "text_words bytes ! i AND 0x7f = 0x67 \<Longrightarrow> text_words bytes ! i \<noteq> 0x00008067 \<Longrightarrow>
      0 < i \<and> text_words bytes ! (i - 1) AND 0x7f = 0x17
      \<and> drop_bit 7 (text_words bytes ! (i - 1)) AND 0x1f = 1
      \<and> \<lparr>flow_address = base + i * 4,
         flow_target = call_pair_target (base + i * 4) (text_words bytes ! (i - 1)) (text_words bytes ! i),
         flow_kind = DirectJump\<rparr> \<in> set (dt_control_flow (scan_text s))"
proof -
  let ?w = "text_words bytes ! i"
  have mem: "f \<in> set (dt_control_flow (scan_text s))" if "f \<in> set (flows_of bytes base i ?w)" for f
    using assms(1,2) that by (auto simp: scanned_def)
  show "?w AND 0x7f = 0x63 \<Longrightarrow>
      \<lparr>flow_address = base + i * 4, flow_target = branch_target (base + i * 4) ?w,
       flow_kind = ConditionalBranch\<rparr> \<in> set (dt_control_flow (scan_text s))"
    by (rule mem) (simp add: flows_of_def scan_target_def)
  show "?w AND 0x7f = 0x6f \<Longrightarrow>
      \<lparr>flow_address = base + i * 4, flow_target = jal_target (base + i * 4) ?w,
       flow_kind = DirectJump\<rparr> \<in> set (dt_control_flow (scan_text s))"
    by (rule mem) (simp add: flows_of_def scan_target_def)
  assume call: "?w AND 0x7f = 0x67" "?w \<noteq> 0x00008067"
  have "is_ok (scan_target bytes i ?w (base + i * 4))"
    using assms(1,2) by (auto simp: scanned_def)
  with call obtain t where t: "decode_call_target bytes i ?w (base + i * 4) = Inr t"
    by (auto simp: scan_target_def is_ok_iff)
  have "i < length bytes div 4" using assms(2,3) by simp
  note d = decode_call_target_Ok [OF t this]
  have "\<lparr>flow_address = base + i * 4, flow_target = t, flow_kind = DirectJump\<rparr>
      \<in> set (dt_control_flow (scan_text s))"
    using call t by (intro mem) (simp add: flows_of_def scan_target_def)
  with d show "0 < i \<and> text_words bytes ! (i - 1) AND 0x7f = 0x17
      \<and> drop_bit 7 (text_words bytes ! (i - 1)) AND 0x1f = 1
      \<and> \<lparr>flow_address = base + i * 4,
         flow_target = call_pair_target (base + i * 4) (text_words bytes ! (i - 1)) ?w,
         flow_kind = DirectJump\<rparr> \<in> set (dt_control_flow (scan_text s))" by simp
qed

text \<open>
  The words that write the stack pointer, after the instruction formats: bits 7 to 11 name the
  destination register in every format except those of stores and branches, where they belong to the
  immediate.
\<close>

definition writes_sp :: "u32 \<Rightarrow> bool" where
  "writes_sp w \<longleftrightarrow> drop_bit 7 w AND 0x1f = 2 \<and> w AND 0x7f \<noteq> 0x23 \<and> w AND 0x7f \<noteq> 0x63"

lemma instruction_is_allowed_opcode:
  assumes "instruction_is_allowed w"
  shows "w AND 0x7f \<in> {0x03, 0x13, 0x17, 0x1b, 0x23, 0x33, 0x37, 0x3b, 0x63, 0x67, 0x6f} \<or> w = 0x00000073"
proof (rule ccontr)
  assume "\<not> ?thesis"
  with assms show False by (simp add: instruction_is_allowed_def Let_def split: if_splits)
qed

text \<open>On the allowlist the opcodes with a destination are those the scan takes for writing one.\<close>

lemma allowed_writes_sp:
  assumes "instruction_is_allowed w"
  shows "writes_sp w \<longleftrightarrow> drop_bit 7 w AND 0x1f = 2 \<and> opcode_writes_rd (w AND 0x7f)"
  using instruction_is_allowed_opcode [OF assms] by (auto simp: writes_sp_def opcode_writes_rd_def)

text \<open>
  The displacement of a canonical write: an immediate, or a constant that the words before it put into
  a register.
\<close>

definition sp_delta :: "byte list \<Rightarrow> nat \<Rightarrow> u32 \<Rightarrow> int option" where
  "sp_delta bytes i w =
     (if w AND 0x7f = 0x13 \<and> drop_bit 12 w AND 0x7 = 0 \<and> drop_bit 15 w AND 0x1f = 2
      then Some (sign_extend (drop_bit 20 w) 12)
      else if w AND 0x7f = 0x33 \<and> drop_bit 12 w AND 0x7 = 0 \<and> drop_bit 25 w AND 0x7f = 0
        \<and> drop_bit 15 w AND 0x1f = 2
      then preceding_frame_constant bytes i (drop_bit 20 w AND 0x1f)
      else None)"

lemma adjs_of_eq:
  assumes "is_ok (validate_stack_pointer_write bytes i w (base + i * 4) [])" "instruction_is_allowed w"
  shows "writes_sp w \<Longrightarrow> \<exists>d. sp_delta bytes i w = Some d
      \<and> adjs_of bytes base i w = [\<lparr>adj_address = base + i * 4, adj_delta = d\<rparr>]"
    "\<not> writes_sp w \<Longrightarrow> adjs_of bytes base i w = []"
  using assms(1) unfolding allowed_writes_sp [OF assms(2)]
  by (auto simp: validate_stack_pointer_write_def adjs_of_def sp_delta_def Let_def
      ok_or_def split: if_splits option.splits)

lemma scanned_adjustments:
  assumes "scanned bytes base r n s"
  shows "map adj_address (dt_stack_adjustments (scan_text s)) =
      map (\<lambda>i. base + i * 4) (filter (\<lambda>i. writes_sp (text_words bytes ! i)) [0..<n])"
    "i < n \<Longrightarrow> writes_sp (text_words bytes ! i) \<Longrightarrow> \<exists>d. sp_delta bytes i (text_words bytes ! i) = Some d
      \<and> \<lparr>adj_address = base + i * 4, adj_delta = d\<rparr> \<in> set (dt_stack_adjustments (scan_text s))"
proof -
  let ?adjs = "\<lambda>i. adjs_of bytes base i (text_words bytes ! i)"
  have eq: "dt_stack_adjustments (scan_text s) = concat (map ?adjs [0..<n])"
    and ok: "\<And>i. i < n \<Longrightarrow> is_ok (validate_stack_pointer_write bytes i (text_words bytes ! i) (base + i * 4) [])"
      "\<And>i. i < n \<Longrightarrow> instruction_is_allowed (text_words bytes ! i)"
    using assms by (auto simp: scanned_def)
  have "map adj_address (?adjs i) = (if writes_sp (text_words bytes ! i) then [base + i * 4] else [])"
    if "i < n" for i
    using adjs_of_eq [OF ok(1) [OF that] ok(2) [OF that]] by auto
  then have "map adj_address (concat (map ?adjs xs)) =
      map (\<lambda>i. base + i * 4) (filter (\<lambda>i. writes_sp (text_words bytes ! i)) xs)" if "set xs \<subseteq> {..<n}" for xs
    using that by (induction xs) auto
  then show "map adj_address (dt_stack_adjustments (scan_text s)) =
      map (\<lambda>i. base + i * 4) (filter (\<lambda>i. writes_sp (text_words bytes ! i)) [0..<n])"
    unfolding eq by (simp add: atLeast0LessThan)
  assume i: "i < n" "writes_sp (text_words bytes ! i)"
  from adjs_of_eq(1) [OF ok(1) [OF i(1)] ok(2) [OF i(1)] i(2)] obtain d where "sp_delta bytes i (text_words bytes ! i) = Some d"
    "?adjs i = [\<lparr>adj_address = base + i * 4, adj_delta = d\<rparr>]" by blast
  then show "\<exists>d. sp_delta bytes i (text_words bytes ! i) = Some d
      \<and> \<lparr>adj_address = base + i * 4, adj_delta = d\<rparr> \<in> set (dt_stack_adjustments (scan_text s))"
    using i(1) unfolding eq by (intro exI [of _ d]) force
qed

declare
  range_len_def [eval_simps] range_contains_def [eval_simps] range_contains_range_def [eval_simps]
  read_u16_def [eval_simps] read_u32_def [eval_simps] read_u64_def [eval_simps]
  saturating_add_i64_def [eval_simps] sign_extend_def [eval_simps] add_signed_def [eval_simps]
  branch_target_def [eval_simps] jal_target_def [eval_simps] opcode_writes_rd_def [eval_simps]
  instruction_is_allowed_def [eval_simps] instruction_word_def [eval_simps]
  decode_call_target_def [eval_simps] preceding_frame_constant_def [eval_simps]
  validate_stack_pointer_write_def [eval_simps] scan_target_def [eval_simps]
  scan_marker_def [eval_simps] scan_instruction_def [eval_simps] empty_text_def [eval_simps]
  validate_instructions_def [eval_simps]

end
