(* ===== verification/Rv_Sem.thy ===== *)
theory Rv_Sem
  imports Elf_Decode Asm_Op "HOL-Library.Signed_Division"
begin

text \<open>
  A reference semantics of the RV64 instructions the assembler emits (registers, program counter and
  control flow; loads, stores and system calls are outside), after the RISC-V unprivileged
  specification, and the meaning it gives to encoded instructions: arithmetic instructions compute
  what their mnemonic says, \<^verbatim>\<open>li\<close> loads its literal, \<^verbatim>\<open>la\<close> the address of its symbol,
  \<^verbatim>\<open>call\<close> reaches its target with the return address in \<^verbatim>\<open>ra\<close>, and a relaxed branch
  behaves as the branch it replaces.
\<close>

unbundle bit_operations_syntax

section \<open>Machine\<close>

record rv_state =
  rv_pc :: u64
  rv_regs :: "byte \<Rightarrow> u64"

definition rv_get :: "rv_state \<Rightarrow> byte \<Rightarrow> u64" where
  "rv_get st r = (if r = 0 then 0 else rv_regs st r)"

definition rv_set :: "byte \<Rightarrow> u64 \<Rightarrow> rv_state \<Rightarrow> rv_state" where
  "rv_set r v st = (if r = 0 then st else st\<lparr>rv_regs := (rv_regs st)(r := v)\<rparr>)"

definition rv_goto :: "u64 \<Rightarrow> rv_state \<Rightarrow> rv_state" where
  "rv_goto a st = st\<lparr>rv_pc := a\<rparr>"

definition rv_next :: "rv_state \<Rightarrow> rv_state" where
  "rv_next st = st\<lparr>rv_pc := rv_pc st + 4\<rparr>"

text \<open>Fields of an instruction word.\<close>

definition fld_rd :: "u32 \<Rightarrow> byte" where "fld_rd w = ucast (drop_bit 7 w AND 0x1f)"
definition fld_rs1 :: "u32 \<Rightarrow> byte" where "fld_rs1 w = ucast (drop_bit 15 w AND 0x1f)"
definition fld_rs2 :: "u32 \<Rightarrow> byte" where "fld_rs2 w = ucast (drop_bit 20 w AND 0x1f)"
definition imm_i :: "u32 \<Rightarrow> u64" where "imm_i w = scast (ucast (drop_bit 20 w) :: 12 word)"
definition imm_u :: "u32 \<Rightarrow> u64" where "imm_u w = scast (w AND 0xfffff000)"

definition imm_b :: "u32 \<Rightarrow> u64" where
  "imm_b w = scast (ucast
     (push_bit 12 (drop_bit 31 w AND 0x1) OR push_bit 11 (drop_bit 7 w AND 0x1)
      OR push_bit 5 (drop_bit 25 w AND 0x3f) OR push_bit 1 (drop_bit 8 w AND 0xf)) :: 13 word)"

definition imm_j :: "u32 \<Rightarrow> u64" where
  "imm_j w = scast (ucast
     (push_bit 20 (drop_bit 31 w AND 0x1) OR push_bit 12 (drop_bit 12 w AND 0xff)
      OR push_bit 11 (drop_bit 20 w AND 0x1) OR push_bit 1 (drop_bit 21 w AND 0x3ff)) :: 21 word)"

section \<open>Arithmetic\<close>

definition alu_imm :: "u32 \<Rightarrow> u32 \<Rightarrow> u64 \<Rightarrow> u64 \<Rightarrow> u64 option" where
  "alu_imm funct3 funct6 a imm =
     (let shamt = unat (imm AND 0x3f)
      in if funct3 = 0 then Some (a + imm)
         else if funct3 = 1 \<and> funct6 = 0 then Some (push_bit shamt a)
         else if funct3 = 3 then Some (if a < imm then 1 else 0)
         else if funct3 = 4 then Some (a XOR imm)
         else if funct3 = 5 \<and> funct6 = 0 then Some (drop_bit shamt a)
         else if funct3 = 5 \<and> funct6 = 0x10 then Some (signed_drop_bit shamt a)
         else if funct3 = 5 \<and> funct6 = 0x18 then Some (word_rotr shamt a)
         else if funct3 = 6 then Some (a OR imm)
         else if funct3 = 7 then Some (a AND imm)
         else None)"

definition alu_reg :: "u32 \<Rightarrow> u32 \<Rightarrow> u64 \<Rightarrow> u64 \<Rightarrow> u64 option" where
  "alu_reg funct7 funct3 a b =
     (let shamt = unat (b AND 0x3f)
      in if funct7 = 0 then
           (if funct3 = 0 then Some (a + b)
            else if funct3 = 1 then Some (push_bit shamt a)
            else if funct3 = 2 then Some (if sint a < sint b then 1 else 0)
            else if funct3 = 3 then Some (if a < b then 1 else 0)
            else if funct3 = 4 then Some (a XOR b)
            else if funct3 = 5 then Some (drop_bit shamt a)
            else if funct3 = 6 then Some (a OR b)
            else if funct3 = 7 then Some (a AND b)
            else None)
         else if funct7 = 0x20 then
           (if funct3 = 0 then Some (a - b)
            else if funct3 = 5 then Some (signed_drop_bit shamt a)
            else None)
         else if funct7 = 1 then
           (if funct3 = 0 then Some (a * b)
            else if funct3 = 3 then Some (word_of_int (drop_bit 64 (uint a * uint b)))
            else if funct3 = 4 then Some (if b = 0 then - 1 else word_of_int (sint a sdiv sint b))
            else if funct3 = 5 then Some (if b = 0 then - 1 else a div b)
            else if funct3 = 6 then Some (if b = 0 then a else word_of_int (sint a smod sint b))
            else if funct3 = 7 then Some (if b = 0 then a else a mod b)
            else None)
         else None)"

definition branch_taken :: "u32 \<Rightarrow> u64 \<Rightarrow> u64 \<Rightarrow> bool option" where
  "branch_taken funct3 a b =
     (if funct3 = 0 then Some (a = b)
      else if funct3 = 1 then Some (a \<noteq> b)
      else if funct3 = 4 then Some (sint a < sint b)
      else if funct3 = 5 then Some (\<not> sint a < sint b)
      else if funct3 = 6 then Some (a < b)
      else if funct3 = 7 then Some (\<not> a < b)
      else None)"

section \<open>Execution\<close>

definition exec_word :: "u32 \<Rightarrow> rv_state \<Rightarrow> rv_state option" where
  "exec_word w st =
     (let opcode = w AND 0x7f; funct3 = drop_bit 12 w AND 0x7; rd = fld_rd w;
          a = rv_get st (fld_rs1 w); b = rv_get st (fld_rs2 w)
      in if opcode = 0x13 then
           map_option (\<lambda>v. rv_next (rv_set rd v st)) (alu_imm funct3 (drop_bit 26 w AND 0x3f) a (imm_i w))
         else if opcode = 0x33 then
           map_option (\<lambda>v. rv_next (rv_set rd v st)) (alu_reg (drop_bit 25 w AND 0x7f) funct3 a b)
         else if opcode = 0x1b \<and> funct3 = 5 \<and> drop_bit 25 w AND 0x7f = 0x30 then
           Some (rv_next (rv_set rd
             (scast (word_rotr (unat (drop_bit 20 w AND 0x1f)) (ucast a :: u32))) st))
         else if opcode = 0x37 then Some (rv_next (rv_set rd (imm_u w) st))
         else if opcode = 0x17 then Some (rv_next (rv_set rd (rv_pc st + imm_u w) st))
         else if opcode = 0x63 then
           map_option (\<lambda>t. if t then rv_goto (rv_pc st + imm_b w) st else rv_next st)
             (branch_taken funct3 a b)
         else if opcode = 0x6f then
           Some (rv_goto (rv_pc st + imm_j w) (rv_set rd (rv_pc st + 4) st))
         else if opcode = 0x67 \<and> funct3 = 0 then
           Some (rv_goto ((a + imm_i w) AND NOT 1) (rv_set rd (rv_pc st + 4) st))
         else None)"

text \<open>The program memory gives the word at an address; running fails where there is none.\<close>

definition rv_step :: "(u64 \<Rightarrow> u32 option) \<Rightarrow> rv_state \<Rightarrow> rv_state option" where
  "rv_step code st = Option.bind (code (rv_pc st)) (\<lambda>w. exec_word w st)"

primrec rv_run :: "nat \<Rightarrow> (u64 \<Rightarrow> u32 option) \<Rightarrow> rv_state \<Rightarrow> rv_state option" where
  "rv_run 0 code st = Some st"
| "rv_run (Suc n) code st = Option.bind (rv_step code st) (rv_run n code)"

text \<open>The bytes of an encoded sequence lie in memory from an address on.\<close>

definition loaded :: "(u64 \<Rightarrow> u32 option) \<Rightarrow> u64 \<Rightarrow> byte list \<Rightarrow> bool" where
  "loaded code a bs \<longleftrightarrow>
     (\<forall>i<length bs div 4. code (a + word_of_nat (4 * i)) = Some (text_words bs ! i))"

section \<open>Meaning of arithmetic instructions\<close>

text \<open>
  The result register and value of an instruction that computes on registers and an immediate, as its
  mnemonic is defined; \<open>g\<close> reads a register. The result of \<^verbatim>\<open>roriw\<close> is the low half of the source
  rotated and extended by its sign.
\<close>

primrec alu_meaning :: "instruction \<Rightarrow> (byte \<Rightarrow> u64) \<Rightarrow> (byte \<times> u64) option" where
  "alu_meaning (IAddi rd rs1 imm) g = Some (rd, g rs1 + word_of_int imm)"
| "alu_meaning (IAdd rd rs1 rs2) g = Some (rd, g rs1 + g rs2)"
| "alu_meaning (ISub rd rs1 rs2) g = Some (rd, g rs1 - g rs2)"
| "alu_meaning (IAnd rd rs1 rs2) g = Some (rd, g rs1 AND g rs2)"
| "alu_meaning (IAndi rd rs1 imm) g = Some (rd, g rs1 AND word_of_int imm)"
| "alu_meaning (IOr rd rs1 rs2) g = Some (rd, g rs1 OR g rs2)"
| "alu_meaning (IXor rd rs1 rs2) g = Some (rd, g rs1 XOR g rs2)"
| "alu_meaning (IMul rd rs1 rs2) g = Some (rd, g rs1 * g rs2)"
| "alu_meaning (IMulhu rd rs1 rs2) g = Some (rd, word_of_int (uint (g rs1) * uint (g rs2) div 2 ^ 64))"
| "alu_meaning (IDiv rd rs1 rs2) g = Some (rd, (if g rs2 = 0 then - 1 else word_of_int (sint (g rs1) sdiv sint (g rs2))))"
| "alu_meaning (IDivu rd rs1 rs2) g = Some (rd, (if g rs2 = 0 then - 1 else g rs1 div g rs2))"
| "alu_meaning (IRem rd rs1 rs2) g = Some (rd, (if g rs2 = 0 then g rs1 else word_of_int (sint (g rs1) smod sint (g rs2))))"
| "alu_meaning (IRemu rd rs1 rs2) g = Some (rd, (if g rs2 = 0 then g rs1 else g rs1 mod g rs2))"
| "alu_meaning (ISlt rd rs1 rs2) g = Some (rd, (if sint (g rs1) < sint (g rs2) then 1 else 0))"
| "alu_meaning (ISltu rd rs1 rs2) g = Some (rd, (if g rs1 < g rs2 then 1 else 0))"
| "alu_meaning (ISgt rd rs1 rs2) g = Some (rd, (if sint (g rs1) > sint (g rs2) then 1 else 0))"
| "alu_meaning (IXori rd rs1 imm) g = Some (rd, g rs1 XOR word_of_int imm)"
| "alu_meaning (ISeqz rd rs) g = Some (rd, (if g rs = 0 then 1 else 0))"
| "alu_meaning (ISnez rd rs) g = Some (rd, (if g rs \<noteq> 0 then 1 else 0))"
| "alu_meaning (INeg rd rs) g = Some (rd, - g rs)"
| "alu_meaning (ILd rd rs1 imm) g = None"
| "alu_meaning (ILbu rd rs1 imm) g = None"
| "alu_meaning (ISb rs2 rs1 imm) g = None"
| "alu_meaning (ISh rs2 rs1 imm) g = None"
| "alu_meaning (ISw rs2 rs1 imm) g = None"
| "alu_meaning (ISd rs2 rs1 imm) g = None"
| "alu_meaning (ISlli rd rs1 shamt) g = Some (rd, push_bit (nat shamt) (g rs1))"
| "alu_meaning (ISrai rd rs1 shamt) g = Some (rd, signed_drop_bit (nat shamt) (g rs1))"
| "alu_meaning (ISrli rd rs1 shamt) g = Some (rd, drop_bit (nat shamt) (g rs1))"
| "alu_meaning (IRori rd rs1 shamt) g = Some (rd, word_rotr (nat shamt) (g rs1))"
| "alu_meaning (IRoriw rd rs1 shamt) g = Some (rd, scast (word_rotr (nat shamt) (ucast (g rs1) :: u32)))"
| "alu_meaning (ISll rd rs1 rs2) g = Some (rd, push_bit (unat (g rs2) mod 64) (g rs1))"
| "alu_meaning (ISrl rd rs1 rs2) g = Some (rd, drop_bit (unat (g rs2) mod 64) (g rs1))"
| "alu_meaning (ISra rd rs1 rs2) g = Some (rd, signed_drop_bit (unat (g rs2) mod 64) (g rs1))"
| "alu_meaning (ILi rd imm) g = None"
| "alu_meaning (ILa rd label) g = None"
| "alu_meaning (ICall label) g = None"
| "alu_meaning (IJump label) g = None"
| "alu_meaning (IBeq rs1 rs2 label) g = None"
| "alu_meaning (IBne rs1 rs2 label) g = None"
| "alu_meaning (IBlt rs1 rs2 label) g = None"
| "alu_meaning (IBge rs1 rs2 label) g = None"
| "alu_meaning (IBltu rs1 rs2 label) g = None"
| "alu_meaning (IBgeu rs1 rs2 label) g = None"
| "alu_meaning (IBeqz rs label) g = None"
| "alu_meaning (IBnez rs label) g = None"
| "alu_meaning IRet g = None"
| "alu_meaning IEcall g = None"

section \<open>Encoded words execute\<close>

text \<open>The sign extension of the decoder is that of a word of the width of the field.\<close>

lemma scast_sign_extend:
  assumes "LENGTH('a) \<le> 32"
  shows "scast (ucast v :: 'a::len word) = (word_of_int (sign_extend v LENGTH('a)) :: u64)"
proof -
  have "0 < LENGTH('a)" by (rule len_gt_0)
  then have "0 < 64 - LENGTH('a)" "64 - LENGTH('a) \<le> 63" "63 - (64 - LENGTH('a)) = LENGTH('a) - 1"
    using assms by linarith+
  then have "sign_extend v LENGTH('a) = signed_take_bit (LENGTH('a) - 1) (uint v)"
    unfolding sign_extend_def Let_def by (simp only: i64_shl_shr)
  moreover have "sint (ucast v :: 'a word) = signed_take_bit (LENGTH('a) - 1) (uint v)"
    by (simp add: sint_uint unsigned_ucast_eq signed_take_bit_take_bit)
  ultimately show ?thesis by (simp add: scast_eq)
qed

lemma immediates_sign_extend:
  "imm_i w = word_of_int (sign_extend (drop_bit 20 w) 12)"
  "imm_u w = word_of_int (sign_extend (w AND 0xfffff000) 32)"
  "imm_b w = word_of_int (sign_extend
     (push_bit 12 (drop_bit 31 w AND 0x1) OR push_bit 11 (drop_bit 7 w AND 0x1)
      OR push_bit 5 (drop_bit 25 w AND 0x3f) OR push_bit 1 (drop_bit 8 w AND 0xf)) 13)"
  "imm_j w = word_of_int (sign_extend
     (push_bit 20 (drop_bit 31 w AND 0x1) OR push_bit 12 (drop_bit 12 w AND 0xff)
      OR push_bit 11 (drop_bit 20 w AND 0x1) OR push_bit 1 (drop_bit 21 w AND 0x3ff)) 21)"
  using scast_sign_extend [where 'a = 12] scast_sign_extend [where 'a = 32]
    scast_sign_extend [where 'a = 13] scast_sign_extend [where 'a = 21]
  by (simp_all add: imm_i_def imm_u_def imm_b_def imm_j_def)

lemma ucast_byte_id [simp]: "ucast (ucast r :: u32) = (r :: byte)"
  by (rule bit_word_eqI) (simp add: bit_simps)

lemma exec_i_type:
  assumes "encode_i_type 0x13 rd funct3 rs1 imm = Inr w" "rd < 32" "rs1 < 32" "bits_below 3 funct3"
  shows "exec_word w st = map_option (\<lambda>v. rv_next (rv_set rd v st))
    (alu_imm funct3 (drop_bit 6 (take_bit 12 (word_of_int imm))) (rv_get st rs1) (word_of_int imm))"
proof -
  have b: "bits_below 7 (0x13 :: u32)" "bits_below 5 rd" "bits_below 5 rs1"
    using assms by (simp_all add: bits_below_reg)
  note f = i_type_fields [OF b(1,2) assms(4) b(3) assms(1)]
  have "drop_bit 26 w AND 0x3f = drop_bit 6 (take_bit 12 (word_of_int imm))"
  proof -
    have "drop_bit 26 w = drop_bit 6 (drop_bit 20 w)" by (simp add: drop_bit_drop_bit)
    then show ?thesis
      unfolding f(5) and_masks by (auto intro!: bit_word_eqI simp: bit_simps)
  qed
  moreover have "imm_i w = word_of_int imm"
    using i_immediate_encode [OF assms(1) b(1,2) assms(4) b(3)] by (simp add: immediates_sign_extend)
  ultimately show ?thesis
    using f by (simp add: exec_word_def fld_rd_def fld_rs1_def)
qed

lemma exec_r_type:
  assumes "rd < 32" "rs1 < 32" "rs2 < 32" "bits_below 3 funct3" "bits_below 7 funct7"
  shows "exec_word (encode_r_type 0x33 rd funct3 rs1 rs2 funct7) st
    = map_option (\<lambda>v. rv_next (rv_set rd v st))
        (alu_reg funct7 funct3 (rv_get st rs1) (rv_get st rs2))"
proof -
  have b: "bits_below 7 (0x33 :: u32)" "bits_below 5 rd" "bits_below 5 rs1" "bits_below 5 rs2"
    using assms by (simp_all add: bits_below_reg)
  note f = r_type_fields [OF b(1,2) assms(4) b(3,4) assms(5) refl]
  show ?thesis using f by (simp add: exec_word_def fld_rd_def fld_rs1_def fld_rs2_def)
qed

lemma exec_u_type:
  assumes "rd < 32" "- 0x80000 \<le> hi" "hi \<le> 0x7ffff"
  shows "exec_word (encode_u_type 0x37 rd hi) st = Some (rv_next (rv_set rd (word_of_int (hi * 4096)) st))"
    "exec_word (encode_u_type 0x17 rd hi) st
      = Some (rv_next (rv_set rd (rv_pc st + word_of_int (hi * 4096)) st))"
proof -
  have b: "bits_below 7 (0x37 :: u32)" "bits_below 7 (0x17 :: u32)" "bits_below 5 rd"
    using assms by (simp_all add: bits_below_reg)
  note f = u_type_fields [OF b(1,3) refl, of hi] u_type_fields [OF b(2,3) refl, of hi]
  note i = upper_immediate_encode [OF b(1,3) assms(2,3)] upper_immediate_encode [OF b(2,3) assms(2,3)]
  show "exec_word (encode_u_type 0x37 rd hi) st = Some (rv_next (rv_set rd (word_of_int (hi * 4096)) st))"
    "exec_word (encode_u_type 0x17 rd hi) st
      = Some (rv_next (rv_set rd (rv_pc st + word_of_int (hi * 4096)) st))"
    using f i by (simp_all add: exec_word_def fld_rd_def immediates_sign_extend)
qed

lemma exec_b_type:
  assumes "encode_b_type 0x63 funct3 rs1 rs2 d = Inr w" "rs1 < 32" "rs2 < 32" "bits_below 3 funct3"
  shows "exec_word w st = map_option
    (\<lambda>t. if t then rv_goto (rv_pc st + word_of_int d) st else rv_next st)
    (branch_taken funct3 (rv_get st rs1) (rv_get st rs2))"
proof -
  have b: "bits_below 7 (0x63 :: u32)" "bits_below 5 rs1" "bits_below 5 rs2"
    using assms by (simp_all add: bits_below_reg)
  note f = b_type_fields [OF b(1) assms(4) b(2,3) assms(1)]
  have "imm_b w = word_of_int d"
    unfolding immediates_sign_extend f(5) using sign_extend_take_bit [OF f(6)] by simp
  then show ?thesis using f(1-4) by (simp add: exec_word_def fld_rs1_def fld_rs2_def cong: if_cong)
qed

lemma exec_j_type:
  assumes "encode_j_type 0x6f rd d = Inr w" "rd < 32"
  shows "exec_word w st = Some (rv_goto (rv_pc st + word_of_int d) (rv_set rd (rv_pc st + 4) st))"
proof -
  have b: "bits_below 7 (0x6f :: u32)" "bits_below 5 rd"
    using assms by (simp_all add: bits_below_reg)
  note f = j_type_fields [OF b assms(1)]
  have "imm_j w = word_of_int d"
    unfolding immediates_sign_extend f(3) using sign_extend_take_bit [OF f(4)] by simp
  then show ?thesis using f by (simp add: exec_word_def fld_rd_def)
qed

lemma exec_jalr:
  assumes "encode_i_type 0x67 rd 0 rs1 imm = Inr w" "rd < 32" "rs1 < 32"
  shows "exec_word w st = Some (rv_goto ((rv_get st rs1 + word_of_int imm) AND NOT 1)
    (rv_set rd (rv_pc st + 4) st))"
proof -
  have b: "bits_below 7 (0x67 :: u32)" "bits_below 5 rd" "bits_below 5 rs1" "bits_below 3 (0 :: u32)"
    using assms by (simp_all add: bits_below_reg)
  note f = i_type_fields [OF b(1,2,4,3) assms(1)]
  have "imm_i w = word_of_int imm"
    using i_immediate_encode [OF assms(1) b(1,2,4,3)] by (simp add: immediates_sign_extend)
  then show ?thesis using f by (simp add: exec_word_def fld_rd_def fld_rs1_def)
qed

text \<open>The two parts of a shift immediate.\<close>

lemma shift_immediate:
  assumes "0 \<le> k" "k \<le> 63" "0 \<le> c" "c < 64"
  shows "unat (word_of_int (c * 64 OR k) AND (0x3f :: u64)) = nat k"
    "drop_bit 6 (take_bit 12 (word_of_int (c * 64 OR k) :: u32)) = word_of_int c"
proof -
  have k: "take_bit 6 k = k" and c: "take_bit 6 c = c"
    using assms by (simp_all add: take_bit_int_eq_self_iff)
  have 1: "take_bit 6 (push_bit 6 c OR k) = k"
    by (subst (2) k [symmetric], subst k [symmetric]) (auto simp: bit_eq_iff bit_simps)
  have "word_of_int (push_bit 6 c OR k) AND (0x3f :: u64) = word_of_int (take_bit 6 (push_bit 6 c OR k))"
  proof -
    have m: "(0x3f :: u64) = mask 6" by (simp add: mask_eq_exp_minus_1)
    show ?thesis unfolding m by (rule bit_word_eqI) (auto simp: bit_simps)
  qed
  then have "word_of_int (push_bit 6 c OR k) AND (0x3f :: u64) = word_of_int k" by (simp only: 1)
  moreover have "unat (word_of_int k :: u64) = nat k"
    using assms by (simp add: unsigned_of_int take_bit_int_eq_self)
  ultimately show "unat (word_of_int (c * 64 OR k) AND (0x3f :: u64)) = nat k"
    by (simp add: push_bit_eq_mult)
  have "drop_bit 6 (take_bit 12 (push_bit 6 c OR k)) = c"
    by (subst (2) c [symmetric], subst k [symmetric]) (auto simp: bit_eq_iff bit_simps)
  moreover have "drop_bit 6 (take_bit 12 (word_of_int (push_bit 6 c OR k) :: u32))
      = word_of_int (drop_bit 6 (take_bit 12 (push_bit 6 c OR k)))"
    by (rule bit_word_eqI) (auto simp: bit_simps)
  ultimately show "drop_bit 6 (take_bit 12 (word_of_int (c * 64 OR k) :: u32)) = word_of_int c"
    by (simp add: push_bit_eq_mult)
qed

lemma exec_shift:
  assumes "encode_shift nm 63 0x13 rd funct3 rs1 (c * 64) k = Inr bs" "rd < 32" "rs1 < 32"
    "bits_below 3 funct3" "0 \<le> c" "c < 64"
  obtains w where "bs = u32_le w" "0 \<le> k" "k \<le> 63"
    "exec_word w st = map_option (\<lambda>v. rv_next (rv_set rd v st))
       (alu_imm funct3 (word_of_int c) (rv_get st rs1) (word_of_int (c * 64 OR k)))"
    "unat (word_of_int (c * 64 OR k) AND (0x3f :: u64)) = nat k"
proof -
  from assms(1) obtain w where w: "encode_i_type 0x13 rd funct3 rs1 (c * 64 OR k) = Inr w" "bs = u32_le w"
    and k: "0 \<le> k" "k \<le> 63"
    by (auto simp: encode_shift_def split: if_splits)
  note s = shift_immediate [OF k assms(5,6)]
  from exec_i_type [OF w(1) assms(2-4), of st] s(2) w(2) k s(1) show thesis by (intro that) simp_all
qed

lemma shamt_unat: "unat (b AND (0x3f :: u64)) = unat b mod 64"
proof -
  have "b AND 0x3f = take_bit 6 b" unfolding take_bit_eq_mask by (simp add: mask_eq_exp_minus_1)
  then show ?thesis by (simp only: unsigned_take_bit_eq) (simp add: take_bit_eq_mod)
qed

lemma small_fields [simp]: "bits_below 3 (2 :: u32)" "bits_below 3 (3 :: u32)" "bits_below 3 (4 :: u32)"
  "bits_below 3 (5 :: u32)" "bits_below 3 (6 :: u32)" "bits_below 3 (7 :: u32)"
  "bits_below 7 (0x20 :: u32)"
  by simp_all

text \<open>The fields of \<^verbatim>\<open>roriw\<close>: the high seven bits of the immediate and the shift amount below.\<close>

lemma exec_roriw:
  assumes "encode_shift nm 31 0x1b rd 5 rs1 (push_bit 5 0x30) k = Inr bs" "rd < 32" "rs1 < 32"
  obtains w where "bs = u32_le w" "exec_word w st = Some (rv_next (rv_set rd
      (scast (word_rotr (nat k) (ucast (rv_get st rs1) :: u32))) st))"
proof -
  let ?i = "0x600 OR k"
  from assms(1) obtain w where w: "encode_i_type 0x1b rd 5 rs1 ?i = Inr w" "bs = u32_le w"
    and k: "0 \<le> k" "k \<le> 31"
    by (auto simp: encode_shift_def push_bit_eq_mult split: if_splits)
  have b: "bits_below 7 (0x1b :: u32)" "bits_below 5 rd" "bits_below 5 rs1" "bits_below 3 (5 :: u32)"
    using assms(2,3) by (simp_all add: bits_below_reg)
  note f = i_type_fields [OF b(1,2,4,3) w(1)]
  have t: "take_bit 5 k = k" using k by (simp add: take_bit_int_eq_self_iff)
  have i: "?i = push_bit 5 0x30 OR take_bit 5 k" by (simp add: t push_bit_eq_mult)
  have "drop_bit 5 (take_bit 12 (word_of_int x :: u32)) = word_of_int (drop_bit 5 (take_bit 12 x))" for x
    by (rule bit_word_eqI) (auto simp: bit_simps)
  moreover have "drop_bit 5 (take_bit 12 ?i) = 0x30"
  proof -
    have "drop_bit 5 (take_bit 12 ?i) = take_bit 7 0x30"
      unfolding i by (auto simp: bit_eq_iff bit_simps)
    then show ?thesis by (simp add: take_bit_eq_mod)
  qed
  moreover have "drop_bit 25 w = drop_bit 5 (drop_bit 20 w)" by (simp add: drop_bit_drop_bit)
  ultimately have hi: "drop_bit 25 w AND 0x7f = 0x30" unfolding f(5) by simp
  have "take_bit 12 (word_of_int ?i :: u32) AND 0x1f = word_of_int k"
  proof -
    have m: "(0x1f :: u32) = mask 5" by (simp add: mask_eq_exp_minus_1)
    have "take_bit 12 (word_of_int x :: u32) AND mask 5 = word_of_int (take_bit 5 x)" for x
      by (rule bit_word_eqI) (auto simp: bit_simps)
    moreover have "take_bit 5 ?i = take_bit 5 k" unfolding i by (auto simp: bit_eq_iff bit_simps)
    ultimately show ?thesis using t by (simp only: m)
  qed
  moreover have "unat (word_of_int k :: u32) = nat k"
    using k by (simp add: unsigned_of_int take_bit_int_eq_self)
  ultimately have "unat (drop_bit 20 w AND 0x1f) = nat k" unfolding f(5) by simp
  with f hi have "exec_word w st = Some (rv_next (rv_set rd
      (scast (word_rotr (nat k) (ucast (rv_get st rs1) :: u32))) st))"
    by (simp add: exec_word_def fld_rd_def fld_rs1_def)
  with w(2) show thesis by (rule that)
qed

text \<open>Every arithmetic instruction computes the value its mnemonic stands for.\<close>

lemma alu_exec:
  assumes "alu_meaning inst (rv_get st) = Some (rd, v)" "regs_ok inst"
    "encode_instruction inst pc p l rel = Inr bs"
  shows "\<exists>w. bs = u32_le w \<and> exec_word w st = Some (rv_next (rv_set rd v st))"
proof (cases inst)
  case (ISlli rd' rs1 k)
  with assms obtain w where "bs = u32_le w" "exec_word w st = map_option (\<lambda>v. rv_next (rv_set rd' v st))
       (alu_imm 1 (word_of_int 0) (rv_get st rs1) (word_of_int (0 * 64 OR k)))"
    "unat (word_of_int (0 * 64 OR k) AND (0x3f :: u64)) = nat k"
    by (auto intro: exec_shift [of "''slli''" rd' 1 rs1 0 k bs st])
  with ISlli assms show ?thesis by (auto simp: alu_imm_def)
next
  case (ISrli rd' rs1 k)
  with assms obtain w where "bs = u32_le w" "exec_word w st = map_option (\<lambda>v. rv_next (rv_set rd' v st))
       (alu_imm 5 (word_of_int 0) (rv_get st rs1) (word_of_int (0 * 64 OR k)))"
    "unat (word_of_int (0 * 64 OR k) AND (0x3f :: u64)) = nat k"
    by (auto intro: exec_shift [of "''srli''" rd' 5 rs1 0 k bs st])
  with ISrli assms show ?thesis by (auto simp: alu_imm_def)
next
  case (ISrai rd' rs1 k)
  with assms obtain w where "bs = u32_le w" "exec_word w st = map_option (\<lambda>v. rv_next (rv_set rd' v st))
       (alu_imm 5 (word_of_int 0x10) (rv_get st rs1) (word_of_int (0x10 * 64 OR k)))"
    "unat (word_of_int (0x10 * 64 OR k) AND (0x3f :: u64)) = nat k"
    by (auto intro: exec_shift [of "''srai''" rd' 5 rs1 "0x10" k bs st])
  with ISrai assms show ?thesis by (auto simp: alu_imm_def)
next
  case (IRori rd' rs1 k)
  with assms obtain w where "bs = u32_le w" "exec_word w st = map_option (\<lambda>v. rv_next (rv_set rd' v st))
       (alu_imm 5 (word_of_int 0x18) (rv_get st rs1) (word_of_int (0x18 * 64 OR k)))"
    "unat (word_of_int (0x18 * 64 OR k) AND (0x3f :: u64)) = nat k"
    by (auto intro: exec_shift [of "''rori''" rd' 5 rs1 "0x18" k bs st])
  with IRori assms show ?thesis by (auto simp: alu_imm_def)
next
  case (IRoriw rd' rs1 k)
  with assms obtain w where "bs = u32_le w" "exec_word w st = Some (rv_next (rv_set rd'
      (scast (word_rotr (nat k) (ucast (rv_get st rs1) :: u32))) st))"
    by (auto intro: exec_roriw [of "''roriw''" rd' rs1 k bs st] simp: push_bit_eq_mult)
  with IRoriw assms show ?thesis by auto
next
  case (ISnez rd' rs)
  have "exec_word (encode_r_type 0x33 rd' 3 0 rs 0) st
      = Some (rv_next (rv_set rd' (if rv_get st rs \<noteq> 0 then 1 else 0) st))"
    using ISnez assms(2) by (subst exec_r_type) (simp_all add: alu_reg_def rv_get_def word_gt_0)
  with ISnez assms show ?thesis by auto
qed (use assms in \<open>auto simp: exec_r_type exec_i_type alu_reg_def alu_imm_def shamt_unat rv_get_def drop_bit_eq_div\<close>)

text \<open>Executing one step of a literal plan follows its evaluation.\<close>

lemma exec_step:
  assumes "step_value v s = Some x" "encode_step rd s = Inr w" "rd < 32" "rd \<noteq> 0"
    "v = None \<or> v = Some (rv_get st rd)"
  shows "exec_word w st = Some (rv_next (rv_set rd x st))"
proof (cases s)
  case (AddFromZero imm)
  with assms exec_i_type [of rd 0 0 imm w st] show ?thesis
    by (simp add: encode_step_def step_value_def alu_imm_def rv_get_def split: if_splits)
next
  case (LoadUpper imm)
  then have "i64_shl imm 12 = imm * 4096" "- 0x80000 \<le> imm" "imm \<le> 0x7ffff"
    using assms(1) by (auto simp: step_value_def i64_shl_def push_bit_eq_mult wrap_i64_id in_i64_def
        split: if_splits)
  with LoadUpper assms exec_u_type(1) [of rd imm st] show ?thesis
    by (simp add: encode_step_def step_value_def)
next
  case (Add imm)
  with assms exec_i_type [of rd 0 rd imm w st] show ?thesis
    by (auto simp: encode_step_def step_value_def alu_imm_def split: if_splits)
next
  case (ShiftLeft k)
  then have k: "1 \<le> k" "k \<le> 63" using assms(1) by (auto simp: step_value_def split: if_splits)
  then have "unat (word_of_int (int k) AND (0x3f :: u64)) = k"
    "drop_bit 6 (take_bit 12 (word_of_int (int k) :: u32)) = 0"
    using shift_immediate [of "int k" 0] by simp_all
  with k ShiftLeft assms exec_i_type [of rd 1 rd "int k" w st] show ?thesis
    by (auto simp: encode_step_def step_value_def alu_imm_def split: if_splits)
next
  case (ShiftRight k)
  then have k: "1 \<le> k" "k \<le> 63" using assms(1) by (auto simp: step_value_def split: if_splits)
  then have "unat (word_of_int (int k) AND (0x3f :: u64)) = k"
    "drop_bit 6 (take_bit 12 (word_of_int (int k) :: u32)) = 0"
    using shift_immediate [of "int k" 0] by simp_all
  with k ShiftRight assms exec_i_type [of rd 5 rd "int k" w st] show ?thesis
    by (auto simp: encode_step_def step_value_def alu_imm_def split: if_splits)
qed

text \<open>Every step of a valid plan has an encoding.\<close>

lemma encode_step_total: "step_value v s = Some x \<Longrightarrow> \<exists>w. encode_step rd s = Inr w"
  by (auto simp: step_value_def encode_step_def encode_i_type_def encode_signed_bits_def
      signed_bits_fit_def split: step.splits if_splits)

lemma encode_steps_total: "evaluate_from v ss = Some x \<Longrightarrow> \<exists>bs. encode_steps rd ss = Inr bs"
proof (induction ss arbitrary: v)
  case (Cons s ss)
  from Cons.prems obtain y where y: "step_value v s = Some y" "evaluate_from (Some y) ss = Some x"
    by (auto split: option.splits)
  from Cons.IH [OF y(2)] encode_step_total [OF y(1)] show ?case by fastforce
qed simp

section \<open>Sequences in memory\<close>

lemma text_words_Cons: "text_words (u32_le w @ bs) = w # text_words bs"
  by (simp add: text_words_def chunks_exact_simps(2))

lemma text_words_Nil [simp]: "text_words [] = []"
  by (simp add: text_words_def chunks_exact_simps)

lemma loaded_Cons: "loaded code a (u32_le w @ bs) \<longleftrightarrow> code a = Some w \<and> loaded code (a + 4) bs"
proof -
  have "loaded code a (u32_le w @ bs) \<longleftrightarrow>
      (\<forall>i<Suc (length bs div 4). code (a + word_of_nat (4 * i)) = Some ((w # text_words bs) ! i))"
    using div_add_self1 [of 4 "length bs"] by (simp add: loaded_def text_words_Cons)
  also have "\<dots> \<longleftrightarrow> code a = Some w \<and> loaded code (a + 4) bs"
    unfolding loaded_def All_less_Suc2 by (simp add: add.assoc)
  finally show ?thesis .
qed

lemma loaded_single: "loaded code a (u32_le w) \<longleftrightarrow> code a = Some w"
  using loaded_Cons [of code a w "[]"] by (simp add: loaded_def [of _ _ "[]"])

lemma rv_state_simps [simp]:
  "rv_pc (rv_next st) = rv_pc st + 4" "rv_pc (rv_set r v st) = rv_pc st"
  "rv_pc (rv_goto a st) = a" "rv_get (rv_next st) r = rv_get st r" "rv_get (rv_goto a st) r = rv_get st r"
  "r \<noteq> 0 \<Longrightarrow> rv_get (rv_set r v st) r = v"
  "rv_set r x (rv_set r y st) = rv_set r x st" "rv_set r x (rv_next st) = rv_next (rv_set r x st)"
  "rv_goto a (rv_next st) = rv_goto a st" "rv_goto a (rv_goto b st) = rv_goto a st"
  "rv_set r x (rv_goto a st) = rv_goto a (rv_set r x st)" "rv_next (rv_goto a st) = rv_goto (a + 4) st"
  by (simp_all add: rv_next_def rv_set_def rv_goto_def rv_get_def)

lemma rv_next_goto: "rv_next st = rv_goto (rv_pc st + 4) st"
  by (simp add: rv_next_def rv_goto_def)

lemma rv_goto_pc [simp]: "rv_goto (rv_pc st) st = st"
  by (simp add: rv_goto_def)

lemma rv_run_step: "code (rv_pc st) = Some w \<Longrightarrow> exec_word w st = Some st' \<Longrightarrow>
   rv_run (Suc n) code st = rv_run n code st'"
  by (simp add: rv_step_def)

lemma run_steps:
  assumes "evaluate_from v ss = Some x" "encode_steps rd ss = Inr bs" "rd < 32" "rd \<noteq> 0"
    "v = None \<or> v = Some (rv_get st rd)" "loaded code (rv_pc st) bs" "ss \<noteq> []"
  shows "rv_run (length ss) code st = Some (rv_goto (rv_pc st + word_of_nat (length bs)) (rv_set rd x st))"
  using assms
proof (induction ss arbitrary: v bs st)
  case (Cons s ss)
  from Cons.prems obtain y where y: "step_value v s = Some y" "evaluate_from (Some y) ss = Some x"
    by (auto split: option.splits)
  from Cons.prems obtain w bs' where w: "encode_step rd s = Inr w" "encode_steps rd ss = Inr bs'"
    and bs: "bs = u32_le w @ bs'" by auto
  let ?st = "rv_next (rv_set rd y st)"
  have step: "exec_word w st = Some ?st" by (rule exec_step [OF y(1) w(1) Cons.prems(3-5)])
  have ld: "code (rv_pc st) = Some w" "loaded code (rv_pc st + 4) bs'"
    using Cons.prems(6) by (simp_all add: bs loaded_Cons)
  show ?case
  proof (cases "ss = []")
    case True
    with y w show ?thesis
      using rv_run_step [of code st w ?st 0, OF ld(1) step] by (simp add: bs rv_next_goto)
  next
    case False
    have "rv_run (length ss) code ?st
        = Some (rv_goto (rv_pc ?st + word_of_nat (length bs')) (rv_set rd x ?st))"
      using Cons.prems(3,4) ld(2) False by (intro Cons.IH [OF y(2) w(2)]) simp_all
    with rv_run_step [of code st w ?st "length ss", OF ld(1) step] show ?thesis
      by (simp add: bs add.assoc rv_next_goto)
  qed
qed simp

lemma word_of_nat_offset: "int pc + d = int t \<Longrightarrow> word_of_nat pc + word_of_int d = (word_of_nat t :: u64)"
  by (metis of_int_add of_int_of_nat_eq)

lemma inverse_branch:
  assumes "inverse_branch_funct3 f = Some g"
  shows "branch_taken g a b = map_option Not (branch_taken f a b)" "bits_below 3 f" "bits_below 3 g"
    "inverse_branch_funct3 g = Some f"
  using assms by (auto simp: inverse_branch_funct3_def branch_taken_def split: if_splits)

lemma conditional_branch_parts_funct3:
  assumes "conditional_branch_parts inst = Some (rs1, rs2, label, f)"
  shows "\<exists>g. inverse_branch_funct3 f = Some g" "regs_ok inst \<Longrightarrow> rs1 < 32 \<and> rs2 < 32"
    "\<exists>t. branch_taken f a b = Some t"
    "encode_instruction inst pc p l rel = encode_branch (rs1, rs2, label, f) pc p l rel"
  using assms by (cases inst; auto simp: inverse_branch_funct3_def branch_taken_def)+

text \<open>
  Both forms of a conditional branch have the same effect: the target if the condition holds, the
  address after the emitted bytes otherwise.
\<close>

lemma run_branch:
  assumes enc: "encode_branch (rs1, rs2, label, f) pc p l rel = Inr bs"
    and t: "symbol_address p label l = Inr t"
    and regs: "rs1 < 32" "rs2 < 32" and f: "inverse_branch_funct3 f = Some g"
    and taken: "branch_taken f (rv_get st rs1) (rv_get st rs2) = Some taken"
    and pc: "rv_pc st = word_of_nat pc" and ld: "loaded code (rv_pc st) bs"
  shows "\<exists>n\<in>{1, 2}. rv_run n code st
    = Some (rv_goto (if taken then word_of_nat t else rv_pc st + word_of_nat (length bs)) st)"
proof (cases rel)
  case False
  with enc t obtain d w where d: "relative_offset pc t = Inr d" "encode_b_type 0x63 f rs1 rs2 d = Inr w"
    "bs = u32_le w" by (auto simp: encode_branch_def)
  have "exec_word w st = Some (rv_goto (if taken then word_of_nat t else rv_pc st + 4) st)"
    using exec_b_type [OF d(2) regs inverse_branch(2) [OF f], of st] taken d(1) pc
    by (auto simp: relative_offset_Ok word_of_nat_offset rv_next_goto)
  with rv_run_step [of code st w _ 0] ld d(3) show ?thesis by (auto simp: loaded_single)
next
  case True
  with enc t f obtain d w1 w2 where d: "encode_b_type 0x63 g rs1 rs2 8 = Inr w1"
    "relative_offset (pc + 4) t = Inr d" "encode_j_type 0x6f 0 d = Inr w2" "bs = u32_le w1 @ u32_le w2"
    by (auto simp: encode_branch_def)
  have ld1: "code (rv_pc st) = Some w1" and ld2: "code (rv_pc st + 4) = Some w2"
    using ld by (simp_all add: d(4) loaded_Cons loaded_single)
  have 1: "exec_word w1 st = Some (if taken then rv_next st else rv_goto (rv_pc st + 8) st)"
    using exec_b_type [OF d(1) regs inverse_branch(3) [OF f], of st] taken
      inverse_branch(1) [OF f, of "rv_get st rs1" "rv_get st rs2"] by simp
  have "rv_pc st + 4 + word_of_int d = word_of_nat t"
    using word_of_nat_offset [of "pc + 4" d t] d(2) pc by (simp add: relative_offset_Ok)
  then have 2: "exec_word w2 (rv_next st) = Some (rv_goto (word_of_nat t) st)"
    using exec_j_type [OF d(3), of "rv_next st"] by (simp add: rv_set_def)
  show ?thesis
  proof (cases taken)
    case True
    with 1 2 ld1 ld2 have "rv_run 2 code st = Some (rv_goto (word_of_nat t) st)"
      by (simp add: numeral_2_eq_2 rv_step_def)
    with True show ?thesis by auto
  next
    case False
    with 1 ld1 d(4) have "rv_run 1 code st = Some (rv_goto (rv_pc st + word_of_nat (length bs)) st)"
      by (simp add: rv_step_def)
    with False show ?thesis by auto
  qed
qed

text \<open>An address sequence or a call: \<^verbatim>\<open>auipc\<close> and the low part add up to the target.\<close>

lemma pc_relative_parts:
  assumes "relative_offset pc t = Inr d" "split_hi_lo d = Inr (hi, lo)"
  shows "word_of_nat pc + word_of_int (hi * 4096) + word_of_int lo = (word_of_nat t :: u64)"
proof -
  have "int pc + (hi * 4096 + lo) = int t"
    using assms(1) split_hi_lo_Ok(1) [OF assms(2)] by (simp add: relative_offset_Ok)
  from word_of_nat_offset [OF this] show ?thesis by (simp only: add.assoc wi_hom_add)
qed

lemma run_address:
  assumes enc: "encode_address_sequence rd pc t = Inr bs" and rd: "rd < 32" "rd \<noteq> 0"
    and pc: "rv_pc st = word_of_nat pc" and ld: "loaded code (rv_pc st) bs"
  shows "rv_run 2 code st = Some (rv_goto (rv_pc st + 8) (rv_set rd (word_of_nat t) st))"
proof -
  from enc obtain d hi lo w where d: "relative_offset pc t = Inr d" "split_hi_lo d = Inr (hi, lo)"
    "encode_i_type 0x13 rd 0 rd lo = Inr w" "bs = u32_le (encode_u_type 0x17 rd hi) @ u32_le w"
    by (auto simp: encode_address_sequence_def)
  note s = split_hi_lo_Ok [OF d(2)]
  let ?st = "rv_next (rv_set rd (rv_pc st + word_of_int (hi * 4096)) st)"
  have 1: "exec_word (encode_u_type 0x17 rd hi) st = Some ?st"
    using exec_u_type(2) [OF rd(1) s(2,3)] by simp
  have 2: "exec_word w ?st = Some (rv_goto (rv_pc st + 8) (rv_set rd (word_of_nat t) st))"
    using exec_i_type [OF d(3) rd(1) rd(1), of ?st] rd(2) pc_relative_parts [OF d(1,2)] pc
    by (simp add: alu_imm_def rv_next_goto add.commute [of 8])
  from 1 2 ld show ?thesis
    by (simp add: d(4) loaded_Cons loaded_single numeral_2_eq_2 rv_step_def)
qed

lemma even_word_and_not_one:
  assumes "even t"
  shows "(word_of_nat t AND NOT 1 :: u64) = word_of_nat t"
proof (rule bit_word_eqI)
  fix n
  have "int t mod 2 = 0" using assms by presburger
  then have "\<not> bit (word_of_nat t :: u64) 0" using even_word_of_int_bit0 [of "int t"] by simp
  then show "bit (word_of_nat t AND NOT 1 :: u64) n = bit (word_of_nat t :: u64) n" if "n < LENGTH(64)"
    using that by (cases "n = 0") (auto simp: bit_simps)
qed

lemma run_call:
  assumes enc: "encode_call_sequence pc t = Inr bs" and even: "even t"
    and pc: "rv_pc st = word_of_nat pc" and ld: "loaded code (rv_pc st) bs"
  shows "rv_run 2 code st = Some (rv_goto (word_of_nat t) (rv_set 1 (rv_pc st + 8) st))"
proof -
  from enc obtain d hi lo w where d: "relative_offset pc t = Inr d" "split_hi_lo d = Inr (hi, lo)"
    "encode_i_type 0x67 1 0 1 lo = Inr w" "bs = u32_le (encode_u_type 0x17 1 hi) @ u32_le w"
    by (auto simp: encode_call_sequence_def)
  note s = split_hi_lo_Ok [OF d(2)]
  let ?st = "rv_next (rv_set 1 (rv_pc st + word_of_int (hi * 4096)) st)"
  have 1: "exec_word (encode_u_type 0x17 1 hi) st = Some ?st"
    using exec_u_type(2) [of 1 hi st] s(2,3) by simp
  have "(word_of_nat t AND NOT 1 :: u64) = word_of_nat t" by (rule even_word_and_not_one [OF even])
  then have 2: "exec_word w ?st = Some (rv_goto (word_of_nat t) (rv_set 1 (rv_pc st + 8) st))"
    using exec_jalr [OF d(3), of ?st] pc_relative_parts [OF d(1,2)] pc
    by (simp add: rv_next_goto add.commute [of 8])
  from 1 2 ld show ?thesis
    by (simp add: d(4) loaded_Cons loaded_single numeral_2_eq_2 rv_step_def)
qed

section \<open>Properties\<close>

text \<open>
  C9: The machine code of \<^verbatim>\<open>li rd, imm\<close> loads the literal. For every register but
  \<^verbatim>\<open>zero\<close> and every literal of the supported range the encoder succeeds, and running the
  emitted instructions puts the 64-bit pattern of the literal into \<^verbatim>\<open>rd\<close>, changes no other
  register and ends right after the sequence.
\<close>
theorem li_sequence_loads_literal:
  assumes "rd < 32" "rd \<noteq> 0" "- (2 ^ 63) \<le> v" "v \<le> 2 ^ 64 - 1"
  shows "\<exists>bs. encode_li_sequence rd v = Inr bs \<and>
    (\<forall>code st. loaded code (rv_pc st) bs \<longrightarrow>
       rv_run (length bs div 4) code st
         = Some (rv_goto (rv_pc st + word_of_nat (length bs)) (rv_set rd (word_of_int v) st)))"
proof -
  from plan_Ok [OF assms(3,4)] obtain ss where
    ss: "plan v = Inr ss" "evaluate_from None ss = Some (word_of_int v)"
    unfolding evaluate_def by blast
  from encode_steps_total [OF ss(2)] obtain bs where bs: "encode_steps rd ss = Inr bs" by blast
  have "ss \<noteq> []" using ss(2) by auto
  moreover have "length bs div 4 = length ss" using encode_steps_length [OF bs] by simp
  ultimately show ?thesis
    using run_steps [OF ss(2) bs assms(1,2)] ss(1) bs by (auto simp: encode_li_sequence_def)
qed

theorem li_sequence_loads_literal_witness:
  "\<exists>bs. encode_li_sequence 10 0x123456789abcdef0 = Inr bs \<and>
    (\<forall>code st. loaded code (rv_pc st) bs \<longrightarrow>
       rv_run (length bs div 4) code st
         = Some (rv_goto (rv_pc st + word_of_nat (length bs)) (rv_set 10 (word_of_int 0x123456789abcdef0) st)))"
  by (rule li_sequence_loads_literal) simp_all

text \<open>
  C19: Every instruction that computes on registers or on a register and an immediate (among them the
  shifts and rotations with \<^verbatim>\<open>roriw\<close>, and the pseudo-instructions \<^verbatim>\<open>seqz\<close>, \<^verbatim>\<open>snez\<close>, \<^verbatim>\<open>neg\<close> and
  \<^verbatim>\<open>sgt\<close>) is encoded as one word that, executed, puts the value of its mnemonic into the
  destination register, changes no other register and goes on with the next word.
\<close>
theorem alu_encoding_computes:
  assumes "alu_meaning inst (rv_get st) = Some (rd, v)" "regs_ok inst"
    "encode_instruction inst pc p l rel = Inr bs"
  shows "\<exists>w. bs = u32_le w \<and> exec_word w st = Some (rv_next (rv_set rd v st))"
  by (rule alu_exec [OF assms])

theorem alu_encoding_computes_witness:
  "\<forall>p l. \<exists>w. encode_instruction (IRoriw 19 19 17) 0 p l False = Inr (u32_le w) \<and> w = 0x6119d99b
     \<and> exec_word w \<lparr>rv_pc = 0, rv_regs = (\<lambda>_. 0x123456789)\<rparr>
       = Some (rv_next (rv_set 19 0xffffffffb3c491a2 \<lparr>rv_pc = 0, rv_regs = (\<lambda>_. 0x123456789)\<rparr>))"
proof (intro allI)
  fix p l
  let ?st = "\<lparr>rv_pc = 0, rv_regs = (\<lambda>_. 0x123456789)\<rparr>"
  have enc: "encode_instruction (IRoriw 19 19 17) 0 p l False = Inr (u32_le 0x6119d99b)"
    by (simp add: eval_simps)
  moreover have "alu_meaning (IRoriw 19 19 17) (rv_get ?st) = Some (19, 0xffffffffb3c491a2)"
    by (simp add: rv_get_def) code_simp
  moreover have "regs_ok (IRoriw 19 19 17)" by simp
  ultimately obtain w where "u32_le 0x6119d99b = u32_le w"
    "exec_word w ?st = Some (rv_next (rv_set 19 0xffffffffb3c491a2 ?st))"
    using alu_encoding_computes by blast
  moreover from this(1) have "w = 0x6119d99b" by (metis u32_of_le_u32_le)
  ultimately show "\<exists>w. encode_instruction (IRoriw 19 19 17) 0 p l False = Inr (u32_le w) \<and> w = 0x6119d99b
     \<and> exec_word w ?st = Some (rv_next (rv_set 19 0xffffffffb3c491a2 ?st))"
    using enc by (intro exI [of _ w]) simp
qed

text \<open>
  C16: A conditional branch behaves the same whether it is emitted directly or relaxed into an inverted
  branch over a jump: after one or two instructions control is at the target if the condition holds
  and right after the emitted bytes otherwise, with all registers unchanged.
\<close>
theorem relaxed_branch_equivalent:
  assumes "conditional_branch_parts inst = Some (rs1, rs2, label, f)" "regs_ok inst"
    "symbol_address p label l = Inr t" "encode_instruction inst pc p l rel = Inr bs"
    "rv_pc st = word_of_nat pc" "loaded code (rv_pc st) bs"
  shows "\<exists>n\<in>{1, 2}. rv_run n code st
    = Some (rv_goto (if branch_taken f (rv_get st rs1) (rv_get st rs2) = Some True
        then word_of_nat t else rv_pc st + word_of_nat (length bs)) st)"
proof -
  note p = conditional_branch_parts_funct3 [OF assms(1)]
  from p(1) obtain g where g: "inverse_branch_funct3 f = Some g" by blast
  obtain taken where taken: "branch_taken f (rv_get st rs1) (rv_get st rs2) = Some taken"
    using p(3) by blast
  from assms(4) have "encode_branch (rs1, rs2, label, f) pc p l rel = Inr bs" by (simp only: p(4))
  from run_branch [OF this assms(3) _ _ g taken assms(5,6)] p(2) [OF assms(2)] taken
  show ?thesis by simp
qed

theorem relaxed_branch_equivalent_witness:
  "\<exists>n\<in>{1, 2}. rv_run n
      (\<lambda>a. if a = 0x10014 then Some 0x00050463 else None) \<lparr>rv_pc = 0x10014, rv_regs = (\<lambda>_. 0)\<rparr>
    = Some (rv_goto 0x1001c \<lparr>rv_pc = 0x10014, rv_regs = (\<lambda>_. 0)\<rparr>)"
proof -
  let ?p = "\<lparr>text_ops = [], rodata_ops = [], text_size = 12, rodata_size = 0,
    symbols = [(''x'', \<lparr>sym_section = Text, sym_offset = 8, sym_line = 2\<rparr>)], globals = {},
    entry_label = None, relaxed_text_branches = {}\<rparr>"
  let ?st = "\<lparr>rv_pc = 0x10014, rv_regs = (\<lambda>_. 0)\<rparr>"
  let ?code = "\<lambda>a. if a = 0x10014 then Some 0x00050463 else (None :: u32 option)"
  have ld: "loaded ?code (rv_pc ?st) (u32_le 0x00050463)" by (simp only: loaded_single) simp
  have enc: "encode_instruction (IBeqz 10 ''x'') 0x10014 ?p (for_text_user_size 12) False
      = Inr (u32_le 0x00050463)"
    and sym: "symbol_address ?p ''x'' (for_text_user_size 12) = Inr 0x1001c"
    by (simp_all add: eval_simps)
  from relaxed_branch_equivalent [of "IBeqz 10 ''x''" 10 0 "''x''" 0, OF _ _ sym enc _ ld]
  show ?thesis by (simp add: rv_get_def branch_taken_def eval_simps del: rv_run.simps)
qed

text \<open>
  C18: \<^verbatim>\<open>la\<close> leaves the address of its symbol in its register, whatever the distance to the
  symbol, and continues after its two instructions.
\<close>
theorem la_loads_symbol_address:
  assumes "symbol_address p label l = Inr t" "rv_pc st = word_of_nat pc" "rd < 32" "rd \<noteq> 0"
    "encode_instruction (ILa rd label) pc p l rel = Inr bs" "loaded code (rv_pc st) bs"
  shows "rv_run 2 code st = Some (rv_goto (rv_pc st + 8) (rv_set rd (word_of_nat t) st))"
  using assms run_address [of rd pc t bs st code] by auto

theorem la_loads_symbol_address_witness:
  "rv_run 2 [0x10014 \<mapsto> 0x00000517, 0x10018 \<mapsto> 0x00850513] \<lparr>rv_pc = 0x10014, rv_regs = (\<lambda>_. 0)\<rparr>
    = Some (rv_goto 0x1001c (rv_set 10 0x1001c \<lparr>rv_pc = 0x10014, rv_regs = (\<lambda>_. 0)\<rparr>))"
proof -
  let ?p = "\<lparr>text_ops = [], rodata_ops = [], text_size = 12, rodata_size = 0,
    symbols = [(''x'', \<lparr>sym_section = Text, sym_offset = 8, sym_line = 2\<rparr>)], globals = {},
    entry_label = None, relaxed_text_branches = {}\<rparr>"
  let ?st = "\<lparr>rv_pc = 0x10014, rv_regs = (\<lambda>_. 0)\<rparr>"
  let ?code = "[0x10014 \<mapsto> 0x00000517, 0x10018 \<mapsto> 0x00850513 :: u32]"
  have ld: "loaded ?code (rv_pc ?st) (u32_le 0x00000517 @ u32_le 0x00850513)"
    by (simp only: loaded_Cons loaded_single) simp
  have enc: "encode_instruction (ILa 10 ''x'') 0x10014 ?p (for_text_user_size 12) False
      = Inr (u32_le 0x00000517 @ u32_le 0x00850513)"
    and sym: "symbol_address ?p ''x'' (for_text_user_size 12) = Inr 0x1001c"
    by (simp_all add: eval_simps)
  from la_loads_symbol_address [OF sym _ _ _ enc ld] show ?thesis by simp
qed

text \<open>
  C17: \<^verbatim>\<open>call\<close> transfers control to the address of its symbol, which is even, with the address
  after the call in \<^verbatim>\<open>ra\<close>.
\<close>
theorem call_reaches_symbol:
  assumes "symbol_address p label l = Inr t" "rv_pc st = word_of_nat pc" "even t"
    "encode_instruction (ICall label) pc p l rel = Inr bs" "loaded code (rv_pc st) bs"
  shows "rv_run 2 code st = Some (rv_goto (word_of_nat t) (rv_set 1 (rv_pc st + 8) st))"
  using assms run_call [of pc t bs st code] by auto

theorem call_reaches_symbol_witness:
  "rv_run 2 [0x10014 \<mapsto> 0x00000097, 0x10018 \<mapsto> 0x008080e7] \<lparr>rv_pc = 0x10014, rv_regs = (\<lambda>_. 0)\<rparr>
    = Some (rv_goto 0x1001c (rv_set 1 0x1001c \<lparr>rv_pc = 0x10014, rv_regs = (\<lambda>_. 0)\<rparr>))"
proof -
  let ?p = "\<lparr>text_ops = [], rodata_ops = [], text_size = 12, rodata_size = 0,
    symbols = [(''x'', \<lparr>sym_section = Text, sym_offset = 8, sym_line = 2\<rparr>)], globals = {},
    entry_label = None, relaxed_text_branches = {}\<rparr>"
  let ?st = "\<lparr>rv_pc = 0x10014, rv_regs = (\<lambda>_. 0)\<rparr>"
  let ?code = "[0x10014 \<mapsto> 0x00000097, 0x10018 \<mapsto> 0x008080e7 :: u32]"
  have ld: "loaded ?code (rv_pc ?st) (u32_le 0x00000097 @ u32_le 0x008080e7)"
    by (simp only: loaded_Cons loaded_single) simp
  have enc: "encode_instruction (ICall ''x'') 0x10014 ?p (for_text_user_size 12) False
      = Inr (u32_le 0x00000097 @ u32_le 0x008080e7)"
    and sym: "symbol_address ?p ''x'' (for_text_user_size 12) = Inr 0x1001c"
    by (simp_all add: eval_simps)
  from call_reaches_symbol [OF sym _ _ enc ld] show ?thesis by simp
qed
end
