(* ===== verification/Asm_Relax.thy ===== *)
theory Asm_Relax
  imports Asm_Layout Rv_Sem
begin

text \<open>
  Soundness of branch relaxation. The reader produces the same operations in every branch mode, so
  the two passes of \<^verbatim>\<open>from_lines_relaxed\<close> differ in sizes only; distances measured on the
  conservative layout bound the distances of the final one; hence a branch left in its short form
  reaches its target.
\<close>

section \<open>The branch mode changes sizes only\<close>

definition same_reading :: "reader \<Rightarrow> reader \<Rightarrow> bool" where
  "same_reading st st' \<longleftrightarrow>
     rd_section st' = rd_section st \<and> rd_ops st' = rd_ops st \<and> rd_globals st' = rd_globals st
     \<and> rd_entry st' = rd_entry st \<and> rd_fallback st' = rd_fallback st
     \<and> map (\<lambda>(l, d). (l, sym_section d, sym_line d)) (rd_symbols st')
         = map (\<lambda>(l, d). (l, sym_section d, sym_line d)) (rd_symbols st)"

lemma op_size_total: "op_size op off sec i mode = Inr n \<Longrightarrow> \<exists>m. op_size op off' sec' i' mode' = Inr m"
  by (cases op) (auto simp: op_size_def instruction_size_def split: instruction.splits)

lemma same_reading_lookup:
  assumes "map (\<lambda>(l, d). (l, sym_section d, sym_line d)) xs = map (\<lambda>(l, d). (l, sym_section d, sym_line d)) ys"
  shows "map_option (\<lambda>d. (sym_section d, sym_line d)) (map_of xs l)
    = map_option (\<lambda>d. (sym_section d, sym_line d)) (map_of ys l)"
  using assms by (induction xs arbitrary: ys) (auto simp: Cons_eq_map_conv split: prod.splits)

lemma same_reading_push: "same_reading st st' \<Longrightarrow> same_reading (push_op op n st) (push_op op m st')"
  by (simp add: same_reading_def push_op_def)

lemma same_reading_add_label:
  "same_reading st st' \<Longrightarrow> same_reading (add_label ln clean l st) (add_label ln clean l st')"
  by (simp add: same_reading_def add_label_def push_op_def provenance_at_def)

lemma same_reading_label:
  assumes "same_reading st st'" "define_label ln clean l st = Inr r"
  shows "\<exists>r'. define_label ln clean l st' = Inr r' \<and> same_reading r r'"
proof -
  have none: "map_of (rd_symbols st) l = None" and r: "r = add_label ln clean l st"
    using assms(2) by (auto simp: define_label_def split: option.splits)
  have "map_option (\<lambda>d. (sym_section d, sym_line d)) (map_of (rd_symbols st') l)
      = map_option (\<lambda>d. (sym_section d, sym_line d)) (map_of (rd_symbols st) l)"
    using assms(1) unfolding same_reading_def by (intro same_reading_lookup) blast
  with none have "map_of (rd_symbols st') l = None" by simp
  with same_reading_add_label [OF assms(1)] show ?thesis by (simp add: r define_label_def)
qed

lemma same_reading_op:
  assumes "same_reading st st'" "read_op mode ln clean st = Inr r"
  shows "\<exists>r'. read_op mode' ln clean st' = Inr r' \<and> same_reading r r'"
proof -
  let ?sec = "rd_section st"
  from assms(2) obtain op n where op: "parse_asm_op clean = Inr op"
    "op_size op (rd_size st ?sec) ?sec (length (rd_ops st ?sec)) mode = Inr n"
    "r = push_op \<lparr>the_op = op, op_prov = provenance_at st ln clean\<rparr> n st"
    by (auto simp: read_op_def Let_def)
  obtain m where "op_size op (rd_size st' ?sec) ?sec (length (rd_ops st ?sec)) mode' = Inr m"
    using op_size_total [OF op(2)] by blast
  with assms(1) op same_reading_push [OF assms(1)] show ?thesis
    by (auto simp: read_op_def Let_def same_reading_def provenance_at_def)
qed

lemma same_reading_line:
  assumes "same_reading st st'" "read_line mode ln line st = Inr r"
  shows "\<exists>r'. read_line mode' ln line st' = Inr r' \<and> same_reading r r'"
proof (cases "strip_comment line")
  case (Some clean)
  show ?thesis
  proof (cases "clean = []")
    case False
    with assms Some have r: "read_clean mode ln clean st = Inr r" by (simp add: read_line_def)
    then obtain d where d: "parse_section_directive clean = Inr d" by (auto simp: read_clean_def)
    from r d assms(1) have "\<exists>r'. read_clean mode' ln clean st' = Inr r' \<and> same_reading r r'"
      using same_reading_label [OF assms(1)] same_reading_op [OF assms(1)]
      by (auto simp: read_clean_def same_reading_def split: option.splits if_splits)
    with Some False show ?thesis by (simp add: read_line_def)
  qed (use assms Some in \<open>simp add: read_line_def\<close>)
qed (use assms in \<open>simp add: read_line_def\<close>)

lemma same_reading_lines:
  "same_reading st st' \<Longrightarrow> read_lines mode i lines st = Inr r \<Longrightarrow>
    \<exists>r'. read_lines mode' i lines st' = Inr r' \<and> same_reading r r'"
proof (induction lines arbitrary: i st st')
  case (Cons line lines)
  from Cons.prems(2) obtain s where s: "read_line mode (i + 1) line st = Inr s"
    "read_lines mode (i + 1) lines s = Inr r" by auto
  from same_reading_line [OF Cons.prems(1) s(1)] obtain s' where
    "read_line mode' (i + 1) line st' = Inr s'" "same_reading s s'" by blast
  with Cons.IH [OF _ s(2)] show ?case by simp
qed simp

lemma from_lines_modes:
  assumes "from_lines_with_branch_mode lines mode = Inr p"
  obtains q where "from_lines_with_branch_mode lines mode' = Inr q" "section_ops q = section_ops p"
    "globals q = globals p" "entry_label q = entry_label p"
    "\<And>l. map_option sym_section (map_of (symbols q) l) = map_option sym_section (map_of (symbols p) l)"
proof -
  from assms obtain st where st: "read_lines mode 0 lines initial_reader = Inr st" and p: "p = parsed_of mode st"
    by (auto simp: from_lines_with_branch_mode_def)
  have "same_reading initial_reader initial_reader" by (simp add: same_reading_def)
  from same_reading_lines [OF this st] obtain st' where
    st': "read_lines mode' 0 lines initial_reader = Inr st'" "same_reading st st'" by blast
  have sec: "map_option sym_section (map_of (rd_symbols st') l) = map_option sym_section (map_of (rd_symbols st) l)" for l
    using same_reading_lookup [OF st'(2) [unfolded same_reading_def, THEN conjunct2, THEN conjunct2,
        THEN conjunct2, THEN conjunct2, THEN conjunct2], of l]
    by (cases "map_of (rd_symbols st') l"; cases "map_of (rd_symbols st) l") (auto simp: same_reading_def)
  show ?thesis
  proof (rule that [of "parsed_of mode' st'"])
    show "from_lines_with_branch_mode lines mode' = Inr (parsed_of mode' st')"
      by (simp add: from_lines_with_branch_mode_def st'(1))
  qed (use st'(2) sec in \<open>simp_all add: p section_ops_parsed same_reading_def\<close>, simp_all add: parsed_of_def sec split: option.split)
qed
section \<open>Relaxation keeps branches in reach\<close>

text \<open>Text made of whole words: labels, instructions, words, and alignments that never pad.\<close>

definition word_op :: "located_op \<Rightarrow> bool" where
  "word_op op \<longleftrightarrow>
     (case the_op op of
        OpLabel _ \<Rightarrow> True | OpInstruction _ \<Rightarrow> True | OpWord _ \<Rightarrow> True
      | OpAlign n \<Rightarrow> n \<in> {1, 2, 4} | OpByte _ \<Rightarrow> False | OpAscii _ \<Rightarrow> False)"

lemma padding_for_word:
  assumes "n \<in> {1, 2, 4}" "4 dvd off"
  shows "padding_for off n = 0"
proof -
  have "n dvd off" using assms by (auto intro: dvd_trans [of 2 4])
  with assms(1) show ?thesis
    using padding_for_shift [of 0 off 0] padding_for_shift [of 1 off 0] padding_for_shift [of 2 off 0]
    by (auto simp: padding_for_def align_up_def)
qed

lemma instruction_size_words:
  assumes "instruction_size inst sec i mode = Inr n"
  shows "4 dvd n" "instruction_size inst sec i Conservative = Inr m \<Longrightarrow> n \<le> m"
  using assms
  by (cases inst; auto simp: instruction_size_def branch_size_def li_sequence_size_def
      split: branch_size_mode.splits if_splits)+

lemma word_op_sizes:
  assumes "word_op op" "4 dvd off" "4 dvd coff" "op_len mode sec off i op = Inr n"
    "op_len Conservative sec coff i op = Inr m"
  shows "4 dvd n" "4 dvd m" "n \<le> m"
  using assms instruction_size_words
  by (cases "the_op op"; auto simp: word_op_def op_size_def padding_for_word)+

lemma run_size_words:
  assumes "list_all word_op ops" "4 dvd off" "4 dvd coff" "run_size (op_len mode sec) off i ops = Inr t"
    "run_size (op_len Conservative sec) coff i ops = Inr ct"
  shows "4 dvd t \<and> 4 dvd ct \<and> off \<le> t \<and> t - off \<le> ct - coff"
  using assms
proof (induction ops arbitrary: off coff i)
  case (Cons op ops)
  from Cons.prems obtain n m where n: "op_len mode sec off i op = Inr n"
      "run_size (op_len mode sec) (off + n) (Suc i) ops = Inr t"
    and m: "op_len Conservative sec coff i op = Inr m"
      "run_size (op_len Conservative sec) (coff + m) (Suc i) ops = Inr ct" by auto
  from Cons.prems(1) have op: "word_op op" by simp
  note sizes = word_op_sizes [OF op Cons.prems(2,3) n(1) m(1)]
  from Cons.IH [OF _ _ _ n(2) m(2)] Cons.prems sizes run_size_mono [OF m(2)] show ?case by auto
qed auto

text \<open>Distances between two places of the text shrink, and keep their direction.\<close>

lemma offsets_shrink:
  assumes ops: "list_all word_op ops" and "k \<le> j"
    and e: "run_size (op_len mode sec) 0 0 (take k ops) = Inr ek" "run_size (op_len mode sec) 0 0 (take j ops) = Inr ej"
    and c: "run_size (op_len Conservative sec) 0 0 (take k ops) = Inr ck"
      "run_size (op_len Conservative sec) 0 0 (take j ops) = Inr cj"
  shows "4 dvd ek" "4 dvd ej" "ek \<le> ej" "ej - ek \<le> cj - ck" "ck \<le> cj"
proof -
  have split: "take j ops = take k ops @ take (j - k) (drop k ops)"
    using \<open>k \<le> j\<close> by (metis add_diff_inverse_nat not_less take_add)
  have all: "list_all word_op (take k ops)" "list_all word_op (take (j - k) (drop k ops))"
    using ops by (auto simp: list_all_iff dest: in_set_takeD in_set_dropD)
  from run_size_words [OF all(1) _ _ e(1) c(1)] have k: "4 dvd ek" "4 dvd ck" by auto
  from e c have "run_size (op_len mode sec) ek (length (take k ops)) (take (j - k) (drop k ops)) = Inr ej"
    "run_size (op_len Conservative sec) ck (length (take k ops)) (take (j - k) (drop k ops)) = Inr cj"
    unfolding split run_size_append by simp_all
  from run_size_words [OF all(2) k this] run_size_mono [OF this(2)] k
  show "4 dvd ek" "4 dvd ej" "ek \<le> ej" "ej - ek \<le> cj - ck" "ck \<le> cj" by auto
qed

lemma relaxed_from_mono: "relaxed_from p layout i off ops R0 = Inr R \<Longrightarrow> R0 \<subseteq> R"
  by (induction p layout i off ops R0 rule: relaxed_from.induct)
    (force split: asm_op.splits if_splits)+

lemma relaxed_from_reach:
  assumes "relaxed_from p layout i off ops R0 = Inr R" "k < length ops" "the_op (ops ! k) = OpInstruction inst"
    "conditional_branch_parts inst \<noteq> None" "i + k \<notin> R"
  shows "\<exists>c t. run_size (op_len Conservative Text) off i (take k ops) = Inr c
    \<and> asm_branch_target inst p layout = Inr t \<and> signed_bits_fit (int t - int (text_user_base layout + c)) 13"
  using assms
proof (induction ops arbitrary: i off R0 k)
  case (Cons op ops)
  from Cons.prems(1) obtain R1 n where n: "op_len Conservative Text off i op = Inr n"
      "relaxed_from p layout (Suc i) (off + n) ops R1 = Inr R"
    by auto
  show ?case
  proof (cases k)
    case 0
    with Cons.prems(2-) have op: "the_op op = OpInstruction inst" "i \<notin> R" by simp_all
    with Cons.prems(1,4) n(1) obtain t d where t: "asm_branch_target inst p layout = Inr t"
      "relative_offset (text_user_base layout + off) t = Inr d"
      "relaxed_from p layout (Suc i) (off + n) ops (if \<not> signed_bits_fit d 13 then insert i R0 else R0) = Inr R"
      by auto
    from relaxed_from_mono [OF t(3)] op(2) have "signed_bits_fit d 13" by (auto split: if_splits)
    with t 0 show ?thesis by (simp add: relative_offset_Ok)
  next
    case (Suc j)
    with Cons.prems Cons.IH [OF n(2), of j] n(1) show ?thesis by simp
  qed
qed simp

lemma encode_b_type_total:
  "signed_bits_fit d 13 \<Longrightarrow> d mod 2 = 0 \<Longrightarrow> \<exists>w. encode_b_type opc f rs1 rs2 d = Inr w"
  by (simp add: encode_b_type_def encode_signed_bits_def Let_def)

lemma encode_j_type_total:
  "signed_bits_fit d 21 \<Longrightarrow> d mod 2 = 0 \<Longrightarrow> \<exists>w. encode_j_type opc rd d = Inr w"
  by (simp add: encode_j_type_def encode_signed_bits_def Let_def)

lemma encode_branch_total:
  assumes "symbol_address p label layout = Inr t" "inverse_branch_funct3 f = Some g"
    and "even (int t - int pc)"
    and "if rel then signed_bits_fit (int t - int pc - 4) 21 else signed_bits_fit (int t - int pc) 13"
  shows "\<exists>bs. encode_branch (rs1, rs2, label, f) pc p layout rel = Inr bs"
proof (cases rel)
  case True
  have "relative_offset (pc + 4) t = Inr (int t - int pc - 4)"
    using assms(4) True by (simp add: relative_offset_Ok in_i64_def signed_bits_fit_def)
  moreover from encode_b_type_total [of 8] obtain w1 where "encode_b_type 0x63 g rs1 rs2 8 = Inr w1"
    by (fastforce simp: signed_bits_fit_def)
  moreover from encode_j_type_total [of "int t - int pc - 4"] assms(3,4) True obtain w2 where
    "encode_j_type 0x6f 0 (int t - int pc - 4) = Inr w2" by (fastforce simp: mod_2_eq_odd)
  ultimately show ?thesis using assms True by (simp add: encode_branch_def emit_def emit_seq_def)
next
  case False
  have "relative_offset pc t = Inr (int t - int pc)"
    using assms(4) False by (simp add: relative_offset_Ok in_i64_def signed_bits_fit_def)
  moreover from encode_b_type_total [of "int t - int pc"] assms(3,4) False obtain w where
    "encode_b_type 0x63 f rs1 rs2 (int t - int pc) = Inr w" by (fastforce simp: mod_2_eq_odd)
  ultimately show ?thesis using assms False by (simp add: encode_branch_def emit_def)
qed

lemma from_lines_relaxed_passes:
  assumes "from_lines_relaxed lines layout = Inr p"
  obtains p0 where "from_lines_with_branch_mode lines Conservative = Inr p0"
    "relaxed_branch_indices p0 layout = Inr (relaxed_text_branches p)"
    "from_lines_with_branch_mode lines (Exact (relaxed_text_branches p)) = Inr p"
    "section_ops p = section_ops p0"
    "\<And>l. map_option sym_section (map_of (symbols p) l) = map_option sym_section (map_of (symbols p0) l)"
proof -
  from assms obtain p0 R where p0: "from_lines_with_branch_mode lines Conservative = Inr p0"
      "relaxed_branch_indices p0 layout = Inr R" and p: "from_lines_with_branch_mode lines (Exact R) = Inr p"
    by (auto simp: from_lines_relaxed_def)
  from from_lines_modes [OF p0(1), of "Exact R"] p have
    "section_ops p = section_ops p0"
    "\<And>l. map_option sym_section (map_of (symbols p) l) = map_option sym_section (map_of (symbols p0) l)"
    by (metis sum.inject(2))+
  with that [OF p0(1)] p0(2) p show ?thesis by (simp add: from_lines_relaxed_set [OF p])
qed

lemma symbol_address_text:
  "map_of (symbols p) l = Some d \<Longrightarrow> sym_section d = Text \<Longrightarrow>
    symbol_address p l layout = Inr (text_user_base layout + sym_offset d)"
  by (simp add: symbol_address_def)

text \<open>
  The distance a branch has in the final layout: it is a multiple of four, no longer than the text,
  and a short branch reaches.
\<close>

lemma relaxed_distance:
  assumes p: "from_lines_relaxed lines layout = Inr p" and words: "list_all word_op (text_ops p)"
    and k: "k < length (text_ops p)" "the_op (text_ops p ! k) = OpInstruction inst"
    and parts: "conditional_branch_parts inst = Some (rs1, rs2, label, f)"
    and d: "map_of (symbols p) label = Some d" "sym_section d = Text"
  obtains ek where "offset_of (Exact (relaxed_text_branches p)) p Text k = Inr ek"
    "4 dvd int (sym_offset d) - int ek" "\<bar>int (sym_offset d) - int ek\<bar> \<le> int (text_size p)"
    "k \<notin> relaxed_text_branches p \<Longrightarrow> signed_bits_fit (int (sym_offset d) - int ek) 13"
proof -
  let ?R = "relaxed_text_branches p"
  obtain p0 where p0: "from_lines_with_branch_mode lines Conservative = Inr p0"
    and R: "relaxed_branch_indices p0 layout = Inr ?R"
    and pp: "from_lines_with_branch_mode lines (Exact ?R) = Inr p"
    and ops: "section_ops p = section_ops p0"
    and sec: "map_option sym_section (map_of (symbols p) label) = map_option sym_section (map_of (symbols p0) label)"
    using from_lines_relaxed_passes [OF p] by metis
  have tx: "section_ops p Text = text_ops p" "section_ops p0 Text = text_ops p"
    by (simp_all add: ops [symmetric] section_ops_def)
  from d sec obtain d0 where d0: "map_of (symbols p0) label = Some d0" "sym_section d0 = Text"
    by (cases "map_of (symbols p0) label") auto
  obtain j where j: "label_index p label Text j" "offset_of (Exact ?R) p Text j = Inr (sym_offset d)"
    "\<And>s i. label_index p label s i \<Longrightarrow> s = Text \<and> i = j"
    using from_lines_symbol [OF pp d(1)] d(2) by metis
  obtain j0 where j0: "label_index p0 label Text j0" "offset_of Conservative p0 Text j0 = Inr (sym_offset d0)"
    using from_lines_symbol [OF p0 d0(1)] d0(2) by metis
  from j0(1) have "label_index p label Text j0" by (simp add: label_index_def tx)
  with j(3) have "j0 = j" by blast
  obtain ek where ek: "offset_of (Exact ?R) p Text k = Inr ek"
    using from_lines_size [OF pp, of Text] run_size_prefix unfolding offset_of_def by metis
  obtain ck where ck: "offset_of Conservative p0 Text k = Inr ck"
    using from_lines_size [OF p0, of Text] run_size_prefix unfolding offset_of_def by metis
  note e = ek [unfolded offset_of_def tx] j(2) [unfolded offset_of_def tx]
  note c = ck [unfolded offset_of_def tx] j0(2) [unfolded offset_of_def tx \<open>j0 = j\<close>]
  have bound: "ek \<le> text_size p" "sym_offset d \<le> text_size p"
    using from_lines_size [OF pp, of Text] e run_size_prefix unfolding tx section_size_def
    by (metis section_kind.case(1) sum.inject(2))+
  have shrink: "4 dvd int (sym_offset d) - int ek
      \<and> (if k \<le> j then ek \<le> sym_offset d \<and> sym_offset d - ek \<le> sym_offset d0 - ck \<and> ck \<le> sym_offset d0
         else sym_offset d \<le> ek \<and> ek - sym_offset d \<le> ck - sym_offset d0 \<and> sym_offset d0 \<le> ck)"
    using offsets_shrink [OF words _ e c] offsets_shrink [OF words _ e(2,1) c(2,1)]
    by (auto simp: of_nat_dvd_iff [of 4, simplified])
  have reach: "signed_bits_fit (int (sym_offset d) - int ek) 13" if "k \<notin> ?R"
  proof -
    from relaxed_from_reach [OF R [unfolded relaxed_branch_indices_def], of k] k that parts c
    obtain t where t: "asm_branch_target inst p0 layout = Inr t"
      "signed_bits_fit (int t - int (text_user_base layout + ck)) 13"
      using tx by (auto simp: section_ops_def)
    have "t = text_user_base layout + sym_offset d0"
      using t(1) parts symbol_address_text [OF d0] by (simp add: asm_branch_target_def)
    with t(2) have "signed_bits_fit (int (sym_offset d0) - int ck) 13" by simp
    with shrink show ?thesis by (auto simp: signed_bits_fit_def split: if_splits)
  qed
  show ?thesis using that [OF ek _ _ reach] shrink bound by auto
qed

text \<open>
  C6: Relaxation is sound. In a relaxed program whose text consists of whole words and is shorter than
  a mebibyte, every conditional branch to a label of the text section can be encoded at its final
  place, short or relaxed as chosen on the conservative layout: no branch turns out to be out of
  range afterwards.
\<close>
theorem relaxed_branches_encode:
  assumes "from_lines_relaxed lines layout = Inr p" "list_all word_op (text_ops p)"
    "text_size p \<le> 2 ^ 20 - 4" "k < length (text_ops p)" "the_op (text_ops p ! k) = OpInstruction inst"
    "conditional_branch_parts inst = Some (rs1, rs2, label, f)"
    "map_of (symbols p) label = Some d" "sym_section d = Text"
  shows "\<exists>off bs. offset_of (Exact (relaxed_text_branches p)) p Text k = Inr off
    \<and> encode_instruction inst (text_user_base final + off) p final (k \<in> relaxed_text_branches p) = Inr bs"
proof -
  obtain ek where ek: "offset_of (Exact (relaxed_text_branches p)) p Text k = Inr ek"
    and dist: "4 dvd int (sym_offset d) - int ek" "\<bar>int (sym_offset d) - int ek\<bar> \<le> int (text_size p)"
      "k \<notin> relaxed_text_branches p \<Longrightarrow> signed_bits_fit (int (sym_offset d) - int ek) 13"
    using relaxed_distance [OF assms(1,2,4-8)] by blast
  let ?t = "text_user_base final + sym_offset d" and ?pc = "text_user_base final + ek"
  have "even (int ?t - int ?pc)" using dist(1) by (simp add: dvd_def) presburger
  moreover have "if k \<in> relaxed_text_branches p then signed_bits_fit (int ?t - int ?pc - 4) 21
      else signed_bits_fit (int ?t - int ?pc) 13"
    using dist(2,3) assms(3) by (auto simp: signed_bits_fit_def)
  moreover obtain g where "inverse_branch_funct3 f = Some g"
    using conditional_branch_parts_funct3(1) [OF assms(6)] by blast
  ultimately obtain bs where
    "encode_branch (rs1, rs2, label, f) ?pc p final (k \<in> relaxed_text_branches p) = Inr bs"
    using encode_branch_total [OF symbol_address_text [OF assms(7,8)]] by blast
  then show ?thesis using ek conditional_branch_parts_funct3(4) [OF assms(6)] by auto
qed

theorem relaxed_branches_encode_witness:
  "\<exists>off bs. offset_of (Exact (relaxed_text_branches sample_parsed)) sample_parsed Text 1 = Inr off
    \<and> encode_instruction (IBeqz 10 ''.Lzero'') (text_user_base (for_text_user_size 12) + off) sample_parsed
        (for_text_user_size 12) (1 \<in> relaxed_text_branches sample_parsed) = Inr bs"
  by (rule relaxed_branches_encode [OF sample_relaxed, where d = "\<lparr>sym_section = Text, sym_offset = 8, sym_line = 6\<rparr>"])
    (simp_all add: sample_parsed_def sample_op_def word_op_def)

end
