(* ===== verification/Machine_Blocks.thy ===== *)
theory Machine_Blocks
  imports Asm_Layout
begin

text \<open>
  The machine control-flow graph of the text section (\<^verbatim>\<open>machine_blocks\<close> to
  \<^verbatim>\<open>layout_metrics\<close> and \<^verbatim>\<open>MachineLayoutPlan::build\<close> of
  \<^verbatim>\<open>src/codegen/assembler.rs\<close>): splitting the operations into blocks, the edges between them, the
  coverage check, the layout order, the metrics and the evidence exported to the artifact checker.
  \<open>Machine_Cfg\<close> has the lemmas.
\<close>

section \<open>Blocks\<close>

record text_op_layout =
  lo_index :: nat
  lo_offset :: nat
  lo_size :: nat

datatype machine_terminator =
    TermFallthrough
  | TermJump string
  | TermConditionalBranch string
  | TermReturn

record machine_block =
  mb_label :: "string option"
  mb_op_start :: nat
  mb_op_end :: nat
  mb_byte_start :: nat
  mb_byte_size :: nat
  mb_terminator :: machine_terminator

datatype machine_cfg_edge_kind =
    EdgeFallthrough
  | EdgeJump
  | EdgeConditionalTaken
  | EdgeConditionalFallthrough
  | EdgeCall

record machine_cfg_edge =
  edge_from :: nat
  edge_to :: nat
  edge_kind :: machine_cfg_edge_kind

record machine_cfg =
  cfg_blocks :: "machine_block list"
  cfg_edges :: "machine_cfg_edge list"

record machine_block_coverage =
  executable_ops :: nat
  covered_ops :: nat

record machine_placed_block =
  pl_block :: nat
  pl_byte_start :: nat
  pl_byte_size :: nat

record machine_layout_order =
  block_order :: "nat list"
  placed_blocks :: "machine_placed_block list"
  order_text_size :: nat

definition sub_ops :: "'a list \<Rightarrow> nat \<Rightarrow> nat \<Rightarrow> 'a list" where
  "sub_ops xs a b = take (b - a) (drop a xs)"

definition is_label :: "located_op \<Rightarrow> bool" where
  "is_label op = (case the_op op of OpLabel _ \<Rightarrow> True | _ \<Rightarrow> False)"

fun op_layouts_from :: "nat set \<Rightarrow> nat \<Rightarrow> nat \<Rightarrow> located_op list \<Rightarrow> text_op_layout list asm" where
  "op_layouts_from relaxed op_index offset [] = Ok []"
| "op_layouts_from relaxed op_index offset (op # ops) =
     rbind (map_err (attach (op_prov op)) (op_size (the_op op) offset Text op_index (Exact relaxed))) (\<lambda>n.
     rbind (op_layouts_from relaxed (Suc op_index) (offset + n) ops) (\<lambda>rest.
       Ok (\<lparr>lo_index = op_index, lo_offset = offset, lo_size = n\<rparr> # rest)))"

definition text_op_layouts :: "parsed_assembly \<Rightarrow> text_op_layout list asm" where
  "text_op_layouts p = op_layouts_from (relaxed_text_branches p) 0 0 (text_ops p)"

definition block_has_executable_ops :: "located_op list \<Rightarrow> bool" where
  "block_has_executable_ops ops = (\<exists>op \<in> set ops. \<not> is_label op)"

definition instruction_terminator :: "located_op \<Rightarrow> machine_terminator option" where
  "instruction_terminator op =
     (case the_op op of
        OpInstruction inst \<Rightarrow>
          (case inst of
             IJump label \<Rightarrow> Some (TermJump label)
           | IRet \<Rightarrow> Some TermReturn
           | _ \<Rightarrow> map_option (\<lambda>(_, _, label, _). TermConditionalBranch label) (conditional_branch_parts inst))
      | _ \<Rightarrow> None)"

fun find_map :: "('a \<Rightarrow> 'b option) \<Rightarrow> 'a list \<Rightarrow> 'b option" where
  "find_map f [] = None"
| "find_map f (x # xs) = (case f x of Some y \<Rightarrow> Some y | None \<Rightarrow> find_map f xs)"

definition build_machine_block ::
  "parsed_assembly \<Rightarrow> text_op_layout list \<Rightarrow> nat \<Rightarrow> nat \<Rightarrow> string option \<Rightarrow> machine_block" where
  "build_machine_block p layouts op_start op_end label =
     (let byte_start = (if op_start < length layouts then lo_offset (layouts ! op_start) else 0);
          byte_end = (if 1 \<le> op_end \<and> op_end - 1 < length layouts
                      then lo_offset (layouts ! (op_end - 1)) + lo_size (layouts ! (op_end - 1)) else byte_start);
          terminator = (case find_map instruction_terminator (rev (sub_ops (text_ops p) op_start op_end)) of
                          Some t \<Rightarrow> t | None \<Rightarrow> TermFallthrough)
      in \<lparr>mb_label = label, mb_op_start = op_start, mb_op_end = op_end, mb_byte_start = byte_start,
          mb_byte_size = byte_end - byte_start, mb_terminator = terminator\<rparr>)"

text \<open>The loop of \<^verbatim>\<open>machine_blocks\<close>: the start and the label of the open block, and the blocks so far.\<close>

fun scan_blocks ::
  "parsed_assembly \<Rightarrow> text_op_layout list \<Rightarrow> nat \<Rightarrow> located_op list
    \<Rightarrow> nat \<times> string option \<times> machine_block list \<Rightarrow> nat \<times> string option \<times> machine_block list" where
  "scan_blocks p layouts op_index [] s = s"
| "scan_blocks p layouts op_index (op # ops) (block_start, block_label, blocks) =
     scan_blocks p layouts (Suc op_index) ops
       (case the_op op of
          OpLabel label \<Rightarrow>
            if block_has_executable_ops (sub_ops (text_ops p) block_start op_index)
            then (op_index, Some label,
                  blocks @ [build_machine_block p layouts block_start op_index block_label])
            else (block_start, (if block_label = None then Some label else block_label), blocks)
        | _ \<Rightarrow>
            if instruction_terminator op \<noteq> None
            then (Suc op_index, None,
                  blocks @ [build_machine_block p layouts block_start (Suc op_index) block_label])
            else (block_start, block_label, blocks))"

definition machine_blocks :: "parsed_assembly \<Rightarrow> machine_block list asm" where
  "machine_blocks p =
     rbind (text_op_layouts p) (\<lambda>layouts.
       case scan_blocks p layouts 0 (text_ops p) (0, None, []) of (block_start, block_label, blocks) \<Rightarrow>
         Ok (if block_start < length (text_ops p) \<and> block_has_executable_ops (drop block_start (text_ops p))
             then blocks @ [build_machine_block p layouts block_start (length (text_ops p)) block_label]
             else blocks))"

section \<open>Edges\<close>

definition find_block_at :: "nat \<Rightarrow> machine_block list \<Rightarrow> nat option" where
  "find_block_at offset blocks = List.find (\<lambda>i. mb_byte_start (blocks ! i) = offset) [0..<length blocks]"

text \<open>The hash map of \<^verbatim>\<open>machine_label_to_block\<close>, as a partial function of the label.\<close>

definition machine_label_to_block :: "parsed_assembly \<Rightarrow> machine_block list \<Rightarrow> string \<Rightarrow> nat option" where
  "machine_label_to_block p blocks label =
     (case map_of (symbols p) label of
        None \<Rightarrow> None
      | Some s \<Rightarrow> if sym_section s \<noteq> Text then None else find_block_at (sym_offset s) blocks)"

definition machine_cfg_target_block ::
  "parsed_assembly \<Rightarrow> string \<Rightarrow> (string \<Rightarrow> nat option) \<Rightarrow> nat \<Rightarrow> nat \<Rightarrow> nat asm" where
  "machine_cfg_target_block p target label_to_block block_index op_index =
     (case label_to_block target of
        Some b \<Rightarrow> Ok b
      | None \<Rightarrow>
          let error = new_error (BranchTargetNotBlock target block_index op_index)
          in Err (if op_index < length (text_ops p) then attach (op_prov (text_ops p ! op_index)) error else error))"

definition call_target :: "located_op \<Rightarrow> string option" where
  "call_target op = (case the_op op of OpInstruction (ICall label) \<Rightarrow> Some label | _ \<Rightarrow> None)"

definition machine_block_call_targets :: "parsed_assembly \<Rightarrow> machine_block \<Rightarrow> string list" where
  "machine_block_call_targets p block =
     List.map_filter call_target (sub_ops (text_ops p) (mb_op_start block) (mb_op_end block))"

definition block_edges ::
  "parsed_assembly \<Rightarrow> machine_block list \<Rightarrow> nat \<Rightarrow> machine_block \<Rightarrow> machine_cfg_edge list asm" where
  "block_edges p blocks index block =
     (let label_to_block = machine_label_to_block p blocks;
          calls = map (\<lambda>t. \<lparr>edge_from = index, edge_to = t, edge_kind = EdgeCall\<rparr>)
                    (List.map_filter label_to_block (machine_block_call_targets p block));
          next_edge = (\<lambda>k. if index + 1 < length blocks
                        then [\<lparr>edge_from = index, edge_to = index + 1, edge_kind = k\<rparr>] else []);
          op_index = mb_op_end block - 1
      in case mb_terminator block of
           TermFallthrough \<Rightarrow> Ok (calls @ next_edge EdgeFallthrough)
         | TermJump target \<Rightarrow>
             rbind (machine_cfg_target_block p target label_to_block index op_index) (\<lambda>t.
               Ok (calls @ [\<lparr>edge_from = index, edge_to = t, edge_kind = EdgeJump\<rparr>]))
         | TermConditionalBranch target \<Rightarrow>
             rbind (machine_cfg_target_block p target label_to_block index op_index) (\<lambda>t.
               Ok (calls @ [\<lparr>edge_from = index, edge_to = t, edge_kind = EdgeConditionalTaken\<rparr>]
                   @ next_edge EdgeConditionalFallthrough))
         | TermReturn \<Rightarrow> Ok calls)"

fun edges_from ::
  "parsed_assembly \<Rightarrow> machine_block list \<Rightarrow> nat \<Rightarrow> machine_block list \<Rightarrow> machine_cfg_edge list asm" where
  "edges_from p all_blocks index [] = Ok []"
| "edges_from p all_blocks index (block # blocks) =
     rbind (block_edges p all_blocks index block) (\<lambda>es.
     rbind (edges_from p all_blocks (Suc index) blocks) (\<lambda>rest. Ok (es @ rest)))"

definition machine_cfg_of :: "parsed_assembly \<Rightarrow> machine_cfg asm" where
  "machine_cfg_of p =
     rbind (machine_blocks p) (\<lambda>blocks.
     rbind (edges_from p blocks 0 blocks) (\<lambda>edges.
       Ok \<lparr>cfg_blocks = blocks, cfg_edges = edges\<rparr>))"

section \<open>Checks\<close>

fun cover_ops :: "located_op list \<Rightarrow> nat list \<Rightarrow> nat set \<Rightarrow> nat set asm" where
  "cover_ops ops [] covered = Ok covered"
| "cover_ops ops (i # is) covered =
     (if is_label (ops ! i) then cover_ops ops is covered
      else if i \<in> covered then fail (CoverageOverlap i)
      else cover_ops ops is (insert i covered))"

fun cover_blocks :: "located_op list \<Rightarrow> machine_block list \<Rightarrow> nat set \<Rightarrow> nat set asm" where
  "cover_blocks ops [] covered = Ok covered"
| "cover_blocks ops (block # blocks) covered =
     (if mb_op_start block \<ge> mb_op_end block \<or> mb_op_end block > length ops
      then fail (InvalidBlockRange (mb_op_start block) (mb_op_end block))
      else if \<not> block_has_executable_ops (sub_ops ops (mb_op_start block) (mb_op_end block))
      then fail EmptyBlock
      else rbind (cover_ops ops [mb_op_start block..<mb_op_end block] covered) (cover_blocks ops blocks))"

definition executable_text_ops :: "parsed_assembly \<Rightarrow> nat" where
  "executable_text_ops p = length (filter (\<lambda>op. \<not> is_label op) (text_ops p))"

definition validate_machine_block_coverage :: "parsed_assembly \<Rightarrow> machine_cfg \<Rightarrow> machine_block_coverage asm" where
  "validate_machine_block_coverage p cfg =
     rbind (cover_blocks (text_ops p) (cfg_blocks cfg) {}) (\<lambda>covered.
       if card covered \<noteq> executable_text_ops p then fail (CoverageCount (card covered) (executable_text_ops p))
       else Ok \<lparr>executable_ops = executable_text_ops p, covered_ops = card covered\<rparr>)"

fun check_order :: "nat \<Rightarrow> nat list \<Rightarrow> nat set \<Rightarrow> unit asm" where
  "check_order n [] seen = Ok ()"
| "check_order n (b # bs) seen =
     (if b \<ge> n then fail (LayoutOrderMissing b)
      else if b \<in> seen then fail (LayoutOrderRepeats b)
      else check_order n bs (insert b seen))"

definition validate_machine_layout_order :: "machine_cfg \<Rightarrow> nat list \<Rightarrow> unit asm" where
  "validate_machine_layout_order cfg order =
     (if length order \<noteq> length (cfg_blocks cfg)
      then fail (LayoutOrderLength (length order) (length (cfg_blocks cfg)))
      else check_order (length (cfg_blocks cfg)) order {})"

fun place_blocks :: "machine_block list \<Rightarrow> nat \<Rightarrow> nat list \<Rightarrow> machine_placed_block list \<times> nat" where
  "place_blocks blocks byte_start [] = ([], byte_start)"
| "place_blocks blocks byte_start (b # order) =
     (let size_b = mb_byte_size (blocks ! b);
          rest = place_blocks blocks (byte_start + size_b) order
      in (\<lparr>pl_block = b, pl_byte_start = byte_start, pl_byte_size = size_b\<rparr> # fst rest, snd rest))"

definition build_machine_layout_order :: "machine_cfg \<Rightarrow> nat list \<Rightarrow> machine_layout_order asm" where
  "build_machine_layout_order cfg order =
     rbind (validate_machine_layout_order cfg order) (\<lambda>_.
       let placed = place_blocks (cfg_blocks cfg) 0 order
       in Ok \<lparr>block_order = order, placed_blocks = fst placed, order_text_size = snd placed\<rparr>)"

definition machine_layout_order_of :: "machine_cfg \<Rightarrow> machine_layout_order asm" where
  "machine_layout_order_of cfg = build_machine_layout_order cfg [0..<length (cfg_blocks cfg)]"

section \<open>Reachable blocks\<close>

definition edge_targets :: "machine_cfg_edge list \<Rightarrow> nat \<Rightarrow> nat list" where
  "edge_targets edges block = map edge_to (filter (\<lambda>e. edge_from e = block) edges)"

text \<open>
  The work-list loop of \<^verbatim>\<open>unreachable_machine_block_count\<close>. The head of the list is the end of the
  vector, where it pushes and pops.
\<close>

function reach :: "machine_cfg_edge list \<Rightarrow> nat list \<Rightarrow> nat set \<Rightarrow> nat set" where
  "reach edges [] reachable = reachable"
| "reach edges (block # stack) reachable =
     (if block \<in> reachable then reach edges stack reachable
      else reach edges (rev (edge_targets edges block) @ stack) (insert block reachable))"
  by pat_completeness auto
termination
proof (relation "measures [\<lambda>(edges, stack, reachable). card ((set stack \<union> edge_to ` set edges) - reachable),
    \<lambda>(edges, stack, reachable). length stack]")
  fix edges :: "machine_cfg_edge list" and block stack and reachable :: "nat set"
  let ?all = "set (block # stack) \<union> edge_to ` set edges"
  have targets: "set (edge_targets edges block) \<subseteq> edge_to ` set edges" by (auto simp: edge_targets_def)
  show "((edges, stack, reachable), edges, block # stack, reachable)
      \<in> measures [\<lambda>(edges, stack, reachable). card ((set stack \<union> edge_to ` set edges) - reachable),
          \<lambda>(edges, stack, reachable). length stack]" if "block \<in> reachable"
    using card_mono [of "?all - reachable" "(set stack \<union> edge_to ` set edges) - reachable"] that
    by (auto simp: nless_le)
  show "((edges, rev (edge_targets edges block) @ stack, insert block reachable), edges, block # stack, reachable)
      \<in> measures [\<lambda>(edges, stack, reachable). card ((set stack \<union> edge_to ` set edges) - reachable),
          \<lambda>(edges, stack, reachable). length stack]" if "block \<notin> reachable"
  proof -
    have "set (rev (edge_targets edges block) @ stack) \<union> edge_to ` set edges - insert block reachable
        \<subset> ?all - reachable"
      using that targets by auto
    then show ?thesis by (auto intro: psubset_card_mono)
  qed
qed simp

definition unreachable_machine_block_count :: "parsed_assembly \<Rightarrow> machine_cfg \<Rightarrow> nat" where
  "unreachable_machine_block_count p cfg =
     (if cfg_blocks cfg = [] then 0
      else let label_to_block = machine_label_to_block p (cfg_blocks cfg);
               root = (case Option.bind (entry_label p) label_to_block of Some b \<Rightarrow> b | None \<Rightarrow> 0)
           in length (cfg_blocks cfg) - card (reach (cfg_edges cfg) [root] {}))"

section \<open>Metrics and the layout plan\<close>

record backend_layout_metrics =
  m_text_size :: nat
  m_rodata_size :: nat
  m_executable_text_op_count :: nat
  m_covered_text_op_count :: nat
  m_relaxed_branch_count :: nat
  m_max_cond_branch_abs_distance :: nat
  m_machine_block_count :: nat
  m_max_machine_block_size :: nat
  m_conditional_branch_block_count :: nat
  m_labeled_machine_block_count :: nat
  m_machine_cfg_edge_count :: nat
  m_machine_call_edge_count :: nat
  m_unreachable_machine_block_count :: nat
  m_layout_order_block_count :: nat
  m_layout_order_text_size :: nat

fun max_branch_distance ::
  "parsed_assembly \<Rightarrow> section_layout \<Rightarrow> text_op_layout list \<Rightarrow> nat \<Rightarrow> nat asm" where
  "max_branch_distance p layout [] best = Ok best"
| "max_branch_distance p layout (l # ls) best =
     (let op = text_ops p ! lo_index l
      in case the_op op of
           OpInstruction inst \<Rightarrow>
             if conditional_branch_parts inst = None then max_branch_distance p layout ls best
             else
               rbind (map_err (attach (op_prov op)) (asm_branch_target inst p layout)) (\<lambda>target.
               rbind (map_err (attach (op_prov op))
                   (relative_offset (text_user_base layout + lo_offset l) target)) (\<lambda>d.
                 max_branch_distance p layout ls (max best (nat \<bar>d\<bar>))))
         | _ \<Rightarrow> max_branch_distance p layout ls best)"

definition is_conditional_block :: "machine_block \<Rightarrow> bool" where
  "is_conditional_block b = (case mb_terminator b of TermConditionalBranch _ \<Rightarrow> True | _ \<Rightarrow> False)"

definition layout_metrics ::
  "parsed_assembly \<Rightarrow> section_layout \<Rightarrow> machine_cfg \<Rightarrow> machine_layout_order \<Rightarrow> machine_block_coverage
    \<Rightarrow> backend_layout_metrics asm" where
  "layout_metrics p layout cfg order coverage =
     rbind (text_op_layouts p) (\<lambda>layouts.
     rbind (max_branch_distance p layout layouts 0) (\<lambda>distance.
       Ok \<lparr>m_text_size = sum_list (map lo_size layouts),
           m_rodata_size = section_size p Rodata,
           m_executable_text_op_count = executable_ops coverage,
           m_covered_text_op_count = covered_ops coverage,
           m_relaxed_branch_count = card (relaxed_text_branches p),
           m_max_cond_branch_abs_distance = distance,
           m_machine_block_count = length (cfg_blocks cfg),
           m_max_machine_block_size = fold max (map mb_byte_size (cfg_blocks cfg)) 0,
           m_conditional_branch_block_count = length (filter is_conditional_block (cfg_blocks cfg)),
           m_labeled_machine_block_count = length (filter (\<lambda>b. mb_label b \<noteq> None) (cfg_blocks cfg)),
           m_machine_cfg_edge_count = length (cfg_edges cfg),
           m_machine_call_edge_count = length (filter (\<lambda>e. edge_kind e = EdgeCall) (cfg_edges cfg)),
           m_unreachable_machine_block_count = unreachable_machine_block_count p cfg,
           m_layout_order_block_count = length (block_order order),
           m_layout_order_text_size = order_text_size order\<rparr>))"

record machine_layout_plan =
  plan_parsed :: parsed_assembly
  plan_layout :: section_layout
  plan_cfg :: machine_cfg
  plan_order :: machine_layout_order
  plan_metrics :: backend_layout_metrics

definition build_plan :: "string list \<Rightarrow> machine_layout_plan asm" where
  "build_plan lines =
     rbind (from_lines_with_branch_mode lines Conservative) (\<lambda>preliminary.
     let preliminary_layout = for_text_user_size (section_size preliminary Text) in
     rbind (from_lines_relaxed lines preliminary_layout) (\<lambda>parsed.
     let layout = for_text_user_size (section_size parsed Text) in
     rbind (machine_cfg_of parsed) (\<lambda>cfg.
     rbind (validate_machine_block_coverage parsed cfg) (\<lambda>coverage.
     rbind (machine_layout_order_of cfg) (\<lambda>order.
     rbind (layout_metrics parsed layout cfg order coverage) (\<lambda>metrics.
       Ok \<lparr>plan_parsed = parsed, plan_layout = layout, plan_cfg = cfg, plan_order = order,
           plan_metrics = metrics\<rparr>))))))"

section \<open>Machine evidence\<close>

text \<open>
  What the evidence reads of the intermediate representation: the name of each callable item and,
  for each of its blocks, the number and the code of the runtime error it raises. The map of fixed
  result frames, which is always empty here, is left out.
\<close>

record ir_block =
  ir_block_id :: nat
  ir_runtime_error :: "nat option"

datatype ir_item =
    IrTypeDef
  | IrInvariant
  | IrAction string "ir_block list"
  | IrFunction string "ir_block list"
  | IrLock string "ir_block list"

definition ir_callable :: "ir_item \<Rightarrow> (string \<times> ir_block list) option" where
  "ir_callable item =
     (case item of
        IrAction name blocks \<Rightarrow> Some (name, blocks)
      | IrLock name blocks \<Rightarrow> Some (name, blocks)
      | IrFunction name blocks \<Rightarrow> Some (name, blocks)
      | IrTypeDef \<Rightarrow> None
      | IrInvariant \<Rightarrow> None)"

definition block_asm_label :: "string \<Rightarrow> nat \<Rightarrow> string" where
  "block_asm_label name i = ''.L'' @ name @ ''_block_'' @ show_nat i"

definition item_error_labels :: "ir_item \<Rightarrow> (string \<rightharpoonup> nat list) \<Rightarrow> string \<rightharpoonup> nat list" where
  "item_error_labels item labels =
     (case ir_callable item of
        None \<Rightarrow> labels
      | Some (name, blocks) \<Rightarrow>
          fold (\<lambda>b labels. case ir_runtime_error b of
                  Some code \<Rightarrow> labels(block_asm_label name (ir_block_id b) \<mapsto> [code])
                | None \<Rightarrow> labels) blocks labels)"

definition ir_runtime_error_labels :: "ir_item list \<Rightarrow> string \<rightharpoonup> nat list" where
  "ir_runtime_error_labels items = fold item_error_labels items Map.empty"

datatype terminator_evidence = EvFallthrough | EvJump | EvConditionalBranch | EvReturn

definition terminator_evidence_of :: "machine_terminator \<Rightarrow> terminator_evidence" where
  "terminator_evidence_of t =
     (case t of TermFallthrough \<Rightarrow> EvFallthrough | TermJump _ \<Rightarrow> EvJump
      | TermConditionalBranch _ \<Rightarrow> EvConditionalBranch | TermReturn \<Rightarrow> EvReturn)"

record machine_block_evidence =
  ev_index :: nat
  ev_label :: "string option"
  ev_start :: nat
  ev_end :: nat
  ev_terminator :: terminator_evidence
  ev_runtime_error_codes :: "nat list"

record machine_layout_evidence =
  ev_text_start :: nat
  ev_text_end :: nat
  ev_entry_label :: string
  ev_blocks :: "machine_block_evidence list"
  ev_edges :: "machine_cfg_edge list"
  ev_symbols :: "(string \<times> nat) list"
  ev_symbol_order :: "string list"
  ev_globals :: "string set"
  ev_entry_frame_sizes :: "(string \<times> nat) list"

definition block_evidence ::
  "(string \<rightharpoonup> nat list) \<Rightarrow> nat \<Rightarrow> nat \<Rightarrow> machine_block \<Rightarrow> machine_block_evidence" where
  "block_evidence error_labels text_start index block =
     \<lparr>ev_index = index, ev_label = mb_label block, ev_start = text_start + mb_byte_start block,
      ev_end = text_start + mb_byte_start block + mb_byte_size block,
      ev_terminator = terminator_evidence_of (mb_terminator block),
      ev_runtime_error_codes =
        (case Option.bind (mb_label block) error_labels of Some codes \<Rightarrow> codes | None \<Rightarrow> [])\<rparr>"

definition label_name :: "located_op \<Rightarrow> string option" where
  "label_name op = (case the_op op of OpLabel l \<Rightarrow> Some l | _ \<Rightarrow> None)"

definition machine_layout_evidence_of ::
  "string list \<Rightarrow> (string \<times> nat) list \<Rightarrow> ir_item list \<Rightarrow> machine_layout_evidence asm" where
  "machine_layout_evidence_of lines entry_frame_sizes ir =
     rbind (build_plan lines) (\<lambda>plan.
     let error_labels = ir_runtime_error_labels ir;
         text_start = text_user_base (plan_layout plan) in
     rbind (ok_or (new_error EvidenceTextOverflow)
         (checked_add_u64 text_start (m_text_size (plan_metrics plan)))) (\<lambda>text_end.
     rbind (ok_or (new_error EvidenceNoEntry) (entry_label (plan_parsed plan))) (\<lambda>entry.
       Ok \<lparr>ev_text_start = text_start, ev_text_end = text_end, ev_entry_label = entry,
           ev_blocks = map (\<lambda>i. block_evidence error_labels text_start i (cfg_blocks (plan_cfg plan) ! i))
             [0..<length (cfg_blocks (plan_cfg plan))],
           ev_edges = cfg_edges (plan_cfg plan),
           ev_symbols = map (\<lambda>(l, s). (l, text_start + sym_offset s))
             (filter (\<lambda>(l, s). sym_section s = Text) (symbols (plan_parsed plan))),
           ev_symbol_order = List.map_filter label_name (text_ops (plan_parsed plan)),
           ev_globals = globals (plan_parsed plan),
           ev_entry_frame_sizes = entry_frame_sizes\<rparr>)))"

declare
  sub_ops_def [eval_simps] is_label_def [eval_simps] text_op_layouts_def [eval_simps]
  block_has_executable_ops_def [eval_simps] instruction_terminator_def [eval_simps]
  build_machine_block_def [eval_simps] machine_blocks_def [eval_simps] find_block_at_def [eval_simps]
  machine_label_to_block_def [eval_simps] machine_cfg_target_block_def [eval_simps]
  call_target_def [eval_simps] machine_block_call_targets_def [eval_simps] block_edges_def [eval_simps]
  machine_cfg_of_def [eval_simps] executable_text_ops_def [eval_simps]
  validate_machine_block_coverage_def [eval_simps] validate_machine_layout_order_def [eval_simps]
  build_machine_layout_order_def [eval_simps] machine_layout_order_of_def [eval_simps]
  edge_targets_def [eval_simps] unreachable_machine_block_count_def [eval_simps]
  is_conditional_block_def [eval_simps] layout_metrics_def [eval_simps] build_plan_def [eval_simps]
  block_evidence_def [eval_simps] label_name_def [eval_simps] machine_layout_evidence_of_def [eval_simps]

end
