(* ===== verification/Machine_Cfg.thy ===== *)
theory Machine_Cfg
  imports Machine_Blocks
begin

text \<open>
  Correctness of the machine control-flow graph: the blocks partition the executable operations and
  the bytes of the text section; control enters a block at its start and leaves it at its end; the
  edges are exactly the transfers of the terminators and calls; the work-list search finds the
  reachable blocks; the consistency checks of the code never fail.
\<close>

section \<open>Offsets of operations\<close>

lemma op_layouts_from_nth:
  "op_layouts_from R i off ops = Inr ls \<Longrightarrow> length ls = length ops \<and>
    (\<forall>k < length ops. lo_index (ls ! k) = i + k
       \<and> run_size (op_len (Exact R) Text) off i (take k ops) = Inr (lo_offset (ls ! k))
       \<and> run_size (op_len (Exact R) Text) off i (take (Suc k) ops) = Inr (lo_offset (ls ! k) + lo_size (ls ! k)))
    \<and> run_size (op_len (Exact R) Text) off i ops = Inr (off + sum_list (map lo_size ls))"
proof (induction ops arbitrary: i off ls)
  case (Cons op ops)
  from Cons.prems obtain n rest where n: "op_len (Exact R) Text off i op = Inr n"
    and rest: "op_layouts_from R (Suc i) (off + n) ops = Inr rest"
    and ls: "ls = \<lparr>lo_index = i, lo_offset = off, lo_size = n\<rparr> # rest" by auto
  have "lo_index (ls ! k) = i + k
       \<and> run_size (op_len (Exact R) Text) off i (take k (op # ops)) = Inr (lo_offset (ls ! k))
       \<and> run_size (op_len (Exact R) Text) off i (take (Suc k) (op # ops)) = Inr (lo_offset (ls ! k) + lo_size (ls ! k))"
    if "k < length (op # ops)" for k
    using Cons.IH [OF rest] that n ls by (cases k) simp_all
  moreover from Cons.IH [OF rest] n ls
  have "run_size (op_len (Exact R) Text) off i (op # ops) = Inr (off + sum_list (map lo_size ls))" "length ls = length (op # ops)"
    by (simp_all add: add.assoc)
  ultimately show ?case by blast
qed simp

text \<open>The byte offset at which operation \<open>k\<close> of the text section starts; the size of the section at its end.\<close>

definition off_at :: "text_op_layout list \<Rightarrow> nat \<Rightarrow> nat" where
  "off_at ls k = sum_list (map lo_size (take k ls))"

lemma text_layouts_offset:
  assumes "text_op_layouts p = Inr ls"
  shows "length ls = length (text_ops p)"
    and "k \<le> length (text_ops p) \<Longrightarrow>
      run_size (op_len (Exact (relaxed_text_branches p)) Text) 0 0 (take k (text_ops p)) = Inr (off_at ls k)"
    and "k < length (text_ops p) \<Longrightarrow> lo_index (ls ! k) = k \<and> lo_offset (ls ! k) = off_at ls k
      \<and> lo_offset (ls ! k) + lo_size (ls ! k) = off_at ls (Suc k)"
proof -
  note nth = op_layouts_from_nth [OF assms [unfolded text_op_layouts_def]]
  show len: "length ls = length (text_ops p)" using nth by simp
  have off: "lo_offset (ls ! k) = off_at ls k" if "k < length (text_ops p)" for k
    using that
  proof (induction k)
    case 0
    with nth have "run_size (op_len (Exact (relaxed_text_branches p)) Text) 0 0 (take 0 (text_ops p))
        = Inr (lo_offset (ls ! 0))" by blast
    then show ?case by (simp add: off_at_def)
  next
    case (Suc k)
    from nth Suc.prems have "lo_offset (ls ! Suc k) = lo_offset (ls ! k) + lo_size (ls ! k)"
      by (metis Suc_lessD sum.inject(2))
    with Suc len show ?case by (simp add: off_at_def take_Suc_conv_app_nth)
  qed
  then show "k < length (text_ops p) \<Longrightarrow> lo_index (ls ! k) = k \<and> lo_offset (ls ! k) = off_at ls k
      \<and> lo_offset (ls ! k) + lo_size (ls ! k) = off_at ls (Suc k)"
    using nth len by (simp add: off_at_def take_Suc_conv_app_nth)
  show "run_size (op_len (Exact (relaxed_text_branches p)) Text) 0 0 (take k (text_ops p)) = Inr (off_at ls k)"
    if "k \<le> length (text_ops p)"
  proof (cases "k = length (text_ops p)")
    case True
    with nth len show ?thesis by (simp add: off_at_def)
  next
    case False
    with that nth off [of k] show ?thesis by simp
  qed
qed

lemma off_at_mono: "i \<le> j \<Longrightarrow> off_at ls i \<le> off_at ls j"
proof -
  assume "i \<le> j"
  then obtain d where "j = i + d" using le_Suc_ex by blast
  then show ?thesis by (simp add: off_at_def take_add)
qed

lemma off_at_label:
  assumes "text_op_layouts p = Inr ls" "k < length (text_ops p)" "is_label (text_ops p ! k)"
  shows "off_at ls (Suc k) = off_at ls k"
proof -
  have "op_len m Text x k (text_ops p ! k) = Inr 0" for m x
    using assms(3) by (auto simp: is_label_def op_size_def split: asm_op.splits)
  with text_layouts_offset(2) [OF assms(1), of k] text_layouts_offset(2) [OF assms(1), of "Suc k"] assms(2)
  show ?thesis by (simp add: take_Suc_conv_app_nth run_size_append)
qed

lemma off_at_labels:
  assumes "text_op_layouts p = Inr ls" "i \<le> j" "j \<le> length (text_ops p)"
    "\<And>k. i \<le> k \<Longrightarrow> k < j \<Longrightarrow> is_label (text_ops p ! k)"
  shows "off_at ls j = off_at ls i"
  using assms(2-)
proof (induction j rule: dec_induct)
  case (step j)
  then show ?case using off_at_label [OF assms(1), of j] by simp
qed simp

section \<open>Blocks are basic blocks\<close>

text \<open>
  A block is a non-empty range of operations with something to execute; its labels come first, only
  its last operation can end it, and its terminator is that of its last operation.
\<close>

definition basic_block :: "located_op list \<Rightarrow> (nat \<Rightarrow> nat) \<Rightarrow> machine_block \<Rightarrow> bool" where
  "basic_block ops off b \<longleftrightarrow>
     mb_op_start b < mb_op_end b \<and> mb_op_end b \<le> length ops
     \<and> (\<exists>j \<in> {mb_op_start b..<mb_op_end b}. \<not> is_label (ops ! j))
     \<and> (\<forall>j \<in> {mb_op_start b..<mb_op_end b - 1}. instruction_terminator (ops ! j) = None)
     \<and> (\<forall>j \<in> {mb_op_start b..<mb_op_end b}. is_label (ops ! j) \<longrightarrow> (\<forall>i \<in> {mb_op_start b..<j}. is_label (ops ! i)))
     \<and> mb_terminator b = (case instruction_terminator (ops ! (mb_op_end b - 1)) of Some t \<Rightarrow> t | None \<Rightarrow> TermFallthrough)
     \<and> mb_byte_start b = off (mb_op_start b) \<and> mb_byte_start b + mb_byte_size b = off (mb_op_end b)"

fun tiled :: "located_op list \<Rightarrow> (nat \<Rightarrow> nat) \<Rightarrow> nat \<Rightarrow> machine_block list \<Rightarrow> nat \<Rightarrow> bool" where
  "tiled ops off a [] z = (a = z)"
| "tiled ops off a (b # bs) z \<longleftrightarrow> mb_op_start b = a \<and> basic_block ops off b \<and> tiled ops off (mb_op_end b) bs z"

definition open_block :: "located_op list \<Rightarrow> nat \<Rightarrow> nat \<Rightarrow> bool" where
  "open_block ops a i \<longleftrightarrow>
     a \<le> i \<and> (\<forall>j \<in> {a..<i}. instruction_terminator (ops ! j) = None)
     \<and> (\<forall>j \<in> {a..<i}. is_label (ops ! j) \<longrightarrow> (\<forall>k \<in> {a..<j}. is_label (ops ! k)))"

lemma tiled_append: "tiled ops off a (bs @ [b]) z \<longleftrightarrow> (\<exists>m. tiled ops off a bs m \<and> mb_op_start b = m \<and> basic_block ops off b \<and> mb_op_end b = z)"
  by (induction bs arbitrary: a) auto

lemma sub_ops_map: "b \<le> length xs \<Longrightarrow> sub_ops xs a b = map ((!) xs) [a..<b]"
  by (intro nth_equalityI) (auto simp: sub_ops_def)

lemma has_executable_iff:
  "b \<le> length ops \<Longrightarrow> block_has_executable_ops (sub_ops ops a b) \<longleftrightarrow> (\<exists>j \<in> {a..<b}. \<not> is_label (ops ! j))"
  by (auto simp: block_has_executable_ops_def sub_ops_map)

lemma find_map_None: "find_map f xs = None \<longleftrightarrow> (\<forall>x \<in> set xs. f x = None)"
  by (induction xs) (auto split: option.splits)

lemma terminator_not_label: "instruction_terminator op \<noteq> None \<Longrightarrow> \<not> is_label op"
  by (auto simp: instruction_terminator_def is_label_def split: asm_op.splits)

text \<open>Closing an open block, before a label or after a terminator, yields a basic block.\<close>

lemma build_basic_block:
  assumes ls: "text_op_layouts p = Inr ls" and "open_block (text_ops p) a (z - 1)" "a < z" "z \<le> length (text_ops p)"
    and "\<exists>j \<in> {a..<z}. \<not> is_label (text_ops p ! j)" and "is_label (text_ops p ! (z - 1)) \<longrightarrow> (\<forall>j \<in> {a..<z}. is_label (text_ops p ! j))"
  shows "basic_block (text_ops p) (off_at ls) (build_machine_block p ls a z label)"
proof -
  let ?ops = "text_ops p"
  have before: "instruction_terminator (?ops ! j) = None" if "j \<in> {a..<z - 1}" for j
    using assms(2) that by (simp add: open_block_def)
  have "find_map instruction_terminator (rev (sub_ops ?ops a z)) = instruction_terminator (?ops ! (z - 1))"
  proof -
    have "[a..<z] = [a..<z - 1] @ [z - 1]" using \<open>a < z\<close> by (metis Suc_diff_1 gr_implies_not_zero le_less_trans less_Suc_eq_le not_gr_zero upt_Suc_append less_imp_Suc_add zero_le)
    moreover have "find_map instruction_terminator (rev (map ((!) ?ops) [a..<z - 1])) = None"
      using before by (auto simp: find_map_None)
    ultimately show ?thesis using assms(4) by (simp add: sub_ops_map split: option.split)
  qed
  moreover have "is_label (?ops ! i)" if "j \<in> {a..<z}" "is_label (?ops ! j)" "i \<in> {a..<j}" for i j
    using that assms(2,6) by (cases "j = z - 1") (auto simp: open_block_def)
  moreover have "off_at ls a \<le> off_at ls z" using \<open>a < z\<close> by (simp add: off_at_mono)
  moreover have inside: "a < length ?ops" "z - 1 < length ?ops" "Suc (z - 1) = z" using assms(3,4) by simp_all
  moreover have "lo_offset (ls ! a) = off_at ls a" using text_layouts_offset(3) [OF ls inside(1)] by blast
  moreover have "lo_offset (ls ! (z - 1)) + lo_size (ls ! (z - 1)) = off_at ls z"
    using text_layouts_offset(3) [OF ls inside(2)] inside(3) by metis
  moreover note text_layouts_offset(1) [OF ls]
  ultimately show ?thesis
    using assms(3-5) before by (auto simp: basic_block_def build_machine_block_def Let_def)
qed

lemma open_block_shrink:
  assumes "open_block ops a i" "a \<le> k" "k \<le> i"
  shows "open_block ops a k"
proof -
  have "{a..<k} \<subseteq> {a..<i}" using assms(3) by auto
  with assms(1,2) show ?thesis unfolding open_block_def by blast
qed

lemma open_block_labels:
  assumes "open_block ops a i" "is_label (ops ! j)" "j \<in> {a..<i}" "k \<in> {a..j}"
  shows "is_label (ops ! k)"
  using assms by (cases "k = j") (auto simp: open_block_def)

lemma build_open_block:
  assumes ls: "text_op_layouts p = Inr ls" and "open_block (text_ops p) a i" "i \<le> length (text_ops p)"
    and ex: "\<exists>j \<in> {a..<i}. \<not> is_label (text_ops p ! j)"
  shows "basic_block (text_ops p) (off_at ls) (build_machine_block p ls a i label)"
proof (rule build_basic_block [OF ls _ _ assms(3) ex])
  show "a < i" using ex by auto
  then show "open_block (text_ops p) a (i - 1)" by (intro open_block_shrink [OF assms(2)]) simp_all
  show "is_label (text_ops p ! (i - 1)) \<longrightarrow> (\<forall>j \<in> {a..<i}. is_label (text_ops p ! j))"
    using \<open>a < i\<close> by (intro impI ballI, elim open_block_labels [OF assms(2)]) auto
qed

lemma build_machine_block_range [simp]:
  "mb_op_start (build_machine_block p ls a z label) = a" "mb_op_end (build_machine_block p ls a z label) = z"
  by (simp_all add: build_machine_block_def Let_def)

lemma scan_blocks_tiled:
  assumes ls: "text_op_layouts p = Inr ls" and "text_ops p = pre @ rest" "i = length pre"
    and "tiled (text_ops p) (off_at ls) 0 blocks a" "open_block (text_ops p) a i"
  shows "\<exists>a' label' blocks'. scan_blocks p ls i rest (a, label, blocks) = (a', label', blocks')
    \<and> tiled (text_ops p) (off_at ls) 0 blocks' a' \<and> open_block (text_ops p) a' (length (text_ops p))"
  using assms(2-)
proof (induction rest arbitrary: pre i a label blocks)
  case (Cons op rest)
  let ?ops = "text_ops p"
  have op: "?ops ! i = op" "i < length ?ops" using Cons.prems by (simp_all add: nth_append)
  have more: "?ops = (pre @ [op]) @ rest" "Suc i = length (pre @ [op])" using Cons.prems by simp_all
  have a: "a \<le> i" using Cons.prems(4) by (simp add: open_block_def)
  consider (label) l where "the_op op = OpLabel l"
    | (ends) t where "instruction_terminator op = Some t"
    | (plain) "\<not> is_label op" "instruction_terminator op = None"
    by (cases "instruction_terminator op"; cases "the_op op") (auto simp: is_label_def)
  then show ?case
  proof cases
    case label
    then have isl: "is_label op" "instruction_terminator op = None"
      by (simp_all add: is_label_def instruction_terminator_def)
    show ?thesis
    proof (cases "block_has_executable_ops (sub_ops ?ops a i)")
      case True
      then have ex: "\<exists>j \<in> {a..<i}. \<not> is_label (?ops ! j)" using op by (simp add: has_executable_iff)
      have "basic_block ?ops (off_at ls) (build_machine_block p ls a i label)" for label
        using op by (intro build_open_block [OF ls Cons.prems(4) _ ex]) simp
      moreover have "open_block ?ops i (Suc i)" using op isl by (auto simp: open_block_def)
      ultimately show ?thesis
        using Cons.IH [OF more, of _ i] True label Cons.prems(3)
        by (simp add: tiled_append)
    next
      case False
      then have "\<forall>j \<in> {a..<i}. is_label (?ops ! j)" using op by (simp add: has_executable_iff)
      then have "open_block ?ops a (Suc i)" using Cons.prems(4) op isl a by (auto simp: open_block_def less_Suc_eq)
      then show ?thesis using Cons.IH [OF more Cons.prems(3)] False label by simp
    qed
  next
    case (ends t)
    then have no: "\<not> is_label op" using terminator_not_label by blast
    have "basic_block ?ops (off_at ls) (build_machine_block p ls a (Suc i) label)" for label
      using Cons.prems(4) op a no by (intro build_basic_block [OF ls]) auto
    moreover have "open_block ?ops (Suc i) (Suc i)" by (simp add: open_block_def)
    moreover have "the_op op \<noteq> OpLabel l" for l using no by (auto simp: is_label_def)
    ultimately show ?thesis
      using Cons.IH [OF more, of _ "Suc i"] ends Cons.prems(3)
      by (auto simp: tiled_append split: asm_op.split)
  next
    case plain
    then have "open_block ?ops a (Suc i)" using Cons.prems(4) op a by (auto simp: open_block_def less_Suc_eq)
    moreover have "the_op op \<noteq> OpLabel l" for l using plain by (auto simp: is_label_def)
    ultimately show ?thesis
      using Cons.IH [OF more Cons.prems(3)] plain by (auto split: asm_op.split)
  qed
qed simp

lemma machine_blocks_tiled:
  assumes "machine_blocks p = Inr blocks"
  obtains ls z where "text_op_layouts p = Inr ls" "tiled (text_ops p) (off_at ls) 0 blocks z" "z \<le> length (text_ops p)"
    "\<And>j. z \<le> j \<Longrightarrow> j < length (text_ops p) \<Longrightarrow> is_label (text_ops p ! j)"
proof -
  let ?ops = "text_ops p"
  from assms obtain ls where ls: "text_op_layouts p = Inr ls" by (auto simp: machine_blocks_def)
  have "tiled ?ops (off_at ls) 0 [] 0" "open_block ?ops 0 0" by (simp_all add: open_block_def)
  from scan_blocks_tiled [OF ls, of "[]" ?ops 0, OF _ _ this, of None] obtain a label bs where
    scan: "scan_blocks p ls 0 ?ops (0, None, []) = (a, label, bs)"
    and bs: "tiled ?ops (off_at ls) 0 bs a" and a: "open_block ?ops a (length ?ops)" by auto
  have drop: "drop a ?ops = sub_ops ?ops a (length ?ops)" by (simp add: sub_ops_def)
  show ?thesis
  proof (cases "a < length ?ops \<and> block_has_executable_ops (drop a ?ops)")
    case True
    then have blocks: "blocks = bs @ [build_machine_block p ls a (length ?ops) label]"
      using assms by (simp add: machine_blocks_def ls scan)
    have ex: "\<exists>j \<in> {a..<length ?ops}. \<not> is_label (?ops ! j)" using True by (simp add: drop has_executable_iff)
    have "basic_block ?ops (off_at ls) (build_machine_block p ls a (length ?ops) label)"
      by (rule build_open_block [OF ls a order_refl ex])
    then have "tiled ?ops (off_at ls) 0 blocks (length ?ops)"
      using bs by (simp add: blocks tiled_append)
    with that [OF ls] show ?thesis by simp
  next
    case False
    then have "blocks = bs" using assms by (auto simp: machine_blocks_def ls scan split: if_splits)
    moreover have "a \<le> length ?ops" using a by (simp add: open_block_def)
    moreover have "is_label (?ops ! j)" if "a \<le> j" "j < length ?ops" for j
      using False that by (auto simp: drop has_executable_iff)
    ultimately show ?thesis using that [OF ls] bs by blast
  qed
qed

section \<open>The checks never fail\<close>

lemma cover_ops_range:
  "a \<le> z \<Longrightarrow> C \<inter> {a..<z} = {} \<Longrightarrow>
    cover_ops ops [a..<z] C = Inr (C \<union> {j \<in> {a..<z}. \<not> is_label (ops ! j)})"
proof (induction "z - a" arbitrary: a C)
  case (Suc d)
  then have "a < z" by simp
  then have up: "[a..<z] = a # [Suc a..<z]" "{a..<z} = insert a {Suc a..<z}" by (auto simp: upt_rec)
  have "cover_ops ops [Suc a..<z] D = Inr (D \<union> {j \<in> {Suc a..<z}. \<not> is_label (ops ! j)})"
    if "D \<inter> {Suc a..<z} = {}" for D
    using Suc.hyps(1) [of "Suc a" D] Suc.hyps(2) \<open>a < z\<close> that by simp
  with Suc.prems(2) show ?case unfolding up by (auto simp: insert_absorb)
qed simp

lemma tiled_le: "tiled ops off a bs z \<Longrightarrow> a \<le> z"
proof (induction bs arbitrary: a)
  case (Cons b bs)
  then have "a < mb_op_end b" "mb_op_end b \<le> z" by (auto simp: basic_block_def)
  then show ?case by simp
qed simp

lemma cover_blocks_tiled:
  "tiled ops off a bs z \<Longrightarrow> C \<subseteq> {..<a} \<Longrightarrow>
    cover_blocks ops bs C = Inr (C \<union> {j \<in> {a..<z}. \<not> is_label (ops ! j)})"
proof (induction bs arbitrary: a C)
  case (Cons b bs)
  then have b: "mb_op_start b = a" "a < mb_op_end b" "mb_op_end b \<le> length ops"
      "\<exists>j \<in> {a..<mb_op_end b}. \<not> is_label (ops ! j)" and rest: "tiled ops off (mb_op_end b) bs z"
    by (auto simp: basic_block_def)
  let ?D = "C \<union> {j \<in> {a..<mb_op_end b}. \<not> is_label (ops ! j)}"
  have "cover_ops ops [a..<mb_op_end b] C = Inr ?D"
    using b Cons.prems(2) by (intro cover_ops_range) auto
  moreover have "cover_blocks ops bs ?D = Inr (?D \<union> {j \<in> {mb_op_end b..<z}. \<not> is_label (ops ! j)})"
    using b Cons.prems(2) by (intro Cons.IH [OF rest]) auto
  moreover have "{a..<z} = {a..<mb_op_end b} \<union> {mb_op_end b..<z}"
    using b tiled_le [OF rest] by (intro ivl_disj_un(17) [symmetric]) simp_all
  ultimately show ?case using b by (auto simp: has_executable_iff)
qed auto

lemma coverage_Ok:
  assumes "machine_blocks p = Inr blocks" "cfg_blocks cfg = blocks"
  shows "validate_machine_block_coverage p cfg
    = Inr \<lparr>executable_ops = executable_text_ops p, covered_ops = executable_text_ops p\<rparr>"
proof -
  obtain ls z where t: "tiled (text_ops p) (off_at ls) 0 blocks z" "z \<le> length (text_ops p)"
    "\<And>j. z \<le> j \<Longrightarrow> j < length (text_ops p) \<Longrightarrow> is_label (text_ops p ! j)"
    using machine_blocks_tiled [OF assms(1)] by blast
  have "{j \<in> {0..<z}. \<not> is_label (text_ops p ! j)} = {j. j < length (text_ops p) \<and> \<not> is_label (text_ops p ! j)}"
    using t(2) t(3) by (auto, meson linorder_not_le)
  then have "card {j \<in> {0..<z}. \<not> is_label (text_ops p ! j)} = executable_text_ops p"
    by (simp add: executable_text_ops_def length_filter_conv_card)
  with cover_blocks_tiled [OF t(1), of "{}"] assms(2) show ?thesis
    by (simp add: validate_machine_block_coverage_def)
qed

lemma check_order_upt: "a \<le> n \<Longrightarrow> check_order n [a..<n] {..<a} = Inr ()"
proof (induction "n - a" arbitrary: a)
  case (Suc d)
  then show ?case using Suc.hyps(1) [of "Suc a"] by (simp add: upt_rec lessThan_Suc)
qed simp

lemma place_blocks_tiled:
  "tiled ops off a bs z \<Longrightarrow> place_blocks (pre @ bs) (off a) [length pre..<length pre + length bs]
    = (map (\<lambda>i. \<lparr>pl_block = i, pl_byte_start = mb_byte_start ((pre @ bs) ! i),
        pl_byte_size = mb_byte_size ((pre @ bs) ! i)\<rparr>) [length pre..<length pre + length bs], off z)"
proof (induction bs arbitrary: a pre)
  case (Cons b bs)
  from Cons.prems have b: "mb_byte_start b = off a" "off a + mb_byte_size b = off (mb_op_end b)"
    "tiled ops off (mb_op_end b) bs z" by (auto simp: basic_block_def)
  have up: "[length pre..<length pre + length (b # bs)]
      = length pre # [length (pre @ [b])..<length (pre @ [b]) + length bs]"
    by (simp add: upt_rec)
  show ?case
    unfolding up using Cons.IH [OF b(3), of "pre @ [b]"] b by (simp add: Let_def nth_append)
qed simp

lemma layout_order_Ok:
  assumes "machine_blocks p = Inr (cfg_blocks cfg)"
  obtains ls where "text_op_layouts p = Inr ls"
    "machine_layout_order_of cfg = Inr \<lparr>block_order = [0..<length (cfg_blocks cfg)],
       placed_blocks = map (\<lambda>i. \<lparr>pl_block = i, pl_byte_start = mb_byte_start (cfg_blocks cfg ! i),
         pl_byte_size = mb_byte_size (cfg_blocks cfg ! i)\<rparr>) [0..<length (cfg_blocks cfg)],
       order_text_size = off_at ls (length (text_ops p))\<rparr>"
proof -
  obtain ls z where ls: "text_op_layouts p = Inr ls" and t: "tiled (text_ops p) (off_at ls) 0 (cfg_blocks cfg) z"
    "z \<le> length (text_ops p)" "\<And>j. z \<le> j \<Longrightarrow> j < length (text_ops p) \<Longrightarrow> is_label (text_ops p ! j)"
    using machine_blocks_tiled [OF assms] by blast
  have "off_at ls 0 = 0" by (simp add: off_at_def)
  with place_blocks_tiled [OF t(1), of "[]"] off_at_labels [OF ls t(2) order_refl t(3)]
  have "machine_layout_order_of cfg = Inr \<lparr>block_order = [0..<length (cfg_blocks cfg)],
       placed_blocks = map (\<lambda>i. \<lparr>pl_block = i, pl_byte_start = mb_byte_start (cfg_blocks cfg ! i),
         pl_byte_size = mb_byte_size (cfg_blocks cfg ! i)\<rparr>) [0..<length (cfg_blocks cfg)],
       order_text_size = off_at ls (length (text_ops p))\<rparr>"
    using check_order_upt [of 0 "length (cfg_blocks cfg)"]
    by (simp add: machine_layout_order_of_def build_machine_layout_order_def validate_machine_layout_order_def)
  with ls show ?thesis by (rule that)
qed

section \<open>Reachability\<close>

definition edge_rel :: "machine_cfg_edge list \<Rightarrow> (nat \<times> nat) set" where
  "edge_rel edges = (\<lambda>e. (edge_from e, edge_to e)) ` set edges"

lemma edge_targets_rel: "y \<in> set (edge_targets edges x) \<longleftrightarrow> (x, y) \<in> edge_rel edges"
  by (auto simp: edge_targets_def edge_rel_def)

lemma reach_sound:
  "reach edges stack R \<subseteq> R \<union> (edge_rel edges)\<^sup>* `` set stack"
proof (induction edges stack R rule: reach.induct)
  case (2 edges block stack R)
  let ?E = "(edge_rel edges)\<^sup>*"
  have targets: "?E `` set (rev (edge_targets edges block) @ stack) \<subseteq> ?E `` set (block # stack)"
    by (auto simp: edge_targets_rel Image_iff intro: converse_rtrancl_into_rtrancl)
  have here: "block \<in> ?E `` set (block # stack)" "?E `` set stack \<subseteq> ?E `` set (block # stack)" by auto
  show ?case
  proof (cases "block \<in> R")
    case True
    with 2(1) [OF True] here(2) show ?thesis by (simp only: reach.simps if_True) blast
  next
    case False
    have "reach edges (rev (edge_targets edges block) @ stack) (insert block R) \<subseteq> R \<union> ?E `` set (block # stack)"
      using 2(2) [OF False] targets here(1) by blast
    with False show ?thesis by simp
  qed
qed simp

lemma reach_complete:
  assumes "\<And>x y. x \<in> R \<Longrightarrow> (x, y) \<in> edge_rel edges \<Longrightarrow> y \<in> R \<union> set stack"
  shows "R \<union> set stack \<subseteq> reach edges stack R
    \<and> (\<forall>x y. x \<in> reach edges stack R \<longrightarrow> (x, y) \<in> edge_rel edges \<longrightarrow> y \<in> reach edges stack R)"
  using assms
proof (induction edges stack R rule: reach.induct)
  case (2 edges block stack R)
  show ?case
  proof (cases "block \<in> R")
    case True
    have "y \<in> R \<union> set stack" if "x \<in> R" "(x, y) \<in> edge_rel edges" for x y
      using 2(3) [OF that] True by auto
    with 2(1) [OF True] True show ?thesis by auto
  next
    case False
    have "y \<in> insert block R \<union> set (rev (edge_targets edges block) @ stack)"
      if "x \<in> insert block R" "(x, y) \<in> edge_rel edges" for x y
      using 2(3) that by (auto simp: edge_targets_rel)
    with 2(2) [OF False] False show ?thesis by auto
  qed
qed auto

lemma reach_root: "reach edges [root] {} = (edge_rel edges)\<^sup>* `` {root}"
proof
  show "reach edges [root] {} \<subseteq> (edge_rel edges)\<^sup>* `` {root}" using reach_sound [of edges "[root]" "{}"] by simp
  have c: "root \<in> reach edges [root] {}"
    "\<And>x y. x \<in> reach edges [root] {} \<Longrightarrow> (x, y) \<in> edge_rel edges \<Longrightarrow> y \<in> reach edges [root] {}"
    using reach_complete [of "{}" edges "[root]"] by auto
  have "x \<in> reach edges [root] {}" if "(root, x) \<in> (edge_rel edges)\<^sup>*" for x
    using that by (induction rule: rtrancl_induct) (rule c(1), erule (1) c(2))
  then show "(edge_rel edges)\<^sup>* `` {root} \<subseteq> reach edges [root] {}" by auto
qed

section \<open>Edges\<close>

text \<open>The block a label stands for: the first one that starts at the address of the label.\<close>

definition label_block :: "parsed_assembly \<Rightarrow> machine_block list \<Rightarrow> string \<Rightarrow> nat \<Rightarrow> bool" where
  "label_block p blocks l b \<longleftrightarrow>
     b < length blocks
     \<and> (\<exists>d. map_of (symbols p) l = Some d \<and> sym_section d = Text \<and> mb_byte_start (blocks ! b) = sym_offset d
          \<and> (\<forall>c<b. mb_byte_start (blocks ! c) \<noteq> sym_offset d))"

text \<open>The control transfers of the code, as edges between blocks.\<close>

definition edge_ok :: "parsed_assembly \<Rightarrow> machine_block list \<Rightarrow> machine_cfg_edge \<Rightarrow> bool" where
  "edge_ok p blocks e \<longleftrightarrow>
     (let b = blocks ! edge_from e in
      edge_from e < length blocks \<and> edge_to e < length blocks
      \<and> (case edge_kind e of
           EdgeFallthrough \<Rightarrow> edge_to e = edge_from e + 1 \<and> mb_terminator b = TermFallthrough
         | EdgeJump \<Rightarrow> \<exists>l. mb_terminator b = TermJump l \<and> label_block p blocks l (edge_to e)
         | EdgeConditionalTaken \<Rightarrow>
             \<exists>l. mb_terminator b = TermConditionalBranch l \<and> label_block p blocks l (edge_to e)
         | EdgeConditionalFallthrough \<Rightarrow>
             edge_to e = edge_from e + 1 \<and> (\<exists>l. mb_terminator b = TermConditionalBranch l)
         | EdgeCall \<Rightarrow>
             \<exists>l k. mb_op_start b \<le> k \<and> k < mb_op_end b \<and> k < length (text_ops p)
               \<and> the_op (text_ops p ! k) = OpInstruction (ICall l) \<and> label_block p blocks l (edge_to e)))"

text \<open>The branch target of a terminator is a block.\<close>

definition targets_resolved :: "parsed_assembly \<Rightarrow> machine_block list \<Rightarrow> nat \<Rightarrow> bool" where
  "targets_resolved p blocks i \<longleftrightarrow>
     (\<forall>l. mb_terminator (blocks ! i) \<in> {TermJump l, TermConditionalBranch l} \<longrightarrow> (\<exists>t. label_block p blocks l t))"

lemma machine_label_to_block_iff: "machine_label_to_block p blocks l = Some b \<longleftrightarrow> label_block p blocks l b"
  by (auto simp: machine_label_to_block_def label_block_def find_block_at_def find_Some_iff
      split: option.splits if_splits)

lemma label_block_unique: "label_block p blocks l b \<Longrightarrow> label_block p blocks l c \<Longrightarrow> b = c"
  by (simp flip: machine_label_to_block_iff)

lemma target_block_Ok:
  "machine_cfg_target_block p l (machine_label_to_block p blocks) i k = Inr t \<longleftrightarrow> label_block p blocks l t"
  by (cases "machine_label_to_block p blocks l")
    (auto simp: machine_cfg_target_block_def Let_def simp flip: machine_label_to_block_iff)

lemma map_filter_set: "y \<in> set (List.map_filter f xs) \<longleftrightarrow> (\<exists>x \<in> set xs. f x = Some y)"
  by (auto simp: List.map_filter_def image_iff)

lemma label_block_less: "label_block p blocks l b \<Longrightarrow> b < length blocks"
  by (simp add: label_block_def)

lemma call_targets_set:
  "l \<in> set (machine_block_call_targets p b) \<longleftrightarrow>
     (\<exists>k. mb_op_start b \<le> k \<and> k < mb_op_end b \<and> k < length (text_ops p)
        \<and> the_op (text_ops p ! k) = OpInstruction (ICall l))"
proof -
  have "x \<in> set (sub_ops xs a z) \<longleftrightarrow> (\<exists>k. a \<le> k \<and> k < z \<and> k < length xs \<and> xs ! k = x)"
    for x a z and xs :: "located_op list"
  proof
    assume "x \<in> set (sub_ops xs a z)"
    then obtain j where "j < z - a" "j < length xs - a" "xs ! (a + j) = x"
      by (auto simp: sub_ops_def in_set_conv_nth)
    then show "\<exists>k. a \<le> k \<and> k < z \<and> k < length xs \<and> xs ! k = x" by (intro exI [of _ "a + j"]) auto
  next
    assume "\<exists>k. a \<le> k \<and> k < z \<and> k < length xs \<and> xs ! k = x"
    then obtain k where k: "a \<le> k" "k < z" "k < length xs" "xs ! k = x" by blast
    then have "k - a < length (sub_ops xs a z)" "sub_ops xs a z ! (k - a) = x"
      by (simp_all add: sub_ops_def diff_less_mono)
    then show "x \<in> set (sub_ops xs a z)" by (metis nth_mem)
  qed
  moreover have "call_target op = Some l \<longleftrightarrow> the_op op = OpInstruction (ICall l)" for op
    by (auto simp: call_target_def split: asm_op.splits instruction.splits)
  ultimately show ?thesis unfolding machine_block_call_targets_def map_filter_set by metis
qed

lemma block_edges_iff:
  assumes "block_edges p blocks i (blocks ! i) = Inr es" "i < length blocks"
  shows "e \<in> set es \<longleftrightarrow> edge_ok p blocks e \<and> edge_from e = i" "targets_resolved p blocks i"
proof -
  let ?b = "blocks ! i" and ?target = "\<lambda>l t. label_block p blocks l t"
  let ?calls = "map (\<lambda>t. \<lparr>edge_from = i, edge_to = t, edge_kind = EdgeCall\<rparr>)
    (List.map_filter (machine_label_to_block p blocks) (machine_block_call_targets p ?b))"
  have calls: "e \<in> set ?calls \<longleftrightarrow> edge_ok p blocks e \<and> edge_from e = i \<and> edge_kind e = EdgeCall"
  proof -
    have "e \<in> set ?calls \<longleftrightarrow> (\<exists>t. e = \<lparr>edge_from = i, edge_to = t, edge_kind = EdgeCall\<rparr> \<and>
        (\<exists>l. l \<in> set (machine_block_call_targets p ?b) \<and> label_block p blocks l t))"
      unfolding set_map image_iff Bex_def map_filter_set machine_label_to_block_iff by blast
    also have "\<dots> \<longleftrightarrow> edge_ok p blocks e \<and> edge_from e = i \<and> edge_kind e = EdgeCall"
      unfolding call_targets_set using assms(2) label_block_less
      by (cases e) (auto simp: edge_ok_def Let_def, blast+)
    finally show ?thesis .
  qed
  have "(e \<in> set es \<longleftrightarrow> edge_ok p blocks e \<and> edge_from e = i) \<and> targets_resolved p blocks i"
  proof (cases "mb_terminator ?b")
    case TermFallthrough
    then have es: "set es = set ?calls \<union>
        (if i + 1 < length blocks then {\<lparr>edge_from = i, edge_to = i + 1, edge_kind = EdgeFallthrough\<rparr>} else {})"
      using assms(1) by (auto simp: block_edges_def Let_def)
    show ?thesis unfolding es Un_iff calls using TermFallthrough
      by (cases e; cases "edge_kind e") (auto simp: edge_ok_def targets_resolved_def Let_def)
  next
    case (TermJump l)
    then obtain t where t: "?target l t"
      and es: "set es = set ?calls \<union> {\<lparr>edge_from = i, edge_to = t, edge_kind = EdgeJump\<rparr>}"
      using assms(1) by (auto simp: block_edges_def Let_def target_block_Ok)
    have u: "?target l x \<longleftrightarrow> x = t" for x using t label_block_unique by blast
    show ?thesis unfolding es Un_iff calls using TermJump assms(2) label_block_less [OF t]
      by (cases e; cases "edge_kind e") (auto simp: edge_ok_def targets_resolved_def Let_def u)
  next
    case (TermConditionalBranch l)
    then obtain t where t: "?target l t"
      and es: "set es = set ?calls \<union> {\<lparr>edge_from = i, edge_to = t, edge_kind = EdgeConditionalTaken\<rparr>} \<union>
        (if i + 1 < length blocks then {\<lparr>edge_from = i, edge_to = i + 1, edge_kind = EdgeConditionalFallthrough\<rparr>} else {})"
      using assms(1) by (auto simp: block_edges_def Let_def target_block_Ok)
    have u: "?target l x \<longleftrightarrow> x = t" for x using t label_block_unique by blast
    show ?thesis unfolding es Un_iff calls using TermConditionalBranch assms(2) label_block_less [OF t]
      by (cases e; cases "edge_kind e") (auto simp: edge_ok_def targets_resolved_def Let_def u)
  next
    case TermReturn
    then have "set es = set ?calls" using assms(1) by (auto simp: block_edges_def Let_def)
    then show ?thesis using calls TermReturn
      by (cases e; cases "edge_kind e") (auto simp: edge_ok_def targets_resolved_def Let_def)
  qed
  then show "e \<in> set es \<longleftrightarrow> edge_ok p blocks e \<and> edge_from e = i" "targets_resolved p blocks i" by simp_all
qed

lemma edges_from_iff:
  assumes "edges_from p blocks i bs = Inr es" "\<And>j. j < length bs \<Longrightarrow> bs ! j = blocks ! (i + j)"
    "i + length bs = length blocks"
  shows "(e \<in> set es \<longleftrightarrow> edge_ok p blocks e \<and> i \<le> edge_from e)
    \<and> (\<forall>j. i \<le> j \<and> j < length blocks \<longrightarrow> targets_resolved p blocks j)"
  using assms
proof (induction bs arbitrary: i es)
  case Nil
  then show ?case by (auto simp: edge_ok_def Let_def)
next
  case (Cons b bs)
  from Cons.prems(1) obtain es1 es2 where es: "block_edges p blocks i b = Inr es1"
    "edges_from p blocks (Suc i) bs = Inr es2" "es = es1 @ es2" by auto
  have b: "b = blocks ! i" "i < length blocks" using Cons.prems(2) [of 0] Cons.prems(3) by simp_all
  note here = block_edges_iff [OF es(1) [unfolded b(1)] b(2)]
  have there: "(e \<in> set es2 \<longleftrightarrow> edge_ok p blocks e \<and> Suc i \<le> edge_from e)
      \<and> (\<forall>j. Suc i \<le> j \<and> j < length blocks \<longrightarrow> targets_resolved p blocks j)"
    using Cons.prems(2) [of "Suc _"] Cons.prems(3) by (intro Cons.IH [OF es(2)]) auto
  have "e \<in> set es \<longleftrightarrow> e \<in> set es1 \<or> e \<in> set es2" by (simp add: es(3))
  then have "e \<in> set es \<longleftrightarrow> edge_ok p blocks e \<and> i \<le> edge_from e"
    using here(1) there by (auto simp: Suc_le_eq order_le_less)
  moreover have "targets_resolved p blocks j" if "i \<le> j" "j < length blocks" for j
    using that here(2) there by (cases "j = i") auto
  ultimately show ?case by blast
qed

lemma machine_cfg_ok:
  assumes "machine_cfg_of p = Inr cfg"
  shows "machine_blocks p = Inr (cfg_blocks cfg)" "e \<in> set (cfg_edges cfg) \<longleftrightarrow> edge_ok p (cfg_blocks cfg) e"
    "j < length (cfg_blocks cfg) \<Longrightarrow> targets_resolved p (cfg_blocks cfg) j"
proof -
  from assms obtain blocks es where "machine_blocks p = Inr blocks" "edges_from p blocks 0 blocks = Inr es"
    "cfg = \<lparr>cfg_blocks = blocks, cfg_edges = es\<rparr>" by (auto simp: machine_cfg_of_def)
  with edges_from_iff [of p blocks 0 blocks es] show "machine_blocks p = Inr (cfg_blocks cfg)"
    "e \<in> set (cfg_edges cfg) \<longleftrightarrow> edge_ok p (cfg_blocks cfg) e"
    "j < length (cfg_blocks cfg) \<Longrightarrow> targets_resolved p (cfg_blocks cfg) j"
    by simp_all
qed

section \<open>Labels start blocks\<close>

lemma basic_block_labels:
  assumes "basic_block ops off b" "is_label (ops ! j)" "j \<in> {mb_op_start b..<mb_op_end b}" "i \<in> {mb_op_start b..j}"
  shows "is_label (ops ! i)"
proof (cases "i = j")
  case False
  with assms have "i \<in> {mb_op_start b..<j}" by simp
  with assms(1-3) show ?thesis unfolding basic_block_def by blast
qed (use assms in simp)

lemma basic_block_last:
  assumes "basic_block ops off b"
  shows "\<not> is_label (ops ! (mb_op_end b - 1))"
proof
  assume last: "is_label (ops ! (mb_op_end b - 1))"
  from assms obtain j where "j \<in> {mb_op_start b..<mb_op_end b}" "\<not> is_label (ops ! j)"
    by (auto simp: basic_block_def)
  moreover from this have "mb_op_end b - 1 \<in> {mb_op_start b..<mb_op_end b}" "j \<in> {mb_op_start b..mb_op_end b - 1}"
    by auto
  ultimately show False using basic_block_labels [OF assms last] by blast
qed

lemma tiled_label:
  assumes "tiled ops off a bs z" "a \<le> k" "is_label (ops ! k)" "k < m" "m < z" "\<not> is_label (ops ! m)"
    "\<And>j. k \<le> j \<Longrightarrow> j < m \<Longrightarrow> is_label (ops ! j)"
  shows "\<exists>b \<in> set bs. basic_block ops off b \<and> mb_op_start b \<le> k \<and> (\<forall>j \<in> {mb_op_start b..k}. is_label (ops ! j))"
  using assms
proof (induction bs arbitrary: a)
  case (Cons b bs)
  then have b: "mb_op_start b = a" "basic_block ops off b" and rest: "tiled ops off (mb_op_end b) bs z" by simp_all
  show ?case
  proof (cases "m < mb_op_end b")
    case True
    then have "\<forall>j \<in> {a..k}. is_label (ops ! j)"
      using b Cons.prems(2-4) by (auto intro: basic_block_labels [OF b(2) Cons.prems(3)])
    with b Cons.prems(2) show ?thesis by auto
  next
    case False
    have "mb_op_end b \<le> k"
    proof (rule ccontr)
      assume "\<not> mb_op_end b \<le> k"
      with False have "is_label (ops ! (mb_op_end b - 1))"
        using Cons.prems(2,7) b by (intro Cons.prems(7)) auto
      with basic_block_last [OF b(2)] show False ..
    qed
    with Cons.IH [OF rest] Cons.prems show ?thesis by auto
  qed
qed simp

lemma text_label_resolves:
  assumes p: "from_lines_with_branch_mode lines (Exact R) = Inr p" and blocks: "machine_blocks p = Inr blocks"
    and k: "label_index p l Text k" and m: "k < m" "m < length (text_ops p)" "\<not> is_label (text_ops p ! m)"
  shows "machine_label_to_block p blocks l \<noteq> None"
proof -
  let ?ops = "text_ops p"
  obtain ls z where ls: "text_op_layouts p = Inr ls" and t: "tiled ?ops (off_at ls) 0 blocks z" "z \<le> length ?ops"
    "\<And>j. z \<le> j \<Longrightarrow> j < length ?ops \<Longrightarrow> is_label (?ops ! j)"
    using machine_blocks_tiled [OF blocks] by blast
  have kl: "k < length ?ops" "the_op (?ops ! k) = OpLabel l" using k by (simp_all add: label_index_def section_ops_def)
  then have isl: "is_label (?ops ! k)" by (simp add: is_label_def)
  define n where "n = (LEAST n. k < n \<and> n < length ?ops \<and> \<not> is_label (?ops ! n))"
  have n: "k < n" "n < length ?ops" "\<not> is_label (?ops ! n)"
    using LeastI [of "\<lambda>n. k < n \<and> n < length ?ops \<and> \<not> is_label (?ops ! n)" m] m unfolding n_def by blast+
  have between: "is_label (?ops ! j)" if "k \<le> j" "j < n" for j
    using not_less_Least [of j "\<lambda>n. k < n \<and> n < length ?ops \<and> \<not> is_label (?ops ! n)"] that n isl
    unfolding n_def [symmetric] by (cases "j = k") auto
  have "n < z" using t(3) n by (meson linorder_not_le)
  from tiled_label [OF t(1) _ isl n(1) this n(3) between] obtain b where
    b: "b \<in> set blocks" "basic_block ?ops (off_at ls) b" "mb_op_start b \<le> k"
      "\<forall>j \<in> {mb_op_start b..k}. is_label (?ops ! j)" by auto
  have start: "mb_byte_start b = off_at ls k"
    using b(2-4) kl(1) off_at_labels [OF ls b(3)] by (simp add: basic_block_def)
  obtain d where d: "map_of (symbols p) l = Some d" using from_lines_labels [OF p k] by blast
  obtain k' where "label_index p l (sym_section d) k'" "offset_of (Exact R) p (sym_section d) k' = Inr (sym_offset d)"
    "sec = sym_section d \<and> j = k'" if "label_index p l sec j" for sec j
    using from_lines_symbol [OF p d] by metis
  with k have d': "sym_section d = Text" "offset_of (Exact R) p Text k = Inr (sym_offset d)" by metis+
  then have "sym_offset d = off_at ls k"
    using text_layouts_offset(2) [OF ls, of k] kl(1)
    by (simp add: offset_of_def section_ops_def from_lines_relaxed_set [OF p])
  with start b(1) have "\<exists>i < length blocks. mb_byte_start (blocks ! i) = sym_offset d"
    by (metis in_set_conv_nth)
  then have "find_block_at (sym_offset d) blocks \<noteq> None" by (auto simp: find_block_at_def find_None_iff)
  with d d' show ?thesis by (simp add: machine_label_to_block_def)
qed

lemma rtrancl_bounded: "(a, b) \<in> R\<^sup>* \<Longrightarrow> a < n \<Longrightarrow> snd ` R \<subseteq> {..<n} \<Longrightarrow> b < (n :: nat)"
  by (induction rule: rtrancl_induct) force+

section \<open>Graphs of well-formed programs\<close>

lemma op_layouts_total:
  "run_size (op_len (Exact R) Text) off i ops = Inr n \<Longrightarrow> \<exists>ls. op_layouts_from R i off ops = Inr ls"
  by (induction ops arbitrary: i off) fastforce+

lemma from_lines_layouts:
  assumes "from_lines_with_branch_mode lines (Exact R) = Inr p"
  obtains ls where "text_op_layouts p = Inr ls" "off_at ls (length (text_ops p)) = section_size p Text"
proof -
  have "run_size (op_len (Exact R) Text) 0 0 (text_ops p) = Inr (section_size p Text)"
    using from_lines_size [OF assms, of Text] by (simp add: section_ops_def)
  moreover from op_layouts_total [OF this] obtain ls where "text_op_layouts p = Inr ls"
    by (auto simp: text_op_layouts_def from_lines_relaxed_set [OF assms])
  ultimately show ?thesis
    using text_layouts_offset(2) [of p ls "length (text_ops p)"] that
    by (simp add: from_lines_relaxed_set [OF assms])
qed

text \<open>A label that code follows: its block exists.\<close>

definition code_label :: "parsed_assembly \<Rightarrow> string \<Rightarrow> bool" where
  "code_label p l \<longleftrightarrow> (\<exists>k m. label_index p l Text k \<and> k < m \<and> m < length (text_ops p) \<and> \<not> is_label (text_ops p ! m))"

lemma block_edges_total:
  assumes "\<And>l. mb_terminator b \<in> {TermJump l, TermConditionalBranch l} \<Longrightarrow> machine_label_to_block p blocks l \<noteq> None"
  shows "\<exists>es. block_edges p blocks i b = Inr es"
  using assms by (cases "mb_terminator b") (auto simp: block_edges_def Let_def machine_cfg_target_block_def)

lemma edges_from_total:
  assumes "\<And>b l. b \<in> set bs \<Longrightarrow> mb_terminator b \<in> {TermJump l, TermConditionalBranch l} \<Longrightarrow>
    machine_label_to_block p blocks l \<noteq> None"
  shows "\<exists>es. edges_from p blocks i bs = Inr es"
  using assms
proof (induction bs arbitrary: i)
  case (Cons b bs)
  obtain es where "block_edges p blocks i b = Inr es" using block_edges_total [of b p blocks i] Cons.prems by auto
  moreover obtain es' where "edges_from p blocks (Suc i) bs = Inr es'" using Cons.IH [of "Suc i"] Cons.prems by auto
  ultimately show ?case by simp
qed simp

lemma tiled_terminator:
  "tiled ops off a bs z \<Longrightarrow> b \<in> set bs \<Longrightarrow> mb_terminator b \<noteq> TermFallthrough \<Longrightarrow>
    \<exists>op \<in> set ops. instruction_terminator op = Some (mb_terminator b)"
proof (induction bs arbitrary: a)
  case (Cons c bs)
  show ?case
  proof (cases "b = c")
    case True
    with Cons.prems have "mb_op_end b - 1 < length ops"
      "instruction_terminator (ops ! (mb_op_end b - 1)) = Some (mb_terminator b)"
      by (auto simp: basic_block_def split: option.splits)
    then show ?thesis by (metis nth_mem)
  qed (use Cons in auto)
qed simp

section \<open>Plans and evidence\<close>

lemma build_plan_steps:
  assumes "build_plan lines = Inr mp"
  obtains coverage layout where "from_lines_relaxed lines layout = Inr (plan_parsed mp)"
    "plan_layout mp = for_text_user_size (section_size (plan_parsed mp) Text)"
    "machine_cfg_of (plan_parsed mp) = Inr (plan_cfg mp)"
    "validate_machine_block_coverage (plan_parsed mp) (plan_cfg mp) = Inr coverage"
    "machine_layout_order_of (plan_cfg mp) = Inr (plan_order mp)"
    "layout_metrics (plan_parsed mp) (plan_layout mp) (plan_cfg mp) (plan_order mp) coverage = Inr (plan_metrics mp)"
  using assms by (auto simp: build_plan_def Let_def)

lemma plan_text:
  assumes "build_plan lines = Inr mp"
  obtains ls R where "from_lines_with_branch_mode lines (Exact R) = Inr (plan_parsed mp)"
    "text_op_layouts (plan_parsed mp) = Inr ls"
    "off_at ls (length (text_ops (plan_parsed mp))) = section_size (plan_parsed mp) Text"
proof -
  obtain layout where "from_lines_relaxed lines layout = Inr (plan_parsed mp)"
    by (rule build_plan_steps [OF assms])
  then obtain R where R: "from_lines_with_branch_mode lines (Exact R) = Inr (plan_parsed mp)"
    by (auto simp: from_lines_relaxed_def)
  from from_lines_layouts [OF R] show ?thesis using that [OF R] by blast
qed

lemma plan_sizes:
  assumes "build_plan lines = Inr mp"
  shows "m_text_size (plan_metrics mp) = section_size (plan_parsed mp) Text"
    "order_text_size (plan_order mp) = section_size (plan_parsed mp) Text"
    "m_layout_order_text_size (plan_metrics mp) = section_size (plan_parsed mp) Text"
    "plan_layout mp = for_text_user_size (section_size (plan_parsed mp) Text)"
    "m_layout_order_block_count (plan_metrics mp) = m_machine_block_count (plan_metrics mp)"
    "m_covered_text_op_count (plan_metrics mp) = m_executable_text_op_count (plan_metrics mp)"
proof -
  obtain ls where ls: "text_op_layouts (plan_parsed mp) = Inr ls"
    "off_at ls (length (text_ops (plan_parsed mp))) = section_size (plan_parsed mp) Text"
    by (rule plan_text [OF assms])
  obtain coverage where layout: "plan_layout mp = for_text_user_size (section_size (plan_parsed mp) Text)"
    and cfg: "machine_cfg_of (plan_parsed mp) = Inr (plan_cfg mp)"
    and coverage: "validate_machine_block_coverage (plan_parsed mp) (plan_cfg mp) = Inr coverage"
    and order: "machine_layout_order_of (plan_cfg mp) = Inr (plan_order mp)"
    and metrics: "layout_metrics (plan_parsed mp) (plan_layout mp) (plan_cfg mp) (plan_order mp) coverage
      = Inr (plan_metrics mp)"
    by (rule build_plan_steps [OF assms])
  note blocks = machine_cfg_ok(1) [OF cfg]
  have "coverage = \<lparr>executable_ops = executable_text_ops (plan_parsed mp),
      covered_ops = executable_text_ops (plan_parsed mp)\<rparr>"
    using coverage_Ok [OF blocks refl] coverage by simp
  moreover obtain ls' where "text_op_layouts (plan_parsed mp) = Inr ls'"
    "machine_layout_order_of (plan_cfg mp) = Inr \<lparr>block_order = [0..<length (cfg_blocks (plan_cfg mp))],
       placed_blocks = map (\<lambda>i. \<lparr>pl_block = i, pl_byte_start = mb_byte_start (cfg_blocks (plan_cfg mp) ! i),
         pl_byte_size = mb_byte_size (cfg_blocks (plan_cfg mp) ! i)\<rparr>) [0..<length (cfg_blocks (plan_cfg mp))],
       order_text_size = off_at ls' (length (text_ops (plan_parsed mp)))\<rparr>"
    by (rule layout_order_Ok [OF blocks])
  with order ls have "block_order (plan_order mp) = [0..<length (cfg_blocks (plan_cfg mp))]"
    "order_text_size (plan_order mp) = section_size (plan_parsed mp) Text"
    by (auto simp: eq_commute [of _ "plan_order mp"])
  moreover have "sum_list (map lo_size ls) = section_size (plan_parsed mp) Text"
    using ls text_layouts_offset(1) [OF ls(1)] by (simp add: off_at_def)
  ultimately show "m_text_size (plan_metrics mp) = section_size (plan_parsed mp) Text"
    "order_text_size (plan_order mp) = section_size (plan_parsed mp) Text"
    "m_layout_order_text_size (plan_metrics mp) = section_size (plan_parsed mp) Text"
    "plan_layout mp = for_text_user_size (section_size (plan_parsed mp) Text)"
    "m_layout_order_block_count (plan_metrics mp) = m_machine_block_count (plan_metrics mp)"
    "m_covered_text_op_count (plan_metrics mp) = m_executable_text_op_count (plan_metrics mp)"
    using metrics ls layout by (auto simp: layout_metrics_def eq_commute [of _ "plan_metrics mp"])
qed

fun contiguous :: "nat \<Rightarrow> machine_block_evidence list \<Rightarrow> nat \<Rightarrow> bool" where
  "contiguous a [] z = (a = z)"
| "contiguous a (b # bs) z \<longleftrightarrow> ev_start b = a \<and> ev_start b \<le> ev_end b \<and> contiguous (ev_end b) bs z"

lemma tiled_contiguous:
  "tiled ops off a bs z \<Longrightarrow> contiguous (base + off a)
     (map (\<lambda>i. block_evidence errs base i ((pre @ bs) ! i)) [length pre..<length pre + length bs]) (base + off z)"
proof (induction bs arbitrary: a pre)
  case (Cons b bs)
  from Cons.prems have b: "mb_byte_start b = off a" "off a + mb_byte_size b = off (mb_op_end b)"
    "tiled ops off (mb_op_end b) bs z" by (auto simp: basic_block_def)
  have up: "[length pre..<length pre + length (b # bs)]
      = length pre # [length (pre @ [b])..<length (pre @ [b]) + length bs]"
    by (simp add: upt_rec)
  show ?case
    unfolding up using Cons.IH [OF b(3), of "pre @ [b]"] b by (simp add: block_evidence_def add.assoc)
qed simp

lemma evidence_blocks:
  assumes "machine_layout_evidence_of lines frames ir = Inr ev"
  shows "map ev_index (ev_blocks ev) = [0..<length (ev_blocks ev)]"
    "contiguous (ev_text_start ev) (ev_blocks ev) (ev_text_end ev)"
proof -
  from assms obtain mp where mp: "build_plan lines = Inr mp"
    and ev: "ev_text_start ev = text_user_base (plan_layout mp)"
      "ev_text_end ev = ev_text_start ev + m_text_size (plan_metrics mp)"
      "ev_blocks ev = map (\<lambda>i. block_evidence (ir_runtime_error_labels ir) (ev_text_start ev) i (cfg_blocks (plan_cfg mp) ! i))
         [0..<length (cfg_blocks (plan_cfg mp))]"
    by (auto simp: machine_layout_evidence_of_def Let_def checked_add_u64_def split: if_splits)
  show "map ev_index (ev_blocks ev) = [0..<length (ev_blocks ev)]"
    by (simp add: ev(3) block_evidence_def comp_def)
  let ?p = "plan_parsed mp"
  have "machine_cfg_of ?p = Inr (plan_cfg mp)" by (rule build_plan_steps [OF mp])
  then have blocks: "machine_blocks ?p = Inr (cfg_blocks (plan_cfg mp))" by (rule machine_cfg_ok)
  obtain ls where ls: "text_op_layouts ?p = Inr ls" "off_at ls (length (text_ops ?p)) = section_size ?p Text"
    by (rule plan_text [OF mp])
  obtain z where t: "tiled (text_ops ?p) (off_at ls) 0 (cfg_blocks (plan_cfg mp)) z" "z \<le> length (text_ops ?p)"
    "\<And>j. z \<le> j \<Longrightarrow> j < length (text_ops ?p) \<Longrightarrow> is_label (text_ops ?p ! j)"
    using machine_blocks_tiled [OF blocks] ls(1) by auto
  have "off_at ls z = m_text_size (plan_metrics mp)"
    using off_at_labels [OF ls(1) t(2) order_refl t(3)] ls(2) plan_sizes(1) [OF mp] by simp
  with tiled_contiguous [OF t(1), of "ev_text_start ev" "ir_runtime_error_labels ir" "[]"]
  show "contiguous (ev_text_start ev) (ev_blocks ev) (ev_text_end ev)"
    by (simp add: ev(2,3) off_at_def)
qed

section \<open>The sample program\<close>

definition sample_blocks :: "machine_block list" where
  "sample_blocks =
     [\<lparr>mb_label = Some ''main'', mb_op_start = 0, mb_op_end = 2, mb_byte_start = 0, mb_byte_size = 4,
       mb_terminator = TermConditionalBranch ''.Lzero''\<rparr>,
      \<lparr>mb_label = None, mb_op_start = 2, mb_op_end = 3, mb_byte_start = 4, mb_byte_size = 4,
       mb_terminator = TermFallthrough\<rparr>,
      \<lparr>mb_label = Some ''.Lzero'', mb_op_start = 3, mb_op_end = 5, mb_byte_start = 8, mb_byte_size = 4,
       mb_terminator = TermReturn\<rparr>]"

definition sample_cfg :: machine_cfg where
  "sample_cfg = \<lparr>cfg_blocks = sample_blocks,
     cfg_edges = [\<lparr>edge_from = 0, edge_to = 2, edge_kind = EdgeConditionalTaken\<rparr>,
       \<lparr>edge_from = 0, edge_to = 1, edge_kind = EdgeConditionalFallthrough\<rparr>,
       \<lparr>edge_from = 1, edge_to = 2, edge_kind = EdgeFallthrough\<rparr>]\<rparr>"

lemma sample_machine_blocks: "machine_blocks sample_parsed = Inr sample_blocks"
  unfolding sample_parsed_def sample_op_def sample_blocks_def by (simp add: eval_simps)

lemma sample_machine_cfg: "machine_cfg_of sample_parsed = Inr sample_cfg"
  unfolding machine_cfg_of_def sample_machine_blocks sample_cfg_def
  unfolding sample_parsed_def sample_op_def sample_blocks_def by (simp add: eval_simps)

definition sample_plan :: machine_layout_plan where
  "sample_plan = \<lparr>plan_parsed = sample_parsed, plan_layout = for_text_user_size 12, plan_cfg = sample_cfg,
     plan_order = \<lparr>block_order = [0, 1, 2],
       placed_blocks = [\<lparr>pl_block = 0, pl_byte_start = 0, pl_byte_size = 4\<rparr>,
         \<lparr>pl_block = 1, pl_byte_start = 4, pl_byte_size = 4\<rparr>, \<lparr>pl_block = 2, pl_byte_start = 8, pl_byte_size = 4\<rparr>],
       order_text_size = 12\<rparr>,
     plan_metrics = \<lparr>m_text_size = 12, m_rodata_size = 0, m_executable_text_op_count = 3,
       m_covered_text_op_count = 3, m_relaxed_branch_count = 0, m_max_cond_branch_abs_distance = 8,
       m_machine_block_count = 3, m_max_machine_block_size = 4, m_conditional_branch_block_count = 1,
       m_labeled_machine_block_count = 2, m_machine_cfg_edge_count = 3, m_machine_call_edge_count = 0,
       m_unreachable_machine_block_count = 0, m_layout_order_block_count = 3, m_layout_order_text_size = 12\<rparr>\<rparr>"

lemma sample_conservative:
  "\<exists>p. from_lines_with_branch_mode sample_lines Conservative = Inr p \<and> section_size p Text = 16"
  unfolding sample_lines_def by (simp add: eval_simps cong: rbind_weak_cong)

lemma sample_coverage: "validate_machine_block_coverage sample_parsed sample_cfg = Inr \<lparr>executable_ops = 3, covered_ops = 3\<rparr>"
  unfolding sample_cfg_def sample_parsed_def sample_op_def sample_blocks_def
  by (simp add: eval_simps upt_rec cong: rbind_weak_cong)

lemma sample_order: "machine_layout_order_of sample_cfg = Inr (plan_order sample_plan)"
  unfolding sample_cfg_def sample_plan_def sample_blocks_def
  by (simp add: eval_simps upt_rec cong: rbind_weak_cong)

lemma sample_metrics:
  "layout_metrics sample_parsed (for_text_user_size 12) sample_cfg (plan_order sample_plan)
     \<lparr>executable_ops = 3, covered_ops = 3\<rparr> = Inr (plan_metrics sample_plan)"
  unfolding sample_cfg_def sample_plan_def sample_blocks_def sample_parsed_def sample_op_def
  by (simp add: eval_simps upt_rec cong: rbind_weak_cong)

lemma sample_build_plan: "build_plan sample_lines = Inr sample_plan"
proof -
  obtain p where p: "from_lines_with_branch_mode sample_lines Conservative = Inr p" "section_size p Text = 16"
    using sample_conservative by blast
  have "section_size sample_parsed Text = 12" by (simp add: sample_parsed_def section_size_def)
  with p show ?thesis
    by (simp add: build_plan_def sample_relaxed sample_machine_cfg sample_coverage sample_order sample_metrics
        Let_def) (simp add: sample_plan_def)
qed

section \<open>Properties\<close>

text \<open>
  C11: The machine blocks are basic blocks that partition the text. They follow each other without gap
  or overlap from the first operation to a tail of labels only; each has something to execute, its
  labels stand before everything else and only its last operation can transfer control; its
  terminator is that of its last operation; and its byte range starts and ends at the offsets of
  its first operation and of the one after its last.
\<close>
theorem machine_blocks_partition:
  assumes "machine_blocks p = Inr blocks"
  shows "\<exists>ls z. text_op_layouts p = Inr ls \<and> tiled (text_ops p) (off_at ls) 0 blocks z \<and> z \<le> length (text_ops p)
    \<and> (\<forall>j \<in> {z..<length (text_ops p)}. is_label (text_ops p ! j))"
  using machine_blocks_tiled [OF assms] by (metis atLeastLessThan_iff)

theorem machine_blocks_partition_witness:
  "\<exists>ls z. text_op_layouts sample_parsed = Inr ls \<and> tiled (text_ops sample_parsed) (off_at ls) 0 sample_blocks z
     \<and> z \<le> length (text_ops sample_parsed)"
  using machine_blocks_partition [OF sample_machine_blocks] by blast

text \<open>
  C32: The consistency checks on the graph cannot fail. For every graph the back end builds, the
  coverage check succeeds and counts every executable operation once, and the layout order is
  accepted and places every block where it already is.
\<close>
theorem cfg_checks_never_fail:
  assumes "machine_cfg_of p = Inr cfg"
  shows "validate_machine_block_coverage p cfg
      = Inr \<lparr>executable_ops = executable_text_ops p, covered_ops = executable_text_ops p\<rparr>
    \<and> (\<exists>order. machine_layout_order_of cfg = Inr order \<and> block_order order = [0..<length (cfg_blocks cfg)]
         \<and> (\<forall>i < length (cfg_blocks cfg). placed_blocks order ! i =
              \<lparr>pl_block = i, pl_byte_start = mb_byte_start (cfg_blocks cfg ! i),
               pl_byte_size = mb_byte_size (cfg_blocks cfg ! i)\<rparr>))"
proof -
  obtain ls where "machine_layout_order_of cfg = Inr \<lparr>block_order = [0..<length (cfg_blocks cfg)],
       placed_blocks = map (\<lambda>i. \<lparr>pl_block = i, pl_byte_start = mb_byte_start (cfg_blocks cfg ! i),
         pl_byte_size = mb_byte_size (cfg_blocks cfg ! i)\<rparr>) [0..<length (cfg_blocks cfg)],
       order_text_size = off_at ls (length (text_ops p))\<rparr>"
    by (rule layout_order_Ok [OF machine_cfg_ok(1) [OF assms]])
  then show ?thesis using coverage_Ok [OF machine_cfg_ok(1) [OF assms] refl] by simp
qed

theorem cfg_checks_never_fail_witness:
  "validate_machine_block_coverage sample_parsed sample_cfg
     = Inr \<lparr>executable_ops = executable_text_ops sample_parsed, covered_ops = executable_text_ops sample_parsed\<rparr>"
  using cfg_checks_never_fail [OF sample_machine_cfg] by simp

text \<open>
  C12: The edges of the graph are exactly the control transfers of the code: a jump or taken-branch
  edge for each block whose terminator names a label, to the block the label stands for; a
  fall-through edge to the next block, if there is one, for each block that does not end with a jump
  or a return; a call edge for each call in a block whose label stands for a block; and no other.
  The label of every jump and branch terminator stands for a block.
\<close>
theorem cfg_edges_exact:
  assumes "machine_cfg_of p = Inr cfg"
  shows "set (cfg_edges cfg) = {e. edge_ok p (cfg_blocks cfg) e}
    \<and> (\<forall>i < length (cfg_blocks cfg). targets_resolved p (cfg_blocks cfg) i)"
  using machine_cfg_ok(2,3) [OF assms] by auto

theorem cfg_edges_exact_witness:
  "\<exists>p cfg. from_lines_with_branch_mode [''f:'', ''call g'', ''ret'', ''g:'', ''ret''] (Exact {}) = Inr p
     \<and> machine_cfg_of p = Inr cfg \<and> length (cfg_blocks cfg) = 2
     \<and> {e. edge_ok p (cfg_blocks cfg) e} = {\<lparr>edge_from = 0, edge_to = 1, edge_kind = EdgeCall\<rparr>}"
proof -
  have "\<exists>p cfg. from_lines_with_branch_mode [''f:'', ''call g'', ''ret'', ''g:'', ''ret''] (Exact {}) = Inr p
     \<and> machine_cfg_of p = Inr cfg \<and> length (cfg_blocks cfg) = 2
     \<and> cfg_edges cfg = [\<lparr>edge_from = 0, edge_to = 1, edge_kind = EdgeCall\<rparr>]"
    by (simp add: eval_simps upt_rec cong: rbind_weak_cong)
  then obtain p cfg where
    p: "from_lines_with_branch_mode [''f:'', ''call g'', ''ret'', ''g:'', ''ret''] (Exact {}) = Inr p"
      "machine_cfg_of p = Inr cfg" "length (cfg_blocks cfg) = 2"
      "cfg_edges cfg = [\<lparr>edge_from = 0, edge_to = 1, edge_kind = EdgeCall\<rparr>]" by blast
  from cfg_edges_exact [OF p(2)] p(4)
  have "{e. edge_ok p (cfg_blocks cfg) e} = {\<lparr>edge_from = 0, edge_to = 1, edge_kind = EdgeCall\<rparr>}" by simp
  with p show ?thesis by blast
qed

text \<open>
  C33: The count of unreachable blocks is exact: it is the number of blocks that no path of edges
  connects to the block of the entry label (to the first block, if the entry label starts none).
\<close>
theorem unreachable_count_exact:
  assumes "machine_cfg_of p = Inr cfg"
  shows "unreachable_machine_block_count p cfg
    = card {b. b < length (cfg_blocks cfg) \<and>
        (case Option.bind (entry_label p) (machine_label_to_block p (cfg_blocks cfg)) of Some r \<Rightarrow> r | None \<Rightarrow> 0, b)
          \<notin> (edge_rel (cfg_edges cfg))\<^sup>*}"
proof (cases "cfg_blocks cfg = []")
  case False
  let ?n = "length (cfg_blocks cfg)" and ?E = "edge_rel (cfg_edges cfg)"
  define root where
    "root = (case Option.bind (entry_label p) (machine_label_to_block p (cfg_blocks cfg)) of Some r \<Rightarrow> r | None \<Rightarrow> 0)"
  have root: "root < ?n"
    using False by (auto simp: root_def bind_eq_Some_conv machine_label_to_block_iff dest!: label_block_less
        split: option.split)
  have "snd ` ?E \<subseteq> {..<?n}"
    using machine_cfg_ok(2) [OF assms] by (auto simp: edge_rel_def edge_ok_def Let_def)
  then have "b < ?n" if "(root, b) \<in> ?E\<^sup>*" for b
    using rtrancl_bounded [OF that root] by blast
  then have sub: "?E\<^sup>* `` {root} \<subseteq> {..<?n}" by auto
  have "{b. b < ?n \<and> (root, b) \<notin> ?E\<^sup>*} = {..<?n} - ?E\<^sup>* `` {root}" by auto
  then have "card {b. b < ?n \<and> (root, b) \<notin> ?E\<^sup>*} = ?n - card (?E\<^sup>* `` {root})"
    using card_Diff_subset [OF finite_subset [OF sub] sub] by simp
  then show ?thesis
    using False by (simp add: unreachable_machine_block_count_def reach_root root_def [symmetric] del: reach.simps)
qed (simp add: unreachable_machine_block_count_def)

theorem unreachable_count_exact_witness:
  "unreachable_machine_block_count sample_parsed sample_cfg
    = card {b. b < length (cfg_blocks sample_cfg) \<and>
        (case Option.bind (entry_label sample_parsed) (machine_label_to_block sample_parsed (cfg_blocks sample_cfg))
           of Some r \<Rightarrow> r | None \<Rightarrow> 0, b) \<notin> (edge_rel (cfg_edges sample_cfg))\<^sup>*}"
  by (rule unreachable_count_exact [OF sample_machine_cfg])

text \<open>
  C34: A program whose branch targets are code has a control-flow graph: when the reader accepts the
  lines and the label of every branch and jump is defined in the text before some executable
  operation, the construction of the graph succeeds.
\<close>
theorem machine_cfg_total:
  assumes p: "from_lines_with_branch_mode lines (Exact R) = Inr p"
    and targets: "\<And>op l. op \<in> set (text_ops p) \<Longrightarrow>
      instruction_terminator op \<in> {Some (TermJump l), Some (TermConditionalBranch l)} \<Longrightarrow> code_label p l"
  shows "\<exists>cfg. machine_cfg_of p = Inr cfg"
proof -
  obtain ls where "text_op_layouts p = Inr ls" using from_lines_layouts [OF p] by blast
  then have "\<exists>blocks. machine_blocks p = Inr blocks" by (simp add: machine_blocks_def split: prod.split)
  then obtain blocks where blocks: "machine_blocks p = Inr blocks" ..
  obtain z where t: "tiled (text_ops p) (off_at ls) 0 blocks z"
    using machine_blocks_tiled [OF blocks] \<open>text_op_layouts p = Inr ls\<close> by auto
  have "machine_label_to_block p blocks l \<noteq> None"
    if "b \<in> set blocks" "mb_terminator b \<in> {TermJump l, TermConditionalBranch l}" for b l
  proof -
    from that(2) have "mb_terminator b \<noteq> TermFallthrough" by auto
    from tiled_terminator [OF t that(1) this] that(2) targets have "code_label p l" by (auto; blast)
    then show ?thesis using text_label_resolves [OF p blocks] by (auto simp: code_label_def)
  qed
  then have "\<exists>es. edges_from p blocks 0 blocks = Inr es" by (rule edges_from_total)
  then show ?thesis using blocks by (auto simp: machine_cfg_of_def)
qed

theorem machine_cfg_total_witness:
  "\<exists>cfg. machine_cfg_of sample_parsed = Inr cfg"
proof (rule machine_cfg_total [OF sample_exact])
  fix op l
  assume "op \<in> set (text_ops sample_parsed)"
    "instruction_terminator op \<in> {Some (TermJump l), Some (TermConditionalBranch l)}"
  then have "l = ''.Lzero''" by (auto simp: sample_parsed_def sample_op_def eval_simps)
  then show "code_label sample_parsed l"
    unfolding code_label_def
    by (intro exI [of _ 3] exI [of _ 4])
      (simp add: sample_parsed_def sample_op_def label_index_def section_ops_def is_label_def)
qed

text \<open>
  C35: A layout plan is consistent: the text size of its metrics, the size its layout order adds up to
  and the size the reader counted are the same, the section addresses are computed from this size,
  and the block counts of the metrics are those of the graph.
\<close>
theorem plan_consistent:
  assumes "build_plan lines = Inr mp"
  shows "m_text_size (plan_metrics mp) = section_size (plan_parsed mp) Text
    \<and> order_text_size (plan_order mp) = section_size (plan_parsed mp) Text
    \<and> m_layout_order_text_size (plan_metrics mp) = section_size (plan_parsed mp) Text
    \<and> plan_layout mp = for_text_user_size (section_size (plan_parsed mp) Text)
    \<and> m_layout_order_block_count (plan_metrics mp) = m_machine_block_count (plan_metrics mp)
    \<and> m_covered_text_op_count (plan_metrics mp) = m_executable_text_op_count (plan_metrics mp)"
  using plan_sizes [OF assms] by blast

theorem plan_consistent_witness:
  "build_plan sample_lines = Inr sample_plan
     \<and> order_text_size (plan_order sample_plan) = section_size (plan_parsed sample_plan) Text"
  using plan_consistent [OF sample_build_plan] sample_build_plan by blast

text \<open>
  C36: The evidence describes the text without gaps: the blocks handed to the artifact checker are
  numbered in order, the first starts at the first address of the user text, each starts where the
  previous one ends, and the last ends at the last address.
\<close>
theorem evidence_covers_text:
  assumes "machine_layout_evidence_of lines frames ir = Inr ev"
  shows "map ev_index (ev_blocks ev) = [0..<length (ev_blocks ev)]
    \<and> contiguous (ev_text_start ev) (ev_blocks ev) (ev_text_end ev)"
  using evidence_blocks [OF assms] by blast

theorem evidence_covers_text_witness:
  "\<exists>ev. machine_layout_evidence_of sample_lines [] [] = Inr ev \<and> ev_text_start ev < ev_text_end ev
     \<and> contiguous (ev_text_start ev) (ev_blocks ev) (ev_text_end ev)"
proof -
  have "\<exists>ev. machine_layout_evidence_of sample_lines [] [] = Inr ev \<and> ev_text_start ev < ev_text_end ev"
    by (simp add: machine_layout_evidence_of_def sample_build_plan)
      (simp add: sample_plan_def sample_parsed_def eval_simps)
  then show ?thesis using evidence_covers_text by blast
qed

end
