(* ===== verification/Elf_Image.thy ===== *)
theory Elf_Image
  imports Machine_Cfg "HOL-Library.Char_ord" "HOL-Library.List_Lexorder"
begin

text \<open>
  The ELF writer of \<^verbatim>\<open>src/codegen/assembler.rs\<close>: the check for unresolved calls, the start
  trampoline, the three header writers and \<^verbatim>\<open>assemble_elf_internal\<close>, which lays the encoded
  sections out in one buffer. Writing through a mutable slice is \<open>with_slice\<close>; a slice that
  leaves the buffer, or a copy of another length, is a panic.
\<close>

section \<open>Slices\<close>

definition with_slice :: "byte list \<Rightarrow> nat \<Rightarrow> nat \<Rightarrow> (byte list \<Rightarrow> byte list asm) \<Rightarrow> byte list asm" where
  "with_slice out s e f =
     (case get_range out s e of
        None \<Rightarrow> fail Panic
      | Some bs \<Rightarrow> rbind (f bs) (\<lambda>bs'. Ok (write_at out s bs')))"

definition copy_from_slice :: "byte list \<Rightarrow> byte list \<Rightarrow> byte list asm" where
  "copy_from_slice src old = (if length old = length src then Ok src else fail Panic)"

section \<open>Unresolved calls\<close>

text \<open>
  The loop of \<^verbatim>\<open>reject_unresolved_calls\<close>: the labels seen, and for each call target the location of
  its first call.
\<close>

fun scan_calls ::
  "nat \<Rightarrow> string list \<Rightarrow> string list \<times> (string \<times> provenance) list \<Rightarrow> string list \<times> (string \<times> provenance) list" where
  "scan_calls line_index [] s = s"
| "scan_calls line_index (line # lines) (labels, calls) =
     scan_calls (Suc line_index) lines
       (case strip_comment line of
          None \<Rightarrow> (labels, calls)
        | Some clean \<Rightarrow>
            (case strip_suffix '':'' clean of
               Some label \<Rightarrow> (trim label # labels, calls)
             | None \<Rightarrow>
                 (case strip_prefix ''call '' clean of
                    None \<Rightarrow> (labels, calls)
                  | Some target \<Rightarrow>
                      if trim target = [] \<or> trim target \<in> set (map fst calls) then (labels, calls)
                      else (labels, calls @ [(trim target,
                        \<lparr>prov_line = line_index + 1, prov_text = clean, prov_section = Text,
                         prov_op_index = line_index\<rparr>)]))))"

definition reject_unresolved_calls :: "string list \<Rightarrow> unit asm" where
  "reject_unresolved_calls lines =
     (let scan = scan_calls 0 lines ([], []);
          missing = sort (filter (\<lambda>t. t \<notin> set (fst scan)) (map fst (snd scan)))
      in case missing of
           [] \<Rightarrow> Ok ()
         | first # _ \<Rightarrow>
             (case map_of (snd scan) first of
                None \<Rightarrow> fail Panic
              | Some prov \<Rightarrow> Err (attach prov (new_error (UnresolvedCalls missing)))))"

definition entry_requires_explicit_parameter_abi :: "string list \<Rightarrow> string \<Rightarrow> bool" where
  "entry_requires_explicit_parameter_abi lines entry =
     (\<exists>line \<in> set lines. trim line = ''# cellscript entry abi: '' @ entry @ '' requires-explicit-parameter-abi'')"

section \<open>Headers\<close>

abbreviation (input) ELF_HEADER_SIZE :: nat where "ELF_HEADER_SIZE \<equiv> 64"
abbreviation (input) ELF_PROGRAM_HEADER_SIZE :: nat where "ELF_PROGRAM_HEADER_SIZE \<equiv> 56"
abbreviation (input) ELF_SECTION_HEADER_SIZE :: nat where "ELF_SECTION_HEADER_SIZE \<equiv> 64"
abbreviation (input) ELF_SEGMENT_ALIGN :: nat where "ELF_SEGMENT_ALIGN \<equiv> 0x80"
abbreviation (input) ELF_PF_X :: nat where "ELF_PF_X \<equiv> 1"
abbreviation (input) ELF_PF_R :: nat where "ELF_PF_R \<equiv> 4"
abbreviation (input) EXIT_SYSCALL_NUMBER :: int where "EXIT_SYSCALL_NUMBER \<equiv> 93"

definition ELF_SECTION_NAMES :: "byte list" where
  "ELF_SECTION_NAMES = 0 # str_bytes ''.text'' @ 0 # str_bytes ''.rodata'' @ 0 # str_bytes ''.shstrtab'' @ [0]"

definition write_elf_header :: "nat \<Rightarrow> nat \<Rightarrow> nat \<Rightarrow> nat \<Rightarrow> nat \<Rightarrow> byte list \<Rightarrow> byte list asm" where
  "write_elf_header entry program_header_count section_header_offset section_header_count section_name_index out =
     (if length out \<noteq> ELF_HEADER_SIZE then fail HeaderBufferSize
      else let out = replicate (length out) 0;
               out = write_at out 0 (0x7f # str_bytes ''ELF'');
               out = out[4 := 2];
               out = out[5 := 1];
               out = out[6 := 1];
               out = write_at out 16 (nat_to_le 2 2);
               out = write_at out 18 (nat_to_le 2 243);
               out = write_at out 20 (nat_to_le 4 1);
               out = write_at out 24 (nat_to_le 8 entry);
               out = write_at out 32 (nat_to_le 8 ELF_HEADER_SIZE);
               out = write_at out 40 (nat_to_le 8 section_header_offset);
               out = write_at out 48 (nat_to_le 4 0);
               out = write_at out 52 (nat_to_le 2 ELF_HEADER_SIZE);
               out = write_at out 54 (nat_to_le 2 ELF_PROGRAM_HEADER_SIZE);
               out = write_at out 56 (nat_to_le 2 program_header_count);
               out = write_at out 58 (nat_to_le 2 ELF_SECTION_HEADER_SIZE);
               out = write_at out 60 (nat_to_le 2 section_header_count);
               out = write_at out 62 (nat_to_le 2 section_name_index)
           in Ok out)"

definition write_section_header ::
  "nat \<Rightarrow> nat \<Rightarrow> nat \<Rightarrow> nat \<Rightarrow> nat \<Rightarrow> nat \<Rightarrow> nat \<Rightarrow> byte list \<Rightarrow> byte list asm" where
  "write_section_header name_offset section_type flags address offset len alignment out =
     (if length out \<noteq> ELF_SECTION_HEADER_SIZE then fail SectionHeaderBufferSize
      else let out = replicate (length out) 0;
               out = write_at out 0 (nat_to_le 4 name_offset);
               out = write_at out 4 (nat_to_le 4 section_type);
               out = write_at out 8 (nat_to_le 8 flags);
               out = write_at out 16 (nat_to_le 8 address);
               out = write_at out 24 (nat_to_le 8 offset);
               out = write_at out 32 (nat_to_le 8 len);
               out = write_at out 48 (nat_to_le 8 alignment)
           in Ok out)"

definition write_program_header :: "nat \<Rightarrow> nat \<Rightarrow> nat \<Rightarrow> nat \<Rightarrow> nat \<Rightarrow> byte list \<Rightarrow> byte list asm" where
  "write_program_header flags offset vaddr file_size memory_size out =
     (if length out \<noteq> ELF_PROGRAM_HEADER_SIZE then fail ProgramHeaderBufferSize
      else let out = replicate (length out) 0;
               out = write_at out 0 (nat_to_le 4 1);
               out = write_at out 4 (nat_to_le 4 flags);
               out = write_at out 8 (nat_to_le 8 offset);
               out = write_at out 16 (nat_to_le 8 vaddr);
               out = write_at out 24 (nat_to_le 8 vaddr);
               out = write_at out 32 (nat_to_le 8 file_size);
               out = write_at out 40 (nat_to_le 8 memory_size);
               out = write_at out 48 (nat_to_le 8 ELF_SEGMENT_ALIGN)
           in Ok out)"

section \<open>The image\<close>

definition start_trampoline :: "string list \<Rightarrow> parsed_assembly \<Rightarrow> section_layout \<Rightarrow> string \<Rightarrow> byte list asm" where
  "start_trampoline lines p layout entry =
     rbind (if entry_requires_explicit_parameter_abi lines entry then encode_fixed_li_sequence 10 25
            else rbind (symbol_address p entry layout) (encode_call_sequence (text_base layout))) (\<lambda>enter.
     rbind (encode_fixed_li_sequence 17 EXIT_SYSCALL_NUMBER) (\<lambda>exit.
       Ok (enter @ exit @ u32_le encode_ecall)))"

definition write_image :: "section_layout \<Rightarrow> nat \<Rightarrow> byte list \<Rightarrow> byte list \<Rightarrow> byte list asm" where
  "write_image layout rodata_off text_bytes rodata_bytes =
     (let segment_file_payload_size = rodata_off + length rodata_bytes;
          segment_file_offset = align_up (ELF_HEADER_SIZE + ELF_PROGRAM_HEADER_SIZE) ELF_SEGMENT_ALIGN;
          load_segment_offset = 0 in
      rbind (ok_or (new_error LoadSegmentBeforeText)
               (checked_sub_u64 (text_base layout) segment_file_offset)) (\<lambda>load_segment_vaddr.
      let load_segment_file_size = segment_file_offset + segment_file_payload_size;
          section_names_offset = align_up load_segment_file_size 8;
          section_header_offset = align_up (section_names_offset + length ELF_SECTION_NAMES) 8;
          section_count = 4;
          elf_size = section_header_offset + section_count * ELF_SECTION_HEADER_SIZE;
          elf = replicate elf_size 0 in
      rbind (with_slice elf 0 ELF_HEADER_SIZE
               (write_elf_header (text_base layout) 1 section_header_offset section_count 3)) (\<lambda>elf.
      rbind (with_slice elf ELF_HEADER_SIZE (ELF_HEADER_SIZE + ELF_PROGRAM_HEADER_SIZE)
               (write_program_header (ELF_PF_R OR ELF_PF_X) load_segment_offset load_segment_vaddr
                  load_segment_file_size load_segment_file_size)) (\<lambda>elf.
      rbind (with_slice elf segment_file_offset (segment_file_offset + segment_file_payload_size) (\<lambda>segment.
               rbind (with_slice segment 0 (length text_bytes) (copy_from_slice text_bytes)) (\<lambda>segment.
                 with_slice segment rodata_off (rodata_off + length rodata_bytes) (copy_from_slice rodata_bytes))))
        (\<lambda>elf.
      rbind (with_slice elf section_names_offset (section_names_offset + length ELF_SECTION_NAMES)
               (copy_from_slice ELF_SECTION_NAMES)) (\<lambda>elf.
      with_slice elf section_header_offset (section_header_offset + section_count * ELF_SECTION_HEADER_SIZE)
        (\<lambda>headers.
           rbind (with_slice headers ELF_SECTION_HEADER_SIZE (2 * ELF_SECTION_HEADER_SIZE)
                    (write_section_header 1 1 (0x2 OR 0x4) (text_base layout) segment_file_offset
                       (length text_bytes) 4)) (\<lambda>headers.
           rbind (with_slice headers (2 * ELF_SECTION_HEADER_SIZE) (3 * ELF_SECTION_HEADER_SIZE)
                    (write_section_header 7 1 0x2 (rodata_base layout) (segment_file_offset + rodata_off)
                       (length rodata_bytes) 8)) (\<lambda>headers.
           with_slice headers (3 * ELF_SECTION_HEADER_SIZE) (4 * ELF_SECTION_HEADER_SIZE)
             (write_section_header 15 3 0 0 section_names_offset (length ELF_SECTION_NAMES) 1))))))))))"

definition assemble_elf_internal :: "string list \<Rightarrow> byte list asm" where
  "assemble_elf_internal lines =
     rbind (map_err (with_codegen_code E2201) (build_plan lines)) (\<lambda>mp.
     let parsed = plan_parsed mp; layout = plan_layout mp in
     rbind (ok_or (new_error NoEntryPoint) (entry_label parsed)) (\<lambda>entry.
     rbind (start_trampoline lines parsed layout entry) (\<lambda>trampoline.
     rbind (map_err (with_codegen_code E2202)
              (encode_section parsed Text trampoline layout START_TRAMPOLINE_SIZE)) (\<lambda>text_bytes.
     rbind (map_err (with_codegen_code E2202) (encode_section parsed Rodata [] layout 0)) (\<lambda>rodata_bytes.
       write_image layout (rodata_offset layout) text_bytes rodata_bytes)))))"

definition assemble_generated_elf :: "string list \<Rightarrow> byte list asm" where
  "assemble_generated_elf lines =
     rbind (map_err (with_codegen_code E2200) (reject_unresolved_calls lines)) (\<lambda>_. assemble_elf_internal lines)"

section \<open>The bytes of the headers\<close>

text \<open>A buffer of \<open>n\<close> bytes of which a prefix has been written and the rest is zero.\<close>

definition zero_filled :: "nat \<Rightarrow> byte list \<Rightarrow> byte list" where
  "zero_filled n bs = bs @ replicate (n - length bs) 0"

lemma zero_filled_Nil: "replicate n 0 = zero_filled n []"
  by (simp add: zero_filled_def)

lemma length_zero_filled: "length bs \<le> n \<Longrightarrow> length (zero_filled n bs) = n"
  by (simp add: zero_filled_def)

lemma write_zero_filled:
  assumes "length bs \<le> off" "off + length src \<le> n"
  shows "write_at (zero_filled n bs) off src = zero_filled n (bs @ replicate (off - length bs) 0 @ src)"
  using assms by (simp add: write_at_def zero_filled_def replicate_add [symmetric])

lemma update_zero_filled:
  assumes "length bs \<le> i" "i < n"
  shows "(zero_filled n bs)[i := v] = zero_filled n (bs @ replicate (i - length bs) 0 @ [v])"
proof -
  have "(zero_filled n bs)[i := v] = write_at (zero_filled n bs) i [v]"
    using assms by (simp add: upd_conv_take_nth_drop length_zero_filled write_at_def)
  with write_zero_filled [of bs i "[v]" n] assms show ?thesis by simp
qed

lemmas zero_filled_simps = zero_filled_Nil length_zero_filled write_zero_filled update_zero_filled

lemma write_elf_header_bytes:
  assumes "length out = 64"
  shows "write_elf_header entry pc so sc ni out = Inr
    ([0x7f, 0x45, 0x4c, 0x46, 2, 1, 1] @ replicate 9 0 @ nat_to_le 2 2 @ nat_to_le 2 243 @ nat_to_le 4 1
     @ nat_to_le 8 entry @ nat_to_le 8 64 @ nat_to_le 8 so @ nat_to_le 4 0 @ nat_to_le 2 64 @ nat_to_le 2 56
     @ nat_to_le 2 pc @ nat_to_le 2 64 @ nat_to_le 2 sc @ nat_to_le 2 ni)"
  unfolding write_elf_header_def Let_def assms zero_filled_Nil
  by (simp add: write_zero_filled update_zero_filled str_bytes_def) (simp add: zero_filled_def)

lemma write_section_header_bytes:
  assumes "length out = 64"
  shows "write_section_header name ty flags address offset len al out = Inr
    (nat_to_le 4 name @ nat_to_le 4 ty @ nat_to_le 8 flags @ nat_to_le 8 address @ nat_to_le 8 offset
     @ nat_to_le 8 len @ replicate 8 0 @ nat_to_le 8 al @ replicate 8 0)"
  unfolding write_section_header_def Let_def assms zero_filled_Nil
  by (simp add: write_zero_filled) (simp add: zero_filled_def)

lemma write_program_header_bytes:
  assumes "length out = 56"
  shows "write_program_header flags offset vaddr fs ms out = Inr
    (nat_to_le 4 1 @ nat_to_le 4 flags @ nat_to_le 8 offset @ nat_to_le 8 vaddr @ nat_to_le 8 vaddr
     @ nat_to_le 8 fs @ nat_to_le 8 ms @ nat_to_le 8 128)"
  unfolding write_program_header_def Let_def assms zero_filled_Nil
  by (simp add: write_zero_filled) (simp add: zero_filled_def)

section \<open>The image\<close>

lemma with_slice_append:
  assumes "length a = s" "s + length b = e" "f b = Inr b'" "length b' = length b"
  shows "with_slice (a @ b @ c) s e f = Inr (a @ b' @ c)"
  using assms by (auto simp: with_slice_def get_range_def write_at_def)

text \<open>
  The reference layout: headers, eight bytes of padding, the text section padded to the read-only
  data, the section names and the section headers, the last two padded to eight bytes.
\<close>

definition names_offset :: "nat \<Rightarrow> byte list \<Rightarrow> nat" where
  "names_offset ro rodata = align_up (128 + (ro + length rodata)) 8"

definition headers_offset :: "nat \<Rightarrow> byte list \<Rightarrow> nat" where
  "headers_offset ro rodata = align_up (names_offset ro rodata + 25) 8"

definition elf_header_bytes :: "nat \<Rightarrow> nat \<Rightarrow> byte list" where
  "elf_header_bytes entry so =
     [0x7f, 0x45, 0x4c, 0x46, 2, 1, 1] @ replicate 9 0 @ nat_to_le 2 2 @ nat_to_le 2 243 @ nat_to_le 4 1
     @ nat_to_le 8 entry @ nat_to_le 8 64 @ nat_to_le 8 so @ nat_to_le 4 0 @ nat_to_le 2 64 @ nat_to_le 2 56
     @ nat_to_le 2 1 @ nat_to_le 2 64 @ nat_to_le 2 4 @ nat_to_le 2 3"

definition program_header_bytes :: "nat \<Rightarrow> nat \<Rightarrow> byte list" where
  "program_header_bytes vaddr len =
     nat_to_le 4 1 @ nat_to_le 4 5 @ nat_to_le 8 0 @ nat_to_le 8 vaddr @ nat_to_le 8 vaddr
     @ nat_to_le 8 len @ nat_to_le 8 len @ nat_to_le 8 128"

definition section_header_bytes :: "nat \<Rightarrow> nat \<Rightarrow> nat \<Rightarrow> nat \<Rightarrow> nat \<Rightarrow> nat \<Rightarrow> nat \<Rightarrow> byte list" where
  "section_header_bytes name ty flags address offset len al =
     nat_to_le 4 name @ nat_to_le 4 ty @ nat_to_le 8 flags @ nat_to_le 8 address @ nat_to_le 8 offset
     @ nat_to_le 8 len @ replicate 8 0 @ nat_to_le 8 al @ replicate 8 0"

definition image_of :: "nat \<Rightarrow> nat \<Rightarrow> byte list \<Rightarrow> byte list \<Rightarrow> byte list" where
  "image_of base ro code rodata =
     (let names = names_offset ro rodata; headers = headers_offset ro rodata
      in elf_header_bytes base headers
         @ program_header_bytes (base - 128) (128 + (ro + length rodata))
         @ replicate 8 0
         @ (code @ replicate (ro - length code) 0 @ rodata)
         @ replicate (names - (128 + (ro + length rodata))) 0
         @ ELF_SECTION_NAMES
         @ replicate (headers - (names + 25)) 0
         @ (replicate 64 0
            @ section_header_bytes 1 1 6 base 128 (length code) 4
            @ section_header_bytes 7 1 2 (base + ro) (128 + ro) (length rodata) 8
            @ section_header_bytes 15 3 0 0 names 25 1))"

lemma header_lengths [simp]:
  "length (elf_header_bytes e so) = 64" "length (program_header_bytes v n) = 56"
  "length (section_header_bytes nm ty fl ad off ln al) = 64" "length ELF_SECTION_NAMES = 25"
  by (simp_all add: elf_header_bytes_def program_header_bytes_def section_header_bytes_def ELF_SECTION_NAMES_def
      str_bytes_def)

lemma offsets_ordered:
  "128 + (ro + length rodata) \<le> names_offset ro rodata" "names_offset ro rodata + 25 \<le> headers_offset ro rodata"
  using align_up_props(2) [of 8 3] by (simp_all add: names_offset_def headers_offset_def)

lemma write_section_headers:
  assumes "length h0 = 64" "length h1 = 64" "length h2 = 64" "length h3 = 64"
  shows "rbind (with_slice (h0 @ h1 @ h2 @ h3) 64 128 (write_section_header n1 t1 f1 a1 o1 l1 g1)) (\<lambda>h.
    rbind (with_slice h 128 192 (write_section_header n2 t2 f2 a2 o2 l2 g2)) (\<lambda>h.
      with_slice h 192 256 (write_section_header n3 t3 f3 a3 o3 l3 g3)))
    = Inr (h0 @ section_header_bytes n1 t1 f1 a1 o1 l1 g1 @ section_header_bytes n2 t2 f2 a2 o2 l2 g2
        @ section_header_bytes n3 t3 f3 a3 o3 l3 g3)"
proof -
  note w = write_section_header_bytes [folded section_header_bytes_def]
  let ?h1 = "section_header_bytes n1 t1 f1 a1 o1 l1 g1" and ?h2 = "section_header_bytes n2 t2 f2 a2 o2 l2 g2"
  have "with_slice (h0 @ h1 @ h2 @ h3) 64 128 (write_section_header n1 t1 f1 a1 o1 l1 g1)
      = Inr (h0 @ ?h1 @ h2 @ h3)"
    by (rule with_slice_append) (simp_all add: assms w)
  moreover have "with_slice ((h0 @ ?h1) @ h2 @ h3) 128 192 (write_section_header n2 t2 f2 a2 o2 l2 g2)
      = Inr ((h0 @ ?h1) @ ?h2 @ h3)"
    by (rule with_slice_append) (simp_all add: assms w)
  moreover have "with_slice ((h0 @ ?h1 @ ?h2) @ h3 @ []) 192 256 (write_section_header n3 t3 f3 a3 o3 l3 g3)
      = Inr ((h0 @ ?h1 @ ?h2) @ section_header_bytes n3 t3 f3 a3 o3 l3 g3 @ [])"
    by (rule with_slice_append) (simp_all add: assms w)
  ultimately show ?thesis by simp
qed

lemma copy_segment:
  assumes "length code \<le> ro"
  shows "rbind (with_slice (replicate (ro + length rodata) 0) 0 (length code) (copy_from_slice code)) (\<lambda>seg.
      with_slice seg ro (ro + length rodata) (copy_from_slice rodata))
    = Inr (code @ replicate (ro - length code) 0 @ rodata)"
proof -
  have "with_slice ([] @ replicate (length code) 0 @ replicate (ro - length code + length rodata) 0) 0 (length code)
      (copy_from_slice code) = Inr ([] @ code @ replicate (ro - length code + length rodata) 0)"
    by (rule with_slice_append) (simp_all add: copy_from_slice_def)
  moreover have "with_slice ((code @ replicate (ro - length code) 0) @ replicate (length rodata) 0 @ []) ro
      (ro + length rodata) (copy_from_slice rodata) = Inr ((code @ replicate (ro - length code) 0) @ rodata @ [])"
    by (rule with_slice_append) (use assms in \<open>simp_all add: copy_from_slice_def\<close>)
  moreover have "replicate (ro + length rodata) (0 :: byte)
      = replicate (length code) 0 @ replicate (ro - length code + length rodata) 0"
    using assms by (simp add: replicate_add [symmetric])
  ultimately show ?thesis by (simp add: replicate_add)
qed

lemma write_image_bytes:
  assumes "128 \<le> text_base layout" "rodata_base layout = text_base layout + ro" "length code \<le> ro"
  shows "write_image layout ro code rodata = Inr (image_of (text_base layout) ro code rodata)"
proof -
  define n where "n = 128 + (ro + length rodata)"
  define names where "names = names_offset ro rodata"
  define headers where "headers = headers_offset ro rodata"
  define base where "base = text_base layout"
  let ?z = "\<lambda>k. replicate k (0 :: byte)"
  have ord: "n \<le> names" "names + 25 \<le> headers"
    using offsets_ordered [of ro rodata] by (simp_all add: n_def names_def headers_def)
  let ?eh = "elf_header_bytes base headers" and ?ph = "program_header_bytes (base - 128) n"
    and ?seg = "code @ ?z (ro - length code) @ rodata"
    and ?sh = "replicate 64 0 @ section_header_bytes 1 1 6 base 128 (length code) 4
            @ section_header_bytes 7 1 2 (base + ro) (128 + ro) (length rodata) 8
            @ section_header_bytes 15 3 0 0 names 25 1"
  let ?p1 = "?z (names - n)" and ?p2 = "?z (headers - (names + 25))"
  have zeros: "?z (headers + 4 * 64) = [] @ ?z 64 @ (?z 56 @ ?z 8 @ ?z (ro + length rodata) @ ?p1 @ ?z 25 @ ?p2
      @ ?z 64 @ ?z 64 @ ?z 64 @ ?z 64)"
    using ord by (simp add: replicate_add [symmetric] n_def)
  have w1: "with_slice (?z (headers + 4 * 64)) 0 64 (write_elf_header base 1 headers 4 3)
      = Inr ([] @ ?eh @ (?z 56 @ ?z 8 @ ?z (ro + length rodata) @ ?p1 @ ?z 25 @ ?p2 @ ?z 64 @ ?z 64 @ ?z 64 @ ?z 64))"
    unfolding zeros by (rule with_slice_append) (simp_all add: write_elf_header_bytes elf_header_bytes_def)
  have w2: "with_slice (?eh @ ?z 56 @ (?z 8 @ ?z (ro + length rodata) @ ?p1 @ ?z 25 @ ?p2 @ ?z 64 @ ?z 64 @ ?z 64 @ ?z 64))
      64 (64 + 56) (write_program_header 5 0 (base - 128) n n)
    = Inr (?eh @ ?ph @ (?z 8 @ ?z (ro + length rodata) @ ?p1 @ ?z 25 @ ?p2 @ ?z 64 @ ?z 64 @ ?z 64 @ ?z 64))"
    by (rule with_slice_append) (simp_all add: write_program_header_bytes program_header_bytes_def)
  have w3: "with_slice ((?eh @ ?ph @ ?z 8) @ ?z (ro + length rodata) @ (?p1 @ ?z 25 @ ?p2 @ ?z 64 @ ?z 64 @ ?z 64 @ ?z 64))
      128 (128 + (ro + length rodata)) (\<lambda>segment.
        rbind (with_slice segment 0 (length code) (copy_from_slice code)) (\<lambda>segment.
          with_slice segment ro (ro + length rodata) (copy_from_slice rodata)))
    = Inr ((?eh @ ?ph @ ?z 8) @ ?seg @ (?p1 @ ?z 25 @ ?p2 @ ?z 64 @ ?z 64 @ ?z 64 @ ?z 64))"
    by (rule with_slice_append) (use assms(3) in \<open>simp_all add: copy_segment\<close>)
  have w4: "with_slice ((?eh @ ?ph @ ?z 8 @ ?seg @ ?p1) @ ?z 25 @ (?p2 @ ?z 64 @ ?z 64 @ ?z 64 @ ?z 64))
      names (names + length ELF_SECTION_NAMES) (copy_from_slice ELF_SECTION_NAMES)
    = Inr ((?eh @ ?ph @ ?z 8 @ ?seg @ ?p1) @ ELF_SECTION_NAMES @ (?p2 @ ?z 64 @ ?z 64 @ ?z 64 @ ?z 64))"
    by (rule with_slice_append) (use ord assms(3) in \<open>simp_all add: copy_from_slice_def n_def\<close>)
  have w5: "with_slice ((?eh @ ?ph @ ?z 8 @ ?seg @ ?p1 @ ELF_SECTION_NAMES @ ?p2) @ (?z 64 @ ?z 64 @ ?z 64 @ ?z 64) @ [])
      headers (headers + 4 * 64) (\<lambda>h.
        rbind (with_slice h 64 (2 * 64) (write_section_header 1 1 (2 OR 4) base 128 (length code) 4)) (\<lambda>h.
        rbind (with_slice h (2 * 64) (3 * 64)
          (write_section_header 7 1 2 (rodata_base layout) (128 + ro) (length rodata) 8)) (\<lambda>h.
        with_slice h (3 * 64) (4 * 64) (write_section_header 15 3 0 0 names (length ELF_SECTION_NAMES) 1))))
    = Inr ((?eh @ ?ph @ ?z 8 @ ?seg @ ?p1 @ ELF_SECTION_NAMES @ ?p2) @ ?sh @ [])"
    by (rule with_slice_append)
      (use ord assms(3) in \<open>simp_all add: write_section_headers n_def assms(2) base_def\<close>)
  have al: "align_up (64 + 56) 128 = 128" by (simp add: align_up_def)
  have names_eq: "align_up n 8 = names" by (simp add: names_def names_offset_def n_def)
  have headers_eq: "align_up (names + length ELF_SECTION_NAMES) 8 = headers"
    by (simp add: headers_def headers_offset_def names_def)
  have "checked_sub_u64 base 128 = Some (base - 128)"
    using assms(1) by (simp add: checked_sub_u64_def base_def)
  moreover have "(4 :: nat) OR 1 = 5" by simp
  ultimately show ?thesis
    unfolding write_image_def image_of_def Let_def al
    unfolding n_def [symmetric] base_def [symmetric] names_def [symmetric] headers_def [symmetric]
    unfolding names_eq headers_eq
    using w1 w2 w3 w4 w5
    by (simp add: ok_or_def n_def [symmetric] cong: rbind_weak_cong)
qed

section \<open>Operations of an accepted program\<close>

lemma from_lines_ops_ok:
  assumes "from_lines_with_branch_mode lines mode = Inr p" "op \<in> set (section_ops p sec)"
  shows "op_ok (the_op op)"
  using from_lines_located [OF assms(1)] assms(2) by (metis in_set_conv_nth op_located_def)

lemma rodata_padded_alike:
  assumes "from_lines_with_branch_mode lines mode = Inr p"
  shows "padded_alike 0 p sec"
  unfolding padded_alike_def list_all_iff
proof
  fix op assume "op \<in> set (section_ops p sec)"
  from from_lines_ops_ok [OF assms this] show "pads_alike 0 op"
    by (cases "the_op op") (auto simp: op_ok_def pads_alike_def)
qed

section \<open>The assembled image\<close>

lemma fixed_li_bytes:
  "encode_fixed_li_sequence 10 25 = Inr (u32_le 0x00000537 @ u32_le 0x01950513)"
  "encode_fixed_li_sequence 17 93 = Inr (u32_le 0x000008b7 @ u32_le 0x05d88893)"
  by (simp_all add: eval_simps)

lemma start_trampoline_length: "start_trampoline lines p layout entry = Inr bs \<Longrightarrow> length bs = 20"
  by (auto simp: start_trampoline_def fixed_li_bytes dest: encode_sequences_length split: if_splits)

lemma plan_rodata_size:
  assumes "build_plan lines = Inr mp"
  shows "m_rodata_size (plan_metrics mp) = section_size (plan_parsed mp) Rodata"
  by (rule build_plan_steps [OF assms]) (auto simp: layout_metrics_def eq_commute [of _ "plan_metrics mp"])

lemma assembled_sections:
  assumes "assemble_elf_internal lines = Inr elf" "build_plan lines = Inr mp"
  obtains entry tramp code rodata where "entry_label (plan_parsed mp) = Some entry"
    "start_trampoline lines (plan_parsed mp) (plan_layout mp) entry = Inr tramp"
    "encode_section (plan_parsed mp) Text tramp (plan_layout mp) 20 = Inr code"
    "encode_section (plan_parsed mp) Rodata [] (plan_layout mp) 0 = Inr rodata"
    "write_image (plan_layout mp) (rodata_offset (plan_layout mp)) code rodata = Inr elf"
  using assms by (auto simp: assemble_elf_internal_def Let_def ok_or_def split: option.splits)

lemma assembled_image:
  assumes elf: "assemble_elf_internal lines = Inr elf" and mp: "build_plan lines = Inr mp"
    and pad: "padded_alike 20 (plan_parsed mp) Text"
  obtains entry tramp user rodata where "entry_label (plan_parsed mp) = Some entry"
    "start_trampoline lines (plan_parsed mp) (plan_layout mp) entry = Inr tramp" "length tramp = 20"
    "encode_section (plan_parsed mp) Text tramp (plan_layout mp) 20 = Inr (tramp @ user)"
    "encode_section (plan_parsed mp) Rodata [] (plan_layout mp) 0 = Inr rodata"
    "length user = section_size (plan_parsed mp) Text" "length rodata = section_size (plan_parsed mp) Rodata"
    "elf = image_of 0x10000 (align_up (20 + section_size (plan_parsed mp) Text) 8) (tramp @ user) rodata"
proof -
  let ?p = "plan_parsed mp" and ?l = "plan_layout mp"
  obtain entry tramp code rodata where e: "entry_label ?p = Some entry"
    "start_trampoline lines ?p ?l entry = Inr tramp"
    "encode_section ?p Text tramp ?l 20 = Inr code" "encode_section ?p Rodata [] ?l 0 = Inr rodata"
    "write_image ?l (rodata_offset ?l) code rodata = Inr elf"
    by (rule assembled_sections [OF elf mp])
  have len: "length tramp = 20" by (rule start_trampoline_length [OF e(2)])
  obtain R where p: "from_lines_with_branch_mode lines (Exact R) = Inr ?p" by (rule plan_text [OF mp])
  from encode_section_size [OF p, of tramp Text ?l code] len pad e(3) obtain user where
    user: "code = tramp @ user" "length user = section_size ?p Text" by auto
  from encode_section_size [OF p, of "[]" Rodata ?l rodata] rodata_padded_alike [OF p] e(4)
  have ro: "length rodata = section_size ?p Rodata" by auto
  have layout: "text_base ?l = 0x10000" "rodata_base ?l = 0x10000 + align_up (20 + section_size ?p Text) 8"
    "rodata_offset ?l = align_up (20 + section_size ?p Text) 8"
    using plan_sizes(4) [OF mp] by (simp_all add: for_text_user_size_def Let_def rodata_offset_def)
  have "length code \<le> align_up (20 + section_size ?p Text) 8"
    using align_up_props(2) [of 8 3 "20 + section_size ?p Text"] user len by simp
  with write_image_bytes [of ?l "align_up (20 + section_size ?p Text) 8" code rodata] layout e(5)
  have "elf = image_of 0x10000 (align_up (20 + section_size ?p Text) 8) code rodata" by simp
  with that e len user ro show ?thesis by blast
qed

section \<open>Unresolved calls\<close>

text \<open>The labels a line list defines, and the targets it calls, line by line.\<close>

definition line_label :: "string \<Rightarrow> string option" where
  "line_label line = Option.bind (strip_comment line) (\<lambda>clean. map_option trim (strip_suffix '':'' clean))"

definition line_call :: "string \<Rightarrow> string option" where
  "line_call line = Option.bind (strip_comment line) (\<lambda>clean.
     if strip_suffix '':'' clean \<noteq> None then None
     else Option.bind (strip_prefix ''call '' clean) (\<lambda>t. if trim t = [] then None else Some (trim t)))"

definition missing_calls :: "string list \<Rightarrow> string set" where
  "missing_calls lines = {t. (\<exists>line \<in> set lines. line_call line = Some t)
     \<and> \<not> (\<exists>line \<in> set lines. line_label line = Some t)}"

definition call_at :: "nat \<Rightarrow> string list \<Rightarrow> string \<Rightarrow> provenance \<Rightarrow> bool" where
  "call_at i lines t prov \<longleftrightarrow> (\<exists>k < length lines. line_call (lines ! k) = Some t \<and> prov_line prov = i + k + 1
     \<and> strip_comment (lines ! k) = Some (prov_text prov) \<and> (\<forall>j < k. line_call (lines ! j) \<noteq> Some t))"

lemma call_at_Cons:
  "call_at i (line # lines) t prov \<longleftrightarrow>
     (if line_call line = Some t then prov_line prov = i + 1 \<and> strip_comment line = Some (prov_text prov)
      else call_at (Suc i) lines t prov)"
proof (cases "line_call line = Some t")
  case True
  then have "(\<forall>j < k. line_call ((line # lines) ! j) \<noteq> Some t) \<longleftrightarrow> k = 0" for k
    by (cases k) auto
  with True show ?thesis by (simp add: call_at_def conj_commute)
next
  case False
  have "call_at i (line # lines) t prov \<longleftrightarrow> (\<exists>k < length lines. line_call (lines ! k) = Some t \<and> prov_line prov = i + Suc k + 1
     \<and> strip_comment (lines ! k) = Some (prov_text prov) \<and> (\<forall>j < k. line_call (lines ! j) \<noteq> Some t))"
    unfolding call_at_def using False by (simp add: Ex_less_Suc2 All_less_Suc2)
  with False show ?thesis by (simp add: call_at_def)
qed

lemma scan_calls_sound:
  "set (fst (scan_calls i lines (ls, cs))) = set ls \<union> {l. \<exists>line \<in> set lines. line_label line = Some l}
   \<and> fst ` set (snd (scan_calls i lines (ls, cs))) = fst ` set cs \<union> {t. \<exists>line \<in> set lines. line_call line = Some t}
   \<and> (distinct (map fst cs) \<longrightarrow> distinct (map fst (snd (scan_calls i lines (ls, cs)))))
   \<and> (\<forall>(t, prov) \<in> set (snd (scan_calls i lines (ls, cs))). (t, prov) \<in> set cs \<or> t \<notin> fst ` set cs \<and> call_at i lines t prov)"
proof (induction lines arbitrary: i ls cs)
  case (Cons line lines)
  show ?case
  proof (cases "line_label line")
    case (Some l)
    then have s: "scan_calls i (line # lines) (ls, cs) = scan_calls (Suc i) lines (l # ls, cs)" "line_call line = None"
      by (auto simp: line_label_def line_call_def bind_eq_Some_conv)
    then show ?thesis using Cons.IH [of "Suc i" "l # ls" cs] Some by (auto simp: call_at_Cons)
  next
    case None
    note nolabel = None
    show ?thesis
    proof (cases "line_call line")
      case None
      with nolabel have "scan_calls i (line # lines) (ls, cs) = scan_calls (Suc i) lines (ls, cs)"
        by (auto simp: line_label_def line_call_def split: option.splits if_splits)
      then show ?thesis using Cons.IH [of "Suc i" ls cs] None nolabel by (auto simp: call_at_Cons)
    next
      case (Some t)
      then obtain clean where clean: "strip_comment line = Some clean"
        by (auto simp: line_call_def bind_eq_Some_conv)
      let ?c = "(t, \<lparr>prov_line = i + 1, prov_text = clean, prov_section = Text, prov_op_index = i\<rparr>)"
      have "scan_calls i (line # lines) (ls, cs)
          = scan_calls (Suc i) lines (ls, if t \<in> set (map fst cs) then cs else cs @ [?c])"
        using Some clean by (auto simp: line_call_def image_iff split: option.splits if_splits)
      then show ?thesis
        using Cons.IH [of "Suc i" ls "if t \<in> set (map fst cs) then cs else cs @ [?c]"] Some nolabel clean
        by (cases "t \<in> set (map fst cs)") (auto simp: call_at_Cons)
    qed
  qed
qed auto

lemma scan_calls_spec:
  fixes lines :: "string list"
  defines "scan \<equiv> scan_calls 0 lines ([], [])"
  shows "set (fst scan) = {l. \<exists>line \<in> set lines. line_label line = Some l}"
    "fst ` set (snd scan) = {t. \<exists>line \<in> set lines. line_call line = Some t}"
    "distinct (map fst (snd scan))" "\<And>t prov. (t, prov) \<in> set (snd scan) \<Longrightarrow> call_at 0 lines t prov"
  using scan_calls_sound [of 0 lines "[]" "[]"] unfolding scan_def by auto

section \<open>The sample program\<close>

definition sample_code :: "byte list" where
  "sample_code = u32_le 0x00000097 @ u32_le 0x014080e7 @ u32_le 0x000008b7 @ u32_le 0x05d88893 @ u32_le 0x00000073
     @ u32_le 0x00050463 @ u32_le 0xfff50513 @ u32_le 0x00008067"

definition sample_image :: "byte list" where
  "sample_image = image_of 0x10000 32 sample_code []"

lemma sample_trampoline:
  "start_trampoline sample_lines sample_parsed (for_text_user_size 12) ''main'' = Inr (take 20 sample_code)"
proof -
  have "\<not> entry_requires_explicit_parameter_abi sample_lines ''main''"
    unfolding entry_requires_explicit_parameter_abi_def sample_lines_def list.set bex_simps
    by (simp add: eval_simps)
  moreover have "symbol_address sample_parsed ''main'' (for_text_user_size 12) = Inr 0x10014"
    by (simp add: sample_parsed_def eval_simps)
  moreover have "encode_call_sequence 0x10000 0x10014 = Inr (u32_le 0x00000097 @ u32_le 0x014080e7)"
    by (simp add: eval_simps)
  moreover have "text_base (for_text_user_size 12) = 0x10000" by (simp add: for_text_user_size_def Let_def)
  ultimately show ?thesis
    by (simp add: start_trampoline_def fixed_li_bytes sample_code_def encode_ecall_def)
qed

lemma sample_text:
  "encode_section sample_parsed Text (take 20 sample_code) (for_text_user_size 12) 20 = Inr sample_code"
  unfolding sample_parsed_def sample_op_def sample_code_def by (simp add: eval_simps)

lemma sample_assembled: "assemble_elf_internal sample_lines = Inr sample_image"
proof -
  have "encode_section sample_parsed Rodata [] (for_text_user_size 12) 0 = Inr []"
    by (simp add: sample_parsed_def eval_simps)
  moreover have "write_image (for_text_user_size 12) 32 sample_code [] = Inr sample_image"
    using write_image_bytes [of "for_text_user_size 12" 32 sample_code "[]"]
    by (simp add: sample_image_def sample_code_def for_text_user_size_def align_up_def)
  moreover have "rodata_offset (for_text_user_size 12) = 32"
    by (simp add: rodata_offset_def for_text_user_size_def align_up_def)
  moreover have "entry_label sample_parsed = Some ''main''" by (simp add: sample_parsed_def)
  moreover have "plan_parsed sample_plan = sample_parsed" "plan_layout sample_plan = for_text_user_size 12"
    by (simp_all add: sample_plan_def)
  ultimately show ?thesis
    by (simp add: assemble_elf_internal_def sample_build_plan sample_trampoline sample_text ok_or_def)
qed

lemma sample_padded: "padded_alike 20 (plan_parsed sample_plan) Text"
  by (simp add: padded_alike_def sample_plan_def sample_parsed_def sample_op_def section_ops_def pads_alike_def)

section \<open>Properties\<close>

text \<open>
  C31: The check for unresolved calls is exact. It succeeds when every called name is defined as a
  label of some line; otherwise the error lists exactly the called names that no line defines, in
  ascending order and without repetition, and points at the first line that calls the first of them.
\<close>
theorem unresolved_calls_exact:
  "case reject_unresolved_calls lines of
     Inr _ \<Rightarrow> missing_calls lines = {}
   | Inl e \<Rightarrow> \<exists>names prov. err_kind e = UnresolvedCalls names \<and> names \<noteq> [] \<and> set names = missing_calls lines
       \<and> sorted names \<and> distinct names \<and> err_asm e = Some prov \<and> call_at 0 lines (names ! 0) prov"
proof -
  let ?scan = "scan_calls 0 lines ([], [])"
  define missing where "missing = sort (filter (\<lambda>t. t \<notin> set (fst ?scan)) (map fst (snd ?scan)))"
  note spec = scan_calls_spec [where lines = lines]
  have missing: "set missing = missing_calls lines" "sorted missing" "distinct missing"
    using spec(1,3) spec(2) [unfolded image_set] by (auto simp: missing_def missing_calls_def)
  show ?thesis
  proof (cases missing)
    case Nil
    with missing show ?thesis by (simp add: reject_unresolved_calls_def Let_def missing_def [symmetric])
  next
    case (Cons t ts)
    then have "t \<in> fst ` set (snd ?scan)" using missing(1) spec(2) by (auto simp: missing_calls_def)
    then obtain prov where prov: "map_of (snd ?scan) t = Some prov"
      by (metis map_of_eq_None_iff not_None_eq)
    with spec(4) have "call_at 0 lines t prov" by (meson map_of_SomeD)
    with prov Cons missing show ?thesis
      by (simp add: reject_unresolved_calls_def Let_def missing_def [symmetric] attach_def new_error_def)
  qed
qed

text \<open>
  C30: The image is laid out as planned, for programs whose alignments pad alike with and without the
  trampoline in front (\<open>padded_alike\<close>). The bytes of an assembled file are the ELF and program header,
  eight bytes of padding, the 20-byte trampoline and the encoded text of the planned size at offset
  128, the encoded read-only data at the next multiple of eight, the section names and the section
  headers; and every address of the load segment is at a constant distance from its file offset.
\<close>
theorem assembled_image_layout:
  assumes "assemble_elf_internal lines = Inr elf" "build_plan lines = Inr mp" "padded_alike 20 (plan_parsed mp) Text"
  shows "\<exists>entry tramp user rodata.
      entry_label (plan_parsed mp) = Some entry
    \<and> start_trampoline lines (plan_parsed mp) (plan_layout mp) entry = Inr tramp \<and> length tramp = 20
    \<and> encode_section (plan_parsed mp) Text tramp (plan_layout mp) 20 = Inr (tramp @ user)
    \<and> encode_section (plan_parsed mp) Rodata [] (plan_layout mp) 0 = Inr rodata
    \<and> length user = m_text_size (plan_metrics mp) \<and> length rodata = m_rodata_size (plan_metrics mp)
    \<and> elf = image_of 0x10000 (align_up (20 + m_text_size (plan_metrics mp)) 8) (tramp @ user) rodata"
  using assembled_image [OF assms] plan_sizes(1) [OF assms(2)] plan_rodata_size [OF assms(2)] by metis

theorem assembled_image_layout_witness:
  "\<exists>tramp user rodata. length tramp = 20
     \<and> sample_image = image_of 0x10000 (align_up (20 + m_text_size (plan_metrics sample_plan)) 8) (tramp @ user) rodata"
  using assembled_image_layout [OF sample_assembled sample_build_plan sample_padded] by blast

end
