(* ===== verification/Elf_Parse.thy ===== *)
theory Elf_Parse
  imports Elf_Decode Rust_Str "HOL-Library.List_Lexorder"
begin

text \<open>
  The container half of the checker's \<^verbatim>\<open>elf.rs\<close>: \<^verbatim>\<open>parse_elf\<close> with its header,
  program-header, section-header and mapping checks, the summary of a parsed image and the lookup of
  the file bytes behind an address range. \<^verbatim>\<open>parse_elf\<close> is one long function in the source; it
  is cut here at its blank lines into the steps \<open>check_ident\<close>, \<open>read_header\<close>,
  \<open>read_segments\<close>, \<open>read_sections\<close>, \<open>check_sections\<close> and \<open>check_flows\<close>.
\<close>

unbundle bit_operations_syntax

section \<open>Data\<close>

abbreviation (input) ELF64_HEADER_SIZE :: nat where "ELF64_HEADER_SIZE \<equiv> 64"
abbreviation (input) ELF64_PROGRAM_HEADER_SIZE :: nat where "ELF64_PROGRAM_HEADER_SIZE \<equiv> 56"
abbreviation (input) ELF64_SECTION_HEADER_SIZE :: nat where "ELF64_SECTION_HEADER_SIZE \<equiv> 64"
abbreviation (input) EM_RISCV :: nat where "EM_RISCV \<equiv> 243"
abbreviation (input) ET_EXEC :: nat where "ET_EXEC \<equiv> 2"
abbreviation (input) PT_LOAD :: u32 where "PT_LOAD \<equiv> 1"
abbreviation (input) PF_X :: u32 where "PF_X \<equiv> 1"
abbreviation (input) PF_R :: u32 where "PF_R \<equiv> 4"
abbreviation (input) SHF_ALLOC :: nat where "SHF_ALLOC \<equiv> 0x2"
abbreviation (input) SHF_EXECINSTR :: nat where "SHF_EXECINSTR \<equiv> 0x4"
abbreviation (input) SHT_PROGBITS :: u32 where "SHT_PROGBITS \<equiv> 1"
abbreviation (input) SHT_STRTAB :: u32 where "SHT_STRTAB \<equiv> 3"
abbreviation (input) SHT_RELA :: u32 where "SHT_RELA \<equiv> 4"
abbreviation (input) SHT_DYNAMIC :: u32 where "SHT_DYNAMIC \<equiv> 6"
abbreviation (input) SHT_REL :: u32 where "SHT_REL \<equiv> 9"
abbreviation (input) SHT_DYNSYM :: u32 where "SHT_DYNSYM \<equiv> 11"

record elf_section =
  sec_name :: "byte list"
  sec_type :: u32
  sec_flags :: nat
  sec_address :: nat
  sec_offset :: nat
  sec_size :: nat

definition sec_range :: "elf_section \<Rightarrow> machine_range" where
  "sec_range s = \<lparr>rng_start = sec_address s,
                  rng_end = saturating_add_u64 (sec_address s) (sec_size s)\<rparr>"

record elf_segment =
  seg_flags :: u32
  seg_offset :: nat
  seg_virtual_address :: nat
  seg_file_size :: nat
  seg_memory_size :: nat

record parsed_elf =
  pe_entry :: nat
  pe_sections :: "elf_section list"
  pe_segments :: "elf_segment list"
  pe_text :: elf_section
  pe_rodata :: elf_section
  pe_instruction_count :: nat
  pe_instructions :: "decoded_instruction list"
  pe_stack_adjustments :: "stack_adjustment list"
  pe_syscall_addresses :: "nat list"
  pe_control_flow :: "decoded_control_flow list"

record elf_summary =
  sum_class :: string
  sum_endian :: string
  sum_machine :: string
  sum_entry :: nat
  sum_text_range :: machine_range
  sum_text_size_bytes :: nat
  sum_rodata_range :: machine_range
  sum_rodata_size_bytes :: nat
  sum_instruction_count :: nat
  sum_syscall_count :: nat
  sum_section_count :: nat
  sum_load_segment_count :: nat

definition summary :: "parsed_elf \<Rightarrow> elf_summary" where
  "summary e =
     \<lparr>sum_class = ''ELF64'', sum_endian = ''little'', sum_machine = ''RISC-V'',
      sum_entry = pe_entry e,
      sum_text_range = sec_range (pe_text e), sum_text_size_bytes = sec_size (pe_text e),
      sum_rodata_range = sec_range (pe_rodata e), sum_rodata_size_bytes = sec_size (pe_rodata e),
      sum_instruction_count = pe_instruction_count e,
      sum_syscall_count = length (pe_syscall_addresses e),
      sum_section_count = length (pe_sections e),
      sum_load_segment_count = length (pe_segments e)\<rparr>"

section \<open>File ranges and names\<close>

text \<open>A 64-bit target: every \<^verbatim>\<open>u64\<close> is a \<^verbatim>\<open>usize\<close>, sums are checked.\<close>

definition checked_file_range :: "byte list \<Rightarrow> nat \<Rightarrow> nat \<Rightarrow> byte list elf" where
  "checked_file_range bytes offset len =
     (case checked_add_u64 offset len of
        None \<Rightarrow> elf_fail InvalidTable
      | Some e \<Rightarrow> (case get_range bytes offset e of None \<Rightarrow> elf_fail Truncated | Some bs \<Rightarrow> Ok bs))"

definition checked_table :: "byte list \<Rightarrow> nat \<Rightarrow> nat \<Rightarrow> nat \<Rightarrow> byte list elf" where
  "checked_table bytes offset entry_size count =
     (case checked_mul_u64 entry_size count of
        None \<Rightarrow> elf_fail InvalidTable
      | Some len \<Rightarrow> checked_file_range bytes offset len)"

definition read_c_string :: "byte list \<Rightarrow> nat \<Rightarrow> byte list elf" where
  "read_c_string bytes offset =
     (if length bytes < offset then elf_fail InvalidSection
      else let rest = drop offset bytes
           in case find_char 0 rest of
                None \<Rightarrow> elf_fail InvalidSection
              | Some e \<Rightarrow> if utf8_valid (take e rest) then Ok (take e rest)
                           else elf_fail InvalidSection)"

definition segment_contains :: "elf_segment \<Rightarrow> nat \<Rightarrow> bool" where
  "segment_contains g address \<longleftrightarrow>
     seg_virtual_address g \<le> address
     \<and> address < saturating_add_u64 (seg_virtual_address g) (seg_memory_size g)"

definition segment_contains_range :: "elf_segment \<Rightarrow> nat \<Rightarrow> nat \<Rightarrow> bool" where
  "segment_contains_range g address len \<longleftrightarrow>
     seg_virtual_address g \<le> address
     \<and> saturating_add_u64 address len
       \<le> saturating_add_u64 (seg_virtual_address g) (seg_memory_size g)"

definition bytes_for_range :: "parsed_elf \<Rightarrow> byte list \<Rightarrow> machine_range \<Rightarrow> byte list elf" where
  "bytes_for_range e artifact r =
     (case List.find (\<lambda>s. sec_flags s AND SHF_ALLOC \<noteq> 0 \<and> range_contains_range (sec_range s) r)
             (pe_sections e) of
        None \<Rightarrow> elf_fail InvalidSection
      | Some s \<Rightarrow>
          (case checked_sub_u64 (rng_start r) (sec_address s) of
             None \<Rightarrow> elf_fail InvalidSection
           | Some relative \<Rightarrow>
               (case checked_add_u64 (sec_offset s) relative of
                  None \<Rightarrow> elf_fail InvalidSection
                | Some start \<Rightarrow>
                    (case checked_add_u64 start (range_len r) of
                       None \<Rightarrow> elf_fail InvalidSection
                     | Some e \<Rightarrow>
                         (case get_range artifact start e of
                            None \<Rightarrow> elf_fail Truncated
                          | Some bs \<Rightarrow> Ok bs)))))"

section \<open>The ELF header\<close>

text \<open>
  \<^verbatim>\<open>bytes[i]\<close>, \<^verbatim>\<open>bytes[a..b]\<close> and \<^verbatim>\<open>bytes.chunks_exact(n)\<close> panic on an index or a
  range outside the slice and on chunks of no bytes.
\<close>

definition index_byte :: "byte list \<Rightarrow> nat \<Rightarrow> byte elf" where
  "index_byte bytes i = (if i < length bytes then Ok (bytes ! i) else Inl ElfPanic)"

definition index_range :: "byte list \<Rightarrow> nat \<Rightarrow> nat \<Rightarrow> byte list elf" where
  "index_range bytes a b = ok_or ElfPanic (get_range bytes a b)"

definition table_entries :: "nat \<Rightarrow> byte list \<Rightarrow> byte list list elf" where
  "table_entries n bytes = (if n = 0 then Inl ElfPanic else Ok (chunks_exact n bytes))"

definition check_ident :: "byte list \<Rightarrow> unit elf" where
  "check_ident bytes =
     (if length bytes < ELF64_HEADER_SIZE then elf_fail Truncated
      else if get_range bytes 0 4 \<noteq> Some [0x7f, 0x45, 0x4c, 0x46] then elf_fail InvalidHeader
      else rbind (index_byte bytes 4) (\<lambda>class.
      if class \<noteq> 2 then elf_fail UnsupportedClass
      else rbind (index_byte bytes 5) (\<lambda>data.
      if data \<noteq> 1 then elf_fail UnsupportedEndian
      else rbind (index_byte bytes 6) (\<lambda>ident.
      if ident \<noteq> 1 then elf_fail InvalidHeader
      else rbind (index_range bytes 7 16) (\<lambda>padding.
      if \<exists>b\<in>set padding. b \<noteq> 0 then elf_fail InvalidHeader
      else rbind (read_u32 bytes 20) (\<lambda>version.
        if version \<noteq> 1 then elf_fail InvalidHeader
        else rbind (read_u32 bytes 48) (\<lambda>flags.
          if flags \<noteq> 0 then elf_fail InvalidHeader
          else rbind (read_u16 bytes 16) (\<lambda>ty.
            if ty \<noteq> ET_EXEC then elf_fail UnsupportedType
            else rbind (read_u16 bytes 18) (\<lambda>machine.
              if machine \<noteq> EM_RISCV then elf_fail UnsupportedMachine
              else rbind (read_u16 bytes 52) (\<lambda>hs.
                if hs \<noteq> ELF64_HEADER_SIZE then elf_fail InvalidHeader else Ok ()))))))))))"

record elf_header =
  eh_entry :: nat
  eh_program_offset :: nat
  eh_section_offset :: nat
  eh_program_entry_size :: nat
  eh_program_count :: nat
  eh_section_entry_size :: nat
  eh_section_count :: nat
  eh_shstr_index :: nat

definition read_header :: "byte list \<Rightarrow> elf_header elf" where
  "read_header bytes =
     rbind (read_u64 bytes 24) (\<lambda>entry.
     rbind (read_u64 bytes 32) (\<lambda>program_offset.
     rbind (read_u64 bytes 40) (\<lambda>section_offset.
     rbind (read_u16 bytes 54) (\<lambda>program_entry_size.
     rbind (read_u16 bytes 56) (\<lambda>program_count.
     rbind (read_u16 bytes 58) (\<lambda>section_entry_size.
     rbind (read_u16 bytes 60) (\<lambda>section_count.
     rbind (read_u16 bytes 62) (\<lambda>shstr_index.
       if program_count = 0 \<or> program_entry_size \<noteq> ELF64_PROGRAM_HEADER_SIZE
       then elf_fail InvalidTable
       else if section_count < 4 \<or> section_entry_size \<noteq> ELF64_SECTION_HEADER_SIZE
         \<or> shstr_index \<ge> section_count
       then elf_fail InvalidTable
       else Ok \<lparr>eh_entry = entry, eh_program_offset = program_offset,
                eh_section_offset = section_offset, eh_program_entry_size = program_entry_size,
                eh_program_count = program_count, eh_section_entry_size = section_entry_size,
                eh_section_count = section_count, eh_shstr_index = shstr_index\<rparr>))))))))"

section \<open>Program headers\<close>

definition read_segment :: "byte list \<Rightarrow> byte list \<Rightarrow> elf_segment elf" where
  "read_segment bytes header =
     rbind (read_u32 header 0) (\<lambda>ty.
     if ty \<noteq> PT_LOAD then elf_fail ProhibitedLinkState
     else rbind (read_u32 header 4) (\<lambda>flags.
     rbind (read_u64 header 8) (\<lambda>offset.
     rbind (read_u64 header 16) (\<lambda>virtual_address.
     rbind (read_u64 header 32) (\<lambda>file_size.
     rbind (read_u64 header 40) (\<lambda>memory_size.
     rbind (checked_file_range bytes offset file_size) (\<lambda>_.
       if memory_size < file_size then elf_fail InvalidTable
       else if checked_add_u64 virtual_address memory_size = None then elf_fail InvalidTable
       else if flags \<noteq> PF_R OR PF_X then elf_fail ProhibitedLinkState
       else Ok \<lparr>seg_flags = flags, seg_offset = offset, seg_virtual_address = virtual_address,
                seg_file_size = file_size, seg_memory_size = memory_size\<rparr>)))))))"

fun read_segment_list :: "byte list \<Rightarrow> byte list list \<Rightarrow> elf_segment list elf" where
  "read_segment_list bytes [] = Ok []"
| "read_segment_list bytes (h # hs) =
     rbind (read_segment bytes h) (\<lambda>g.
     rbind (read_segment_list bytes hs) (\<lambda>gs. Ok (g # gs)))"

definition read_segments :: "byte list \<Rightarrow> elf_header \<Rightarrow> elf_segment list elf" where
  "read_segments bytes h =
     rbind (checked_table bytes (eh_program_offset h) (eh_program_entry_size h) (eh_program_count h))
       (\<lambda>program_table.
     rbind (table_entries (eh_program_entry_size h) program_table) (\<lambda>headers.
     rbind (read_segment_list bytes headers) (\<lambda>segments.
       if length segments \<noteq> 1 then elf_fail InvalidTable
       else if segments = []
         \<or> \<not> (\<exists>g\<in>set segments. seg_flags g AND PF_X \<noteq> 0 \<and> segment_contains g (eh_entry h))
       then elf_fail InvalidTable
       else Ok segments)))"

section \<open>Section headers\<close>

definition admitted_names :: "byte list list" where
  "admitted_names = map (\<lambda>s. str_bytes s @ [0]) [''.text'', ''.rodata'', ''.shstrtab'']"

definition prohibited_names :: "byte list list" where
  "prohibited_names =
     map str_bytes [''.dynamic'', ''.dynsym'', ''.dynstr'', ''.interp'', ''.plt'', ''.got'', ''.got.plt'']"

text \<open>\<^verbatim>\<open>strings.get(name_offset..).is_some_and(|rest| rest.starts_with(prefix))\<close>\<close>

definition peek_name :: "byte list \<Rightarrow> nat \<Rightarrow> byte list \<Rightarrow> bool" where
  "peek_name strings name_offset p \<longleftrightarrow>
     name_offset \<le> length strings \<and> starts_with (drop name_offset strings) p"

definition read_section :: "byte list \<Rightarrow> byte list \<Rightarrow> byte list \<Rightarrow> elf_section elf" where
  "read_section bytes strings header =
     rbind (read_u32 header 0) (\<lambda>name_word.
     let name_offset = unat name_word in
     if \<not> (\<exists>p\<in>set admitted_names. peek_name strings name_offset p) then elf_fail InvalidSection
     else rbind (read_c_string strings name_offset) (\<lambda>name.
     rbind (read_u32 header 4) (\<lambda>section_type.
     rbind (read_u64 header 8) (\<lambda>flags.
     rbind (read_u64 header 16) (\<lambda>address.
     rbind (read_u64 header 24) (\<lambda>offset.
     rbind (read_u64 header 32) (\<lambda>len.
       if checked_add_u64 address len = None then elf_fail InvalidSection
       else rbind (checked_file_range bytes offset len) (\<lambda>_.
         if section_type \<in> {SHT_RELA, SHT_DYNAMIC, SHT_REL, SHT_DYNSYM}
           \<or> name \<in> set prohibited_names
         then elf_fail ProhibitedLinkState
         else Ok \<lparr>sec_name = name, sec_type = section_type, sec_flags = flags,
                  sec_address = address, sec_offset = offset, sec_size = len\<rparr>))))))))"

fun read_section_list :: "byte list \<Rightarrow> byte list \<Rightarrow> byte list list \<Rightarrow> elf_section list elf" where
  "read_section_list bytes strings [] = Ok []"
| "read_section_list bytes strings (h # hs) =
     rbind (read_section bytes strings h) (\<lambda>s.
     rbind (read_section_list bytes strings hs) (\<lambda>ss. Ok (s # ss)))"

text \<open>The loop over all headers: the first one must be the null header.\<close>

definition read_section_table :: "byte list \<Rightarrow> byte list \<Rightarrow> byte list list \<Rightarrow> elf_section list elf" where
  "read_section_table bytes strings headers =
     (case headers of
        [] \<Rightarrow> Ok []
      | null # rest \<Rightarrow>
          if \<exists>b\<in>set null. b \<noteq> 0 then elf_fail InvalidSection
          else read_section_list bytes strings rest)"

definition windows2_eq :: "elf_section list \<Rightarrow> bool" where
  "windows2_eq ss \<longleftrightarrow> (\<exists>(a, b)\<in>set (zip ss (tl ss)). sec_name a = sec_name b)"

definition read_sections :: "byte list \<Rightarrow> elf_header \<Rightarrow> elf_section list elf" where
  "read_sections bytes h =
     rbind (checked_table bytes (eh_section_offset h) (eh_section_entry_size h) (eh_section_count h))
       (\<lambda>section_table.
     rbind (ok_or (ElfErr InvalidTable)
              (get_range section_table (eh_shstr_index h * eh_section_entry_size h)
                 ((eh_shstr_index h + 1) * eh_section_entry_size h))) (\<lambda>string_header.
     rbind (read_u32 string_header 4) (\<lambda>ty.
     if ty \<noteq> SHT_STRTAB then elf_fail InvalidSection
     else rbind (read_u64 string_header 8) (\<lambda>flags.
     if flags \<noteq> 0 then elf_fail InvalidSection
     else rbind (read_u64 string_header 16) (\<lambda>address.
     if address \<noteq> 0 then elf_fail InvalidSection
     else rbind (read_u64 string_header 24) (\<lambda>string_offset.
     rbind (read_u64 string_header 32) (\<lambda>string_size.
     rbind (checked_file_range bytes string_offset string_size) (\<lambda>strings.
     rbind (table_entries (eh_section_entry_size h) section_table) (\<lambda>headers.
     rbind (read_section_table bytes strings headers) (\<lambda>sections.
       let sections = sort_key sec_name sections in
       if windows2_eq sections then elf_fail InvalidSection
       else if length sections \<noteq> 3
         \<or> map sec_name sections \<noteq> map str_bytes [''.rodata'', ''.shstrtab'', ''.text'']
       then elf_fail InvalidSection
       else Ok sections))))))))))"

section \<open>Mapping checks\<close>

definition mapped_section :: "elf_segment \<Rightarrow> elf_section \<Rightarrow> bool" where
  "mapped_section g s =
     (let relative = checked_sub_u64 (sec_address s) (seg_virtual_address g)
      in segment_contains_range g (sec_address s) (sec_size s)
         \<and> (case Option.bind relative (\<lambda>v. checked_add_u64 v (sec_size s)) of
              None \<Rightarrow> False | Some e \<Rightarrow> e \<le> seg_file_size g)
         \<and> Option.bind relative (checked_add_u64 (seg_offset g)) = Some (sec_offset s))"

definition check_sections ::
  "nat \<Rightarrow> elf_segment list \<Rightarrow> elf_section list \<Rightarrow> (elf_section \<times> elf_section) elf" where
  "check_sections entry segments sections =
     rbind (ok_or (ElfErr MissingText)
              (List.find (\<lambda>s. sec_name s = str_bytes ''.text'') sections)) (\<lambda>tsec.
     rbind (ok_or (ElfErr InvalidSection)
              (List.find (\<lambda>s. sec_name s = str_bytes ''.rodata'') sections)) (\<lambda>rodata.
       if sec_type tsec \<noteq> SHT_PROGBITS \<or> sec_flags tsec \<noteq> (SHF_ALLOC OR SHF_EXECINSTR)
         \<or> sec_size tsec = 0 \<or> sec_size tsec mod 4 \<noteq> 0 \<or> sec_address tsec mod 4 \<noteq> 0 \<or> entry mod 4 \<noteq> 0
       then elf_fail InvalidSection
       else if sec_type rodata \<noteq> SHT_PROGBITS \<or> sec_flags rodata \<noteq> SHF_ALLOC
       then elf_fail InvalidSection
       else if \<not> range_contains (sec_range tsec) entry then elf_fail InvalidSection
       else case segments of
              [] \<Rightarrow> Inl ElfPanic
            | g # _ \<Rightarrow>
                if \<not> mapped_section g tsec \<or> \<not> mapped_section g rodata then elf_fail InvalidSection
                else if sec_size rodata \<noteq> 0
                  \<and> rng_start (sec_range tsec) < rng_end (sec_range rodata)
                  \<and> rng_start (sec_range rodata) < rng_end (sec_range tsec)
                then elf_fail InvalidSection
                else Ok (tsec, rodata)))"

text \<open>The final loop: no control transfer enters the second word of a call.\<close>

fun check_flows :: "decoded_instruction list \<Rightarrow> nat \<Rightarrow> decoded_control_flow list \<Rightarrow> unit elf" where
  "check_flows instructions text_address [] = Ok ()"
| "check_flows instructions text_address (f # fs) =
     (if flow_target f < text_address then Inl ElfPanic
      else let i = (flow_target f - text_address) div 4
           in if length instructions \<le> i then Inl ElfPanic
              else let w = inst_word (instructions ! i)
                   in if w AND 0x7f = 0x67 \<and> w \<noteq> 0x00008067 then elf_fail InvalidBranchTarget
                      else check_flows instructions text_address fs)"

definition decode_text :: "byte list \<Rightarrow> nat \<Rightarrow> elf_section \<Rightarrow> decoded_text elf" where
  "decode_text bytes max_instructions tsec =
     (if sec_size tsec div 4 > max_instructions then elf_fail BudgetExceeded
      else rbind (checked_file_range bytes (sec_offset tsec) (sec_size tsec)) (\<lambda>text_bytes.
        rbind (validate_instructions text_bytes (sec_address tsec) (sec_range tsec)) (\<lambda>decoded.
        rbind (check_flows (dt_instructions decoded) (sec_address tsec) (dt_control_flow decoded))
          (\<lambda>_. Ok decoded))))"

definition parse_elf :: "byte list \<Rightarrow> nat \<Rightarrow> parsed_elf elf" where
  "parse_elf bytes max_instructions =
     rbind (check_ident bytes) (\<lambda>_.
     rbind (read_header bytes) (\<lambda>h.
     rbind (read_segments bytes h) (\<lambda>segments.
     rbind (read_sections bytes h) (\<lambda>sections.
     rbind (check_sections (eh_entry h) segments sections) (\<lambda>(tsec, rodata).
     rbind (decode_text bytes max_instructions tsec) (\<lambda>decoded.
       Ok \<lparr>pe_entry = eh_entry h, pe_sections = sections, pe_segments = segments,
           pe_text = tsec, pe_rodata = rodata, pe_instruction_count = sec_size tsec div 4,
           pe_instructions = dt_instructions decoded,
           pe_stack_adjustments = dt_stack_adjustments decoded,
           pe_syscall_addresses = dt_syscall_addresses decoded,
           pe_control_flow = dt_control_flow decoded\<rparr>))))))"

text \<open>
  A small image: the start code calls a function that moves the stack pointer, branches and returns,
  and then makes the exit system call.
\<close>

definition sample_elf :: "byte list" where
  "sample_elf =
     [127, 69, 76, 70, 2, 1, 1, 0, 0, 0, 0, 0, 0, 0, 0, 0, 2, 0, 243, 0, 1, 0, 0, 0, 0, 0, 1, 0,
     0, 0, 0, 0, 64, 0, 0, 0, 0, 0, 0, 0, 208, 0, 0, 0, 0, 0, 0, 0, 0, 0, 0, 0, 64, 0, 56, 0, 1,
     0, 64, 0, 4, 0, 3, 0, 1, 0, 0, 0, 5, 0, 0, 0, 0, 0, 0, 0, 0, 0, 0, 0, 128, 255, 0, 0, 0, 0,
     0, 0, 128, 255, 0, 0, 0, 0, 0, 0, 170, 0, 0, 0, 0, 0, 0, 0, 170, 0, 0, 0, 0, 0, 0, 0, 128,
     0, 0, 0, 0, 0, 0, 0, 0, 0, 0, 0, 0, 0, 0, 0, 151, 0, 0, 0, 231, 128, 0, 1, 147, 8, 208, 5,
     115, 0, 0, 0, 19, 1, 1, 255, 99, 4, 5, 0, 111, 240, 95, 255, 19, 1, 1, 1, 103, 128, 0, 0, 0,
     0, 0, 0, 104, 105, 0, 0, 0, 0, 0, 0, 0, 46, 116, 101, 120, 116, 0, 46, 114, 111, 100, 97,
     116, 97, 0, 46, 115, 104, 115, 116, 114, 116, 97, 98, 0, 0, 0, 0, 0, 0, 0, 0, 0, 0, 0, 0, 0,
     0, 0, 0, 0, 0, 0, 0, 0, 0, 0, 0, 0, 0, 0, 0, 0, 0, 0, 0, 0, 0, 0, 0, 0, 0, 0, 0, 0, 0, 0, 0,
     0, 0, 0, 0, 0, 0, 0, 0, 0, 0, 0, 0, 0, 0, 0, 0, 0, 0, 0, 0, 0, 0, 0, 0, 0, 0, 0, 0, 1, 0, 0,
     0, 1, 0, 0, 0, 6, 0, 0, 0, 0, 0, 0, 0, 0, 0, 1, 0, 0, 0, 0, 0, 128, 0, 0, 0, 0, 0, 0, 0, 36,
     0, 0, 0, 0, 0, 0, 0, 0, 0, 0, 0, 0, 0, 0, 0, 4, 0, 0, 0, 0, 0, 0, 0, 0, 0, 0, 0, 0, 0, 0, 0,
     7, 0, 0, 0, 1, 0, 0, 0, 2, 0, 0, 0, 0, 0, 0, 0, 40, 0, 1, 0, 0, 0, 0, 0, 168, 0, 0, 0, 0, 0,
     0, 0, 2, 0, 0, 0, 0, 0, 0, 0, 0, 0, 0, 0, 0, 0, 0, 0, 8, 0, 0, 0, 0, 0, 0, 0, 0, 0, 0, 0, 0,
     0, 0, 0, 15, 0, 0, 0, 3, 0, 0, 0, 0, 0, 0, 0, 0, 0, 0, 0, 0, 0, 0, 0, 0, 0, 0, 0, 176, 0, 0,
     0, 0, 0, 0, 0, 25, 0, 0, 0, 0, 0, 0, 0, 0, 0, 0, 0, 0, 0, 0, 0, 1, 0, 0, 0, 0, 0, 0, 0, 0,
     0, 0, 0, 0, 0, 0, 0]"

section \<open>Absence of panics\<close>

lemma no_panic_rbind:
  "r \<noteq> Inl ElfPanic \<Longrightarrow> (\<And>x. r = Inr x \<Longrightarrow> f x \<noteq> Inl ElfPanic) \<Longrightarrow> rbind r f \<noteq> Inl ElfPanic"
  by (cases r) auto

lemma reads_no_panic [simp]:
  "read_u16 bs i \<noteq> Inl ElfPanic" "read_u32 bs i \<noteq> Inl ElfPanic" "read_u64 bs i \<noteq> Inl ElfPanic"
  "instruction_word bs i \<noteq> Inl ElfPanic" "checked_file_range bs a n \<noteq> Inl ElfPanic"
  "checked_table bs a k n \<noteq> Inl ElfPanic" "read_c_string bs a \<noteq> Inl ElfPanic"
  "ok_or (ElfErr e) v \<noteq> Inl ElfPanic"
  by (auto simp: read_u16_def read_u32_def read_u64_def instruction_word_def checked_file_range_def
      checked_table_def read_c_string_def ok_or_def Let_def split: option.splits)

lemmas no_panic_intros = no_panic_rbind reads_no_panic

lemma check_ident_no_panic: "check_ident bs \<noteq> Inl ElfPanic"
proof (cases "length bs < ELF64_HEADER_SIZE")
  case False
  then have "index_byte bs 4 = Inr (bs ! 4)" "index_byte bs 5 = Inr (bs ! 5)"
    "index_byte bs 6 = Inr (bs ! 6)" "index_range bs 7 16 = Inr (take 9 (drop 7 bs))"
    by (simp_all add: index_byte_def index_range_def get_range_def ok_or_def)
  with False show ?thesis unfolding check_ident_def by (simp add: no_panic_intros)
qed (simp add: check_ident_def)

lemma read_header_no_panic: "read_header bs \<noteq> Inl ElfPanic"
  unfolding read_header_def by (intro no_panic_intros) simp

text \<open>The entry sizes are compared with the sizes of the two header formats, so they are not zero.\<close>

lemma read_header_entry_sizes:
  assumes "read_header bs = Inr h"
  shows "eh_program_entry_size h \<noteq> 0" "eh_section_entry_size h \<noteq> 0"
  using assms
  by (auto simp: read_header_def split: if_splits)

lemma read_segments_no_panic:
  assumes "eh_program_entry_size h \<noteq> 0"
  shows "read_segments bs h \<noteq> Inl ElfPanic"
proof -
  have 1: "read_segment bs x \<noteq> Inl ElfPanic" for x
    unfolding read_segment_def by (simp add: no_panic_intros)
  have "read_segment_list bs hs \<noteq> Inl ElfPanic" for hs
    by (induction hs) (simp_all add: no_panic_rbind 1)
  then show ?thesis
    using assms unfolding read_segments_def table_entries_def by (simp add: no_panic_intros)
qed

lemma read_sections_no_panic:
  assumes "eh_section_entry_size h \<noteq> 0"
  shows "read_sections bs h \<noteq> Inl ElfPanic"
proof -
  have 1: "read_section bs s x \<noteq> Inl ElfPanic" for s x
    unfolding read_section_def Let_def by (simp add: no_panic_intros)
  have "read_section_list bs s hs \<noteq> Inl ElfPanic" for s hs
    by (induction hs) (simp_all add: no_panic_rbind 1)
  then have "read_section_table bs s hs \<noteq> Inl ElfPanic" for s hs
    by (simp add: read_section_table_def split: list.splits)
  then show ?thesis
    using assms unfolding read_sections_def table_entries_def Let_def by (simp add: no_panic_intros)
qed

lemma scan_instruction_no_panic:
  "base + i * 4 < 2 ^ 64 \<Longrightarrow> scan_instruction bs base r i w s \<noteq> Inl ElfPanic"
proof -
  have 1: "validate_stack_pointer_write bs i w a adjs \<noteq> Inl ElfPanic" for a adjs
    unfolding validate_stack_pointer_write_def Let_def by (simp add: no_panic_intros)
  have 2: "scan_target bs i w (base + i * 4) \<noteq> Inl ElfPanic"
    unfolding scan_target_def decode_call_target_def Let_def
    by (cases i) (simp_all add: no_panic_intros)
  show "base + i * 4 < 2 ^ 64 \<Longrightarrow> ?thesis"
    unfolding scan_instruction_def Let_def
    by (simp add: no_panic_rbind 1 2 split: option.splits prod.splits)
qed

lemma scan_chunks_no_panic:
  "base + (i + length cs) * 4 \<le> 2 ^ 64 \<Longrightarrow> scan_chunks bs base r i cs s \<noteq> Inl ElfPanic"
proof (induction cs arbitrary: i s)
  case (Cons c cs)
  then have "base + i * 4 < 2 ^ 64" "base + (Suc i + length cs) * 4 \<le> 2 ^ 64" by simp_all
  with Cons.IH show ?case
    unfolding scan_chunks.simps by (intro no_panic_rbind scan_instruction_no_panic) blast+
qed simp

lemma validate_instructions_no_panic:
  assumes "base + length bs \<le> 2 ^ 64"
  shows "validate_instructions bs base r \<noteq> Inl ElfPanic"
proof -
  have "base + length bs div 4 * 4 \<le> 2 ^ 64"
    using assms by (meson add_left_mono div_times_less_eq_dividend order_trans)
  then have "base + (0 + length (chunks_exact 4 bs)) * 4 \<le> 2 ^ 64"
    by (simp only: length_chunks_exact zero_less_numeral add_0)
  then show ?thesis
    unfolding validate_instructions_def by (intro no_panic_rbind scan_chunks_no_panic) simp_all
qed

section \<open>The shape of an accepted image\<close>

lemma read_u16_Ok: "read_u16 bs i = Inr v \<Longrightarrow> i + 2 \<le> length bs \<and> v < 2 ^ 16"
  using le_to_nat_bound [of "take 2 (drop i bs)"]
  by (auto simp: read_u16_def get_range_def split: if_splits)

lemma read_u64_Ok: "read_u64 bs i = Inr v \<Longrightarrow> i + 8 \<le> length bs \<and> v < 2 ^ 64"
  using le_to_nat_bound [of "take 8 (drop i bs)"]
  by (auto simp: read_u64_def get_range_def split: if_splits)

lemma checked_file_range_Ok:
  "checked_file_range bs off n = Inr xs \<longleftrightarrow>
     off + n < 2 ^ 64 \<and> off + n \<le> length bs \<and> xs = take n (drop off bs)"
  by (auto simp: checked_file_range_def checked_add_u64_def get_range_def
      split: option.splits if_splits)

lemma read_segment_Ok:
  assumes "read_segment bs hdr = Inr g"
  shows "seg_flags g = PF_R OR PF_X" "seg_offset g + seg_file_size g \<le> length bs"
    "seg_file_size g \<le> seg_memory_size g" "seg_virtual_address g + seg_memory_size g < 2 ^ 64"
  using assms
  by (auto simp: read_segment_def checked_file_range_Ok checked_add_u64_def split: if_splits)

lemma read_segments_Ok:
  assumes "read_segments bs h = Inr gs"
  obtains g hdr where "gs = [g]" "read_segment bs hdr = Inr g" "segment_contains g (eh_entry h)"
proof -
  from assms obtain hs where hs: "read_segment_list bs hs = Inr gs" "length gs = 1"
    and ex: "\<exists>g\<in>set gs. segment_contains g (eh_entry h)"
    unfolding read_segments_def by (fastforce split: if_splits)
  from hs obtain g where g: "gs = [g]" by (cases gs) auto
  with hs obtain hdr where "read_segment bs hdr = Inr g" by (cases hs) auto
  with g ex show thesis by (intro that) auto
qed

lemma read_section_Ok:
  assumes "read_section bs strings hdr = Inr s"
  shows "sec_address s + sec_size s < 2 ^ 64" "sec_offset s + sec_size s \<le> length bs"
    "sec_offset s + sec_size s < 2 ^ 64"
  using assms
  by (auto simp: read_section_def checked_file_range_Ok checked_add_u64_def Let_def split: if_splits)

lemma read_section_list_Ok:
  "read_section_list bs strings hs = Inr ss \<Longrightarrow> s \<in> set ss \<Longrightarrow>
   \<exists>hdr\<in>set hs. read_section bs strings hdr = Inr s"
  by (induction hs arbitrary: ss) auto

lemma read_sections_Ok:
  assumes "read_sections bs h = Inr ss"
  shows "map sec_name ss = map str_bytes [''.rodata'', ''.shstrtab'', ''.text'']"
    "s \<in> set ss \<Longrightarrow> sec_address s + sec_size s < 2 ^ 64 \<and> sec_offset s + sec_size s \<le> length bs
       \<and> sec_offset s + sec_size s < 2 ^ 64"
proof -
  from assms obtain strings hs us where us: "read_section_table bs strings hs = Inr us"
    and ss: "ss = sort_key sec_name us"
    and names: "map sec_name ss = map str_bytes [''.rodata'', ''.shstrtab'', ''.text'']"
    by (auto simp: read_sections_def Let_def split: if_splits)
  show "map sec_name ss = map str_bytes [''.rodata'', ''.shstrtab'', ''.text'']" by (rule names)
  assume "s \<in> set ss"
  then have "s \<in> set us" by (simp add: ss)
  with us obtain hdr where "read_section bs strings hdr = Inr s"
    by (auto simp: read_section_table_def dest: read_section_list_Ok split: list.splits if_splits)
  then show "sec_address s + sec_size s < 2 ^ 64 \<and> sec_offset s + sec_size s \<le> length bs
      \<and> sec_offset s + sec_size s < 2 ^ 64"
    by (simp only: read_section_Ok simp_thms)
qed

lemma check_sections_Ok:
  assumes "check_sections entry [g] ss = Inr (tsec, rodata)"
  shows "tsec \<in> set ss" "rodata \<in> set ss" "sec_name tsec = str_bytes ''.text''"
    "sec_name rodata = str_bytes ''.rodata''" "0 < sec_size tsec" "sec_size tsec mod 4 = 0"
    "sec_address tsec mod 4 = 0" "entry mod 4 = 0" "range_contains (sec_range tsec) entry"
    "sec_flags tsec = SHF_ALLOC OR SHF_EXECINSTR" "sec_flags rodata = SHF_ALLOC"
    "mapped_section g tsec" "mapped_section g rodata"
    "sec_size rodata = 0 \<or> rng_end (sec_range rodata) \<le> sec_address tsec
       \<or> rng_end (sec_range tsec) \<le> sec_address rodata"
  using assms
  by (auto simp: check_sections_def find_Some_iff sec_range_def not_less split: if_splits)

text \<open>A mapped section lies in the file-backed part of its segment, at the mapped file offset.\<close>

lemma mapped_section_iff:
  assumes "seg_virtual_address g + seg_memory_size g < 2 ^ 64" "sec_address s + sec_size s < 2 ^ 64"
    "sec_offset s + sec_size s < 2 ^ 64"
  shows "mapped_section g s \<longleftrightarrow>
    seg_virtual_address g \<le> sec_address s \<and>
    sec_address s + sec_size s \<le> seg_virtual_address g + seg_memory_size g \<and>
    sec_address s - seg_virtual_address g + sec_size s \<le> seg_file_size g \<and>
    sec_offset s = seg_offset g + (sec_address s - seg_virtual_address g)"
  using assms
  by (auto simp: mapped_section_def segment_contains_range_def saturating_add_u64_def Let_def
      checked_sub_u64_def checked_add_u64_def split: if_splits option.splits)

lemma check_flows_Ok:
  "check_flows insts a fs = Inr () \<Longrightarrow> f \<in> set fs \<Longrightarrow>
   a \<le> flow_target f \<and> (flow_target f - a) div 4 < length insts \<and>
   (let w = inst_word (insts ! ((flow_target f - a) div 4)) in w AND 0x7f = 0x67 \<longrightarrow> w = 0x00008067)"
  by (induction fs) (auto simp: Let_def split: if_splits)

lemma check_flows_no_panic:
  "\<forall>f\<in>set fs. a \<le> flow_target f \<and> (flow_target f - a) div 4 < length insts \<Longrightarrow>
   check_flows insts a fs \<noteq> Inl ElfPanic"
  by (induction fs) (auto simp: Let_def)

text \<open>The text bytes of an image and what decoding them gives.\<close>

abbreviation sec_bytes :: "byte list \<Rightarrow> elf_section \<Rightarrow> byte list" where
  "sec_bytes bytes s \<equiv> take (sec_size s) (drop (sec_offset s) bytes)"

lemma decode_text_Ok:
  assumes "decode_text bytes n tsec = Inr dt" "sec_size tsec mod 4 = 0"
    "sec_address tsec + sec_size tsec < 2 ^ 64"
  obtains s where "sec_size tsec div 4 \<le> n" "length (sec_bytes bytes tsec) = sec_size tsec"
    "scanned (sec_bytes bytes tsec) (sec_address tsec) (sec_range tsec) (sec_size tsec div 4) s"
    "scan_text s = dt"
    "check_flows (dt_instructions dt) (sec_address tsec) (dt_control_flow dt) = Inr ()"
proof -
  from assms(1) have n: "sec_size tsec div 4 \<le> n"
    and r: "sec_offset tsec + sec_size tsec \<le> length bytes"
    and v: "validate_instructions (sec_bytes bytes tsec) (sec_address tsec) (sec_range tsec) = Inr dt"
    and f: "check_flows (dt_instructions dt) (sec_address tsec) (dt_control_flow dt) = Inr ()"
    by (auto simp: decode_text_def checked_file_range_Ok split: if_splits)
  from v obtain s where s: "scanned (sec_bytes bytes tsec) (sec_address tsec) (sec_range tsec)
      (length (text_words (sec_bytes bytes tsec))) s" "scan_text s = dt"
    by (rule validate_instructions_scanned)
  from r have len: "length (sec_bytes bytes tsec) = sec_size tsec" by simp
  show thesis using n len s f by (intro that [of s]) (simp_all add: length_text_words)
qed

lemma decode_text_no_panic:
  assumes "sec_size tsec mod 4 = 0" "sec_address tsec + sec_size tsec < 2 ^ 64"
    "sec_offset tsec + sec_size tsec \<le> length bytes"
  shows "decode_text bytes n tsec \<noteq> Inl ElfPanic"
proof -
  let ?bs = "sec_bytes bytes tsec"
  have len: "length ?bs = sec_size tsec" using assms(3) by simp
  have v: "validate_instructions ?bs (sec_address tsec) (sec_range tsec) \<noteq> Inl ElfPanic"
    using assms(2) len by (intro validate_instructions_no_panic) simp
  have "check_flows (dt_instructions dt) (sec_address tsec) (dt_control_flow dt) \<noteq> Inl ElfPanic"
    if dt: "validate_instructions ?bs (sec_address tsec) (sec_range tsec) = Inr dt" for dt
  proof (rule check_flows_no_panic, rule ballI)
    fix f
    assume f: "f \<in> set (dt_control_flow dt)"
    from dt obtain s where "scanned ?bs (sec_address tsec) (sec_range tsec) (length (text_words ?bs)) s"
      "scan_text s = dt" by (rule validate_instructions_scanned)
    then have "range_contains (sec_range tsec) (flow_target f)"
      and li: "length (dt_instructions dt) = sec_size tsec div 4"
      using f len by (auto simp: scanned_def length_text_words)
    then have "sec_address tsec \<le> flow_target f" "flow_target f - sec_address tsec < sec_size tsec"
      using assms(2) by (auto simp: range_contains_def sec_range_def saturating_add_u64_def)
    moreover have "sec_size tsec = 4 * (sec_size tsec div 4)" using assms(1) by presburger
    ultimately show "sec_address tsec \<le> flow_target f
        \<and> (flow_target f - sec_address tsec) div 4 < length (dt_instructions dt)"
      unfolding li by (simp add: div_less_iff_less_mult)
  qed
  with v show ?thesis
    by (auto simp: decode_text_def rbind_Err_iff checked_file_range_Ok split: if_splits)
qed

lemma parse_elf_no_panic: "parse_elf bytes n \<noteq> Inl ElfPanic"
proof
  assume "parse_elf bytes n = Inl ElfPanic"
  then obtain h gs ss where gs: "read_segments bytes h = Inr gs" and ss: "read_sections bytes h = Inr ss"
    and p: "check_sections (eh_entry h) gs ss = Inl ElfPanic \<or>
      (\<exists>tsec rodata. check_sections (eh_entry h) gs ss = Inr (tsec, rodata)
         \<and> decode_text bytes n tsec = Inl ElfPanic)"
    by (auto simp: parse_elf_def rbind_Err_iff check_ident_no_panic read_header_no_panic
        read_segments_no_panic read_sections_no_panic read_header_entry_sizes split: prod.splits)
  obtain g hdr where g: "gs = [g]" by (rule read_segments_Ok [OF gs])
  have "check_sections (eh_entry h) gs ss \<noteq> Inl ElfPanic"
    by (auto simp: check_sections_def g rbind_Err_iff)
  with p obtain tsec rodata where c: "check_sections (eh_entry h) [g] ss = Inr (tsec, rodata)"
    and bad: "decode_text bytes n tsec = Inl ElfPanic" by (auto simp: g)
  have "decode_text bytes n tsec \<noteq> Inl ElfPanic"
    using read_sections_Ok(2) [OF ss check_sections_Ok(1) [OF c]] check_sections_Ok(6) [OF c]
    by (intro decode_text_no_panic) simp_all
  with bad show False by simp
qed

text \<open>What every accepted image satisfies.\<close>

lemma parse_elf_Ok:
  assumes "parse_elf bytes n = Inr e"
  obtains g hdr dt where
    "pe_segments e = [g]" "read_segment bytes hdr = Inr g" "segment_contains g (pe_entry e)"
    "map sec_name (pe_sections e) = map str_bytes [''.rodata'', ''.shstrtab'', ''.text'']"
    "\<And>s. s \<in> set (pe_sections e) \<Longrightarrow> sec_address s + sec_size s < 2 ^ 64
       \<and> sec_offset s + sec_size s \<le> length bytes \<and> sec_offset s + sec_size s < 2 ^ 64"
    "check_sections (pe_entry e) [g] (pe_sections e) = Inr (pe_text e, pe_rodata e)"
    "decode_text bytes n (pe_text e) = Inr dt"
    "pe_instruction_count e = sec_size (pe_text e) div 4"
    "pe_instructions e = dt_instructions dt" "pe_stack_adjustments e = dt_stack_adjustments dt"
    "pe_syscall_addresses e = dt_syscall_addresses dt" "pe_control_flow e = dt_control_flow dt"
proof -
  from assms obtain h gs dt where h: "read_segments bytes h = Inr gs"
    "read_sections bytes h = Inr (pe_sections e)"
    "check_sections (pe_entry e) gs (pe_sections e) = Inr (pe_text e, pe_rodata e)"
    "decode_text bytes n (pe_text e) = Inr dt" "pe_entry e = eh_entry h" "pe_segments e = gs"
    "pe_instruction_count e = sec_size (pe_text e) div 4"
    "pe_instructions e = dt_instructions dt" "pe_stack_adjustments e = dt_stack_adjustments dt"
    "pe_syscall_addresses e = dt_syscall_addresses dt" "pe_control_flow e = dt_control_flow dt"
    unfolding parse_elf_def by (auto split: prod.splits)
  from h(1) obtain g hdr where
    "gs = [g]" "read_segment bytes hdr = Inr g" "segment_contains g (eh_entry h)"
    by (rule read_segments_Ok)
  then show thesis
    using h read_sections_Ok [OF h(2)] by (intro that [of g hdr dt]) simp_all
qed
declare
  sec_range_def [eval_simps] checked_file_range_def [eval_simps] checked_table_def [eval_simps]
  read_c_string_def [eval_simps] segment_contains_def [eval_simps]
  segment_contains_range_def [eval_simps] bytes_for_range_def [eval_simps] check_ident_def [eval_simps]
  index_byte_def [eval_simps] index_range_def [eval_simps] table_entries_def [eval_simps]
  read_header_def [eval_simps] read_segment_def [eval_simps] read_segments_def [eval_simps]
  admitted_names_def [eval_simps] prohibited_names_def [eval_simps] peek_name_def [eval_simps]
  read_section_def [eval_simps] read_section_table_def [eval_simps] windows2_eq_def [eval_simps]
  read_sections_def [eval_simps] mapped_section_def [eval_simps] check_sections_def [eval_simps]
  decode_text_def [eval_simps] parse_elf_def [eval_simps]

lemma parse_elf_scanned:
  assumes "parse_elf bytes n = Inr e"
  obtains s where
    "scanned (sec_bytes bytes (pe_text e)) (sec_address (pe_text e)) (sec_range (pe_text e))
       (pe_instruction_count e) s"
    "pe_instruction_count e \<le> n" "4 * pe_instruction_count e = sec_size (pe_text e)"
    "length (sec_bytes bytes (pe_text e)) = sec_size (pe_text e)"
    "pe_instructions e = dt_instructions (scan_text s)"
    "pe_stack_adjustments e = dt_stack_adjustments (scan_text s)"
    "pe_syscall_addresses e = dt_syscall_addresses (scan_text s)"
    "pe_control_flow e = dt_control_flow (scan_text s)"
    "check_flows (pe_instructions e) (sec_address (pe_text e)) (pe_control_flow e) = Inr ()"
proof -
  obtain g dt where ss: "\<And>s. s \<in> set (pe_sections e) \<Longrightarrow> sec_address s + sec_size s < 2 ^ 64
       \<and> sec_offset s + sec_size s \<le> length bytes \<and> sec_offset s + sec_size s < 2 ^ 64"
    and c: "check_sections (pe_entry e) [g] (pe_sections e) = Inr (pe_text e, pe_rodata e)"
    and dt: "decode_text bytes n (pe_text e) = Inr dt"
      "pe_instruction_count e = sec_size (pe_text e) div 4"
      "pe_instructions e = dt_instructions dt" "pe_stack_adjustments e = dt_stack_adjustments dt"
      "pe_syscall_addresses e = dt_syscall_addresses dt" "pe_control_flow e = dt_control_flow dt"
    by (rule parse_elf_Ok [OF assms]) blast
  note c = check_sections_Ok [OF c]
  have "sec_address (pe_text e) + sec_size (pe_text e) < 2 ^ 64" using ss [OF c(1)] by simp
  from decode_text_Ok [OF dt(1) c(6) this] obtain s where
    "sec_size (pe_text e) div 4 \<le> n" "length (sec_bytes bytes (pe_text e)) = sec_size (pe_text e)"
    "scanned (sec_bytes bytes (pe_text e)) (sec_address (pe_text e)) (sec_range (pe_text e))
       (sec_size (pe_text e) div 4) s"
    "scan_text s = dt"
    "check_flows (dt_instructions dt) (sec_address (pe_text e)) (dt_control_flow dt) = Inr ()" .
  moreover have "4 * (sec_size (pe_text e) div 4) = sec_size (pe_text e)" using c(6) by presburger
  ultimately show thesis using dt by (intro that [of s]) simp_all
qed

lemma parse_elf_aligned:
  assumes "parse_elf bytes n = Inr e"
  shows "sec_address (pe_text e) mod 4 = 0"
proof -
  obtain g where "check_sections (pe_entry e) [g] (pe_sections e) = Inr (pe_text e, pe_rodata e)"
    by (rule parse_elf_Ok [OF assms]) blast
  then show ?thesis by (rule check_sections_Ok)
qed

section \<open>Properties\<close>

lemma sample_accepted:
  "\<exists>e. parse_elf sample_elf 9 = Inr e \<and> pe_instruction_count e = 9 \<and> length (pe_control_flow e) = 3
     \<and> length (pe_stack_adjustments e) = 2"
  unfolding sample_elf_def by (simp add: eval_simps)

text \<open>
  C22: Parsing untrusted bytes never panics: no slice or index is out of bounds and no address
  computation overflows, whatever the artifact and the instruction budget.
\<close>
theorem parse_elf_never_panics: "parse_elf bytes max_instructions \<noteq> Inl ElfPanic"
  by (rule parse_elf_no_panic)

text \<open>
  C20: An accepted artifact has one load segment, readable and executable and not writable. The text
  and rodata sections lie in its file-backed part at the mapped file offsets and inside the file, they
  do not overlap, and the entry point is an aligned address of the text section.
\<close>
theorem parse_elf_layout:
  assumes "parse_elf bytes n = Inr e"
  shows "\<exists>g. pe_segments e = [g] \<and> seg_flags g = 5 \<and> segment_contains g (pe_entry e)
    \<and> seg_offset g + seg_file_size g \<le> length bytes
    \<and> (\<forall>s\<in>{pe_text e, pe_rodata e}.
         seg_virtual_address g \<le> sec_address s
         \<and> sec_address s - seg_virtual_address g + sec_size s \<le> seg_file_size g
         \<and> sec_offset s = seg_offset g + (sec_address s - seg_virtual_address g))
    \<and> pe_entry e mod 4 = 0 \<and> sec_address (pe_text e) \<le> pe_entry e
    \<and> pe_entry e < sec_address (pe_text e) + sec_size (pe_text e)
    \<and> (sec_size (pe_rodata e) = 0
       \<or> sec_address (pe_rodata e) + sec_size (pe_rodata e) \<le> sec_address (pe_text e)
       \<or> sec_address (pe_text e) + sec_size (pe_text e) \<le> sec_address (pe_rodata e))"
proof -
  obtain g hdr where gs: "pe_segments e = [g]" and hdr: "read_segment bytes hdr = Inr g"
    and entry: "segment_contains g (pe_entry e)"
    and ss: "\<And>s. s \<in> set (pe_sections e) \<Longrightarrow> sec_address s + sec_size s < 2 ^ 64
       \<and> sec_offset s + sec_size s \<le> length bytes \<and> sec_offset s + sec_size s < 2 ^ 64"
    and c: "check_sections (pe_entry e) [g] (pe_sections e) = Inr (pe_text e, pe_rodata e)"
    by (rule parse_elf_Ok [OF assms]) blast
  note g = read_segment_Ok [OF hdr]
  note c = check_sections_Ok [OF c]
  have "mapped_section g (pe_text e)" "mapped_section g (pe_rodata e)" by (fact c)+
  then have "\<forall>s\<in>{pe_text e, pe_rodata e}. seg_virtual_address g \<le> sec_address s
      \<and> sec_address s - seg_virtual_address g + sec_size s \<le> seg_file_size g
      \<and> sec_offset s = seg_offset g + (sec_address s - seg_virtual_address g)"
    using ss [OF c(1)] ss [OF c(2)] g(4) by (auto simp: mapped_section_iff)
  moreover have "rng_end (sec_range s) = sec_address s + sec_size s" if "s \<in> {pe_text e, pe_rodata e}" for s
    using that ss [OF c(1)] ss [OF c(2)] by (auto simp: sec_range_def saturating_add_u64_def)
  ultimately show ?thesis
    using gs entry g c by (auto simp: range_contains_def sec_range_def)
qed

theorem parse_elf_layout_witness:
  "\<exists>e g. parse_elf sample_elf 9 = Inr e \<and> pe_segments e = [g] \<and> seg_flags g = 5
     \<and> seg_offset g + seg_file_size g \<le> length sample_elf"
  using sample_accepted parse_elf_layout [of sample_elf 9] by blast

text \<open>
  C23: The instructions of an accepted artifact are exactly the four-byte words of the text section in
  the file, in address order, no more than the budget, and each of them is on the allowlist.
\<close>
theorem parse_elf_instructions:
  assumes "parse_elf bytes n = Inr e"
  shows "length (pe_instructions e) = pe_instruction_count e \<and> pe_instruction_count e \<le> n
    \<and> 4 * pe_instruction_count e = sec_size (pe_text e)
    \<and> (\<forall>i<pe_instruction_count e.
         inst_address (pe_instructions e ! i) = sec_address (pe_text e) + i * 4
         \<and> u32_le (inst_word (pe_instructions e ! i)) = take 4 (drop (sec_offset (pe_text e) + i * 4) bytes)
         \<and> instruction_is_allowed (inst_word (pe_instructions e ! i)))"
proof -
  obtain s where s: "scanned (sec_bytes bytes (pe_text e)) (sec_address (pe_text e))
      (sec_range (pe_text e)) (pe_instruction_count e) s"
    and e: "pe_instruction_count e \<le> n" "4 * pe_instruction_count e = sec_size (pe_text e)"
      "length (sec_bytes bytes (pe_text e)) = sec_size (pe_text e)"
      "pe_instructions e = dt_instructions (scan_text s)"
    by (rule parse_elf_scanned [OF assms])
  have "u32_le (text_words (sec_bytes bytes (pe_text e)) ! i)
      = take 4 (drop (sec_offset (pe_text e) + i * 4) bytes)" if "i < pe_instruction_count e" for i
  proof -
    have "i < length (sec_bytes bytes (pe_text e)) div 4" "i * 4 + 4 \<le> sec_size (pe_text e)"
      using that e(2,3) by auto
    then show ?thesis
      by (simp add: u32_le_text_words take_drop min_def add.commute add.left_commute)
  qed
  with s e show ?thesis by (simp add: scanned_def)
qed

theorem parse_elf_instructions_witness:
  "\<exists>e. parse_elf sample_elf 9 = Inr e \<and> length (pe_instructions e) = 9
     \<and> sec_size (pe_text e) = 36 \<and> (\<forall>i<9. instruction_is_allowed (inst_word (pe_instructions e ! i)))"
proof -
  obtain e where "parse_elf sample_elf 9 = Inr e" "pe_instruction_count e = 9"
    using sample_accepted by blast
  with parse_elf_instructions [of sample_elf 9 e] show ?thesis by auto
qed

text \<open>
  C1: Control flow of an accepted artifact is closed. Every branch, jump and call word of the text
  section is listed with the target the decoder gives it, and every listed target is the address of
  an instruction of the text section that is not the second word of a call.
\<close>
theorem parse_elf_control_flow:
  assumes "parse_elf bytes n = Inr e"
  shows "(\<forall>f\<in>set (pe_control_flow e). \<exists>i<pe_instruction_count e.
            flow_target f = inst_address (pe_instructions e ! i)
            \<and> (let w = inst_word (pe_instructions e ! i) in w AND 0x7f = 0x67 \<longrightarrow> w = 0x00008067))
    \<and> (\<forall>i<pe_instruction_count e.
         let w = inst_word (pe_instructions e ! i); a = inst_address (pe_instructions e ! i) in
         (w AND 0x7f = 0x63 \<longrightarrow> \<lparr>flow_address = a, flow_target = branch_target a w,
            flow_kind = ConditionalBranch\<rparr> \<in> set (pe_control_flow e))
         \<and> (w AND 0x7f = 0x6f \<longrightarrow> \<lparr>flow_address = a, flow_target = jal_target a w,
            flow_kind = DirectJump\<rparr> \<in> set (pe_control_flow e))
         \<and> (w AND 0x7f = 0x67 \<and> w \<noteq> 0x00008067 \<longrightarrow>
            0 < i \<and> inst_word (pe_instructions e ! (i - 1)) AND 0x7f = 0x17
            \<and> \<lparr>flow_address = a,
               flow_target = call_pair_target a (inst_word (pe_instructions e ! (i - 1))) w,
               flow_kind = DirectJump\<rparr> \<in> set (pe_control_flow e)))"
proof -
  let ?bs = "sec_bytes bytes (pe_text e)" and ?a = "sec_address (pe_text e)"
  obtain s where s: "scanned ?bs ?a (sec_range (pe_text e)) (pe_instruction_count e) s"
    and e: "4 * pe_instruction_count e = sec_size (pe_text e)"
      "length ?bs = sec_size (pe_text e)"
      "pe_instructions e = dt_instructions (scan_text s)"
      "pe_control_flow e = dt_control_flow (scan_text s)"
    and f: "check_flows (pe_instructions e) ?a (pe_control_flow e) = Inr ()"
    by (rule parse_elf_scanned [OF assms])
  have inst: "length (pe_instructions e) = pe_instruction_count e"
    "\<And>i. i < pe_instruction_count e \<Longrightarrow> pe_instructions e ! i =
       \<lparr>inst_address = ?a + i * 4, inst_word = text_words ?bs ! i\<rparr>"
    using s e(3) by (simp_all add: scanned_def)
  have al: "?a mod 4 = 0" by (rule parse_elf_aligned [OF assms])
  have n: "pe_instruction_count e \<le> length ?bs div 4" using e(1,2) by linarith
  have "\<exists>i<pe_instruction_count e. flow_target f = inst_address (pe_instructions e ! i)
      \<and> (let w = inst_word (pe_instructions e ! i) in w AND 0x7f = 0x67 \<longrightarrow> w = 0x00008067)"
    if "f \<in> set (pe_control_flow e)" for f
  proof -
    note c = check_flows_Ok [OF f that]
    have "flow_target f mod 4 = 0" using s e(4) that by (auto simp: scanned_def)
    with al c have "flow_target f = ?a + (flow_target f - ?a) div 4 * 4" by (intro aligned_diff4) auto
    moreover have "(flow_target f - ?a) div 4 < pe_instruction_count e" using c inst(1) by simp
    ultimately show ?thesis using c inst(2)
      by (intro exI [of _ "(flow_target f - ?a) div 4"]) auto
  qed
  moreover note scanned_flow [OF s _ n]
  ultimately show ?thesis using e(4) by (simp add: inst Let_def)
qed

theorem parse_elf_control_flow_witness:
  "\<exists>e. parse_elf sample_elf 9 = Inr e \<and> length (pe_control_flow e) = 3 \<and>
     (\<forall>f\<in>set (pe_control_flow e). \<exists>i<9. flow_target f = inst_address (pe_instructions e ! i))"
proof -
  obtain e where "parse_elf sample_elf 9 = Inr e" "pe_instruction_count e = 9"
    "length (pe_control_flow e) = 3"
    using sample_accepted by blast
  with parse_elf_control_flow [of sample_elf 9 e] show ?thesis by auto
qed

text \<open>
  C21: In an accepted artifact no return follows an \<^verbatim>\<open>auipc ra\<close> in address order unless one of
  the words between them is a jump through \<^verbatim>\<open>ra\<close> or has the value one in bits 7 to 11, and the
  listed system calls are exactly the \<^verbatim>\<open>ecall\<close> words.
\<close>
theorem parse_elf_returns:
  assumes "parse_elf bytes n = Inr e"
  shows "(\<forall>j<pe_instruction_count e. \<forall>k<j. inst_word (pe_instructions e ! j) = 0x00008067 \<longrightarrow>
           sets_marker (inst_word (pe_instructions e ! k)) \<longrightarrow>
           (\<exists>m. k < m \<and> m < j \<and> clears_marker (inst_word (pe_instructions e ! m))))
    \<and> pe_syscall_addresses e
      = map inst_address (filter (\<lambda>x. inst_word x = 0x00000073) (pe_instructions e))"
proof -
  let ?bs = "sec_bytes bytes (pe_text e)" and ?a = "sec_address (pe_text e)"
  obtain s where s: "scanned ?bs ?a (sec_range (pe_text e)) (pe_instruction_count e) s"
    and e: "pe_instructions e = dt_instructions (scan_text s)"
      "pe_syscall_addresses e = dt_syscall_addresses (scan_text s)"
    by (rule parse_elf_scanned [OF assms])
  have inst: "pe_instructions e = map (\<lambda>i. \<lparr>inst_address = ?a + i * 4, inst_word = text_words ?bs ! i\<rparr>)
      [0..<pe_instruction_count e]"
    using s e(1) by (simp add: scanned_def)
  have "\<forall>j<pe_instruction_count e. \<forall>k<j. text_words ?bs ! j = 0x00008067 \<longrightarrow>
      sets_marker (text_words ?bs ! k) \<longrightarrow> (\<exists>m. k < m \<and> m < j \<and> clears_marker (text_words ?bs ! m))"
    using s unfolding scanned_def by blast
  moreover have "pe_syscall_addresses e = map (\<lambda>i. ?a + i * 4)
      (filter (\<lambda>i. text_words ?bs ! i = 0x00000073) [0..<pe_instruction_count e])"
    using s e(2) by (simp add: scanned_def)
  ultimately show ?thesis unfolding inst by (fastforce simp: filter_map o_def)
qed

theorem parse_elf_returns_witness:
  "\<exists>e. parse_elf sample_elf 9 = Inr e \<and> pe_syscall_addresses e
      = map inst_address (filter (\<lambda>x. inst_word x = 0x00000073) (pe_instructions e))"
  using sample_accepted parse_elf_returns [of sample_elf 9] by blast

section \<open>A gap in the return check\<close>

text \<open>
  The marker of a pending \<^verbatim>\<open>auipc ra\<close> is cleared by any word whose bits 7 to 11 hold one, also by
  stores and branches, where these bits are part of the immediate and \<^verbatim>\<open>ra\<close> is not written. A
  return that consumes an unpaired \<^verbatim>\<open>auipc ra\<close> is rejected, and accepted once the store
  \<^verbatim>\<open>sb t0, 1(sp)\<close> stands between the two.
\<close>

lemma return_after_auipc_rejected:
  "validate_instructions (concat (map u32_le [0x00001097, 0x00008067])) 0x10000
     \<lparr>rng_start = 0x10000, rng_end = 0x10008\<rparr> = elf_fail InvalidInstruction"
  by (simp add: eval_simps)

lemma store_hides_pending_auipc:
  "is_ok (validate_instructions (concat (map u32_le [0x00001097, 0x005100a3, 0x00008067])) 0x10000
     \<lparr>rng_start = 0x10000, rng_end = 0x1000c\<rparr>) \<and> \<not> opcode_writes_rd (0x005100a3 AND 0x7f)"
  by (simp add: eval_simps)

end
