(* ===== verification/Artifact.thy ===== *)
theory Artifact
  imports Elf_Image Elf_Parse Rv_Sem
begin

text \<open>
  The assembler and the artifact checker together. The checker reads back what the ELF writer wrote,
  admits every instruction the encoder can emit and decodes the targets the encoder was given; the
  start trampoline enters the program and leaves it through the exit system call.
\<close>

section \<open>The start trampoline\<close>

lemma run_fixed_li:
  assumes enc: "encode_fixed_li_sequence rd imm = Inr bs" and imm: "li_signed_i64 imm = Some imm" "li_fits_lui_addi_rv64 imm"
    and rd: "rd < 32" "rd \<noteq> 0" and ld: "loaded code (rv_pc st) bs"
  shows "rv_run 2 code st = Some (rv_goto (rv_pc st + 8) (rv_set rd (word_of_int imm) st))"
proof -
  from enc imm obtain hi lo w where d: "split_hi_lo imm = Inr (hi, lo)" "encode_i_type 0x13 rd 0 rd lo = Inr w"
    "bs = u32_le (encode_u_type 0x37 rd hi) @ u32_le w"
    by (auto simp: encode_fixed_li_sequence_def)
  note s = split_hi_lo_Ok [OF d(1)]
  let ?st = "rv_next (rv_set rd (word_of_int (hi * 4096)) st)"
  have 1: "exec_word (encode_u_type 0x37 rd hi) st = Some ?st"
    using exec_u_type(1) [OF rd(1) s(2,3)] by simp
  have "word_of_int (hi * 4096) + word_of_int lo = (word_of_int imm :: u64)"
    using s(1) by (simp only: wi_hom_add)
  then have 2: "exec_word w ?st = Some (rv_goto (rv_pc st + 8) (rv_set rd (word_of_int imm) st))"
    using exec_i_type [OF d(2) rd(1) rd(1), of ?st] rd(2)
    by (simp add: alu_imm_def rv_next_goto add.commute [of 8])
  from 1 2 ld show ?thesis
    by (simp add: d(3) loaded_Cons loaded_single numeral_2_eq_2 rv_step_def)
qed

lemma small_literals: "li_signed_i64 25 = Some 25" "li_signed_i64 93 = Some 93"
  "li_fits_lui_addi_rv64 25" "li_fits_lui_addi_rv64 93"
  by (simp_all add: eval_simps)

section \<open>Emitted words are admitted\<close>

lemma allowed_r_type:
  assumes "rd < 32" "rs1 < 32" "rs2 < 32" "bits_below 3 funct3"
    "funct7 \<in> {0, 1} \<or> funct7 = 0x20 \<and> funct3 \<in> {0, 5}"
  shows "instruction_is_allowed (encode_r_type 0x33 rd funct3 rs1 rs2 funct7)"
proof -
  have b: "bits_below 7 (0x33 :: u32)" "bits_below 5 rd" "bits_below 5 rs1" "bits_below 5 rs2" "bits_below 7 funct7"
    using assms by (auto simp: bits_below_reg)
  note f = r_type_fields [OF b(1,2) assms(4) b(3,4,5) refl]
  show ?thesis unfolding instruction_is_allowed_def Let_def f using assms(5) by auto
qed

lemma allowed_i_type:
  assumes "encode_i_type opcode rd funct3 rs1 imm = Inr w" "rd < 32" "rs1 < 32" "bits_below 3 funct3"
    "opcode = 0x13 \<and> funct3 \<in> {0, 4, 6, 7} \<or> opcode = 0x03 \<and> funct3 \<in> {3, 4} \<or> opcode = 0x67 \<and> funct3 = 0
     \<or> opcode = 0x13 \<and> funct3 = 3 \<and> imm = 1"
  shows "instruction_is_allowed w"
proof -
  have b: "bits_below 7 opcode" "bits_below 5 rd" "bits_below 5 rs1"
    using assms by (auto simp: bits_below_reg)
  note f = i_type_fields [OF b(1,2) assms(4) b(3) assms(1)]
  show ?thesis
    using assms(5) by (elim disjE conjE insertE emptyE) (simp_all add: instruction_is_allowed_def f)
qed

lemma allowed_shift:
  assumes "encode_i_type opcode rd funct3 rs1 (c * 64 OR k) = Inr w" "rd < 32" "rs1 < 32" "0 \<le> k" "k \<le> 63"
    "opcode = 0x13 \<and> (funct3 = 1 \<and> c = 0 \<or> funct3 = 5 \<and> c \<in> {0, 0x10, 0x18})"
  shows "instruction_is_allowed w"
proof -
  have b: "bits_below 7 opcode" "bits_below 5 rd" "bits_below 5 rs1" "bits_below 3 funct3"
    using assms by (auto simp: bits_below_reg)
  note f = i_type_fields [OF b(1,2,4,3) assms(1)]
  have "drop_bit 26 w AND 0x3f = drop_bit 6 (take_bit 12 (word_of_int (c * 64 OR k)))"
  proof -
    have "drop_bit 26 w = drop_bit 6 (drop_bit 20 w)" by (simp add: drop_bit_drop_bit)
    then show ?thesis unfolding f(5) and_masks by (auto intro!: bit_word_eqI simp: bit_simps)
  qed
  with shift_immediate(2) [of k c] assms(4-6) have "drop_bit 26 w AND 0x3f = word_of_int c" by auto
  then show ?thesis unfolding instruction_is_allowed_def Let_def f using assms(6) by auto
qed

lemma allowed_roriw:
  assumes "encode_i_type 0x1b rd 5 rs1 (1536 OR k) = Inr w" "rd < 32" "rs1 < 32" "0 \<le> k" "k \<le> 31"
  shows "instruction_is_allowed w"
proof -
  have b: "bits_below 7 (0x1b :: u32)" "bits_below 5 rd" "bits_below 5 rs1" "bits_below 3 (5 :: u32)"
    using assms by (auto simp: bits_below_reg)
  note f = i_type_fields [OF b(1,2,4,3) assms(1)]
  have "drop_bit 25 w AND 0x7f = drop_bit 5 (take_bit 12 (word_of_int (1536 OR k)))"
  proof -
    have "drop_bit 25 w = drop_bit 5 (drop_bit 20 w)" by (simp add: drop_bit_drop_bit)
    then show ?thesis unfolding f(5) and_masks by (auto intro!: bit_word_eqI simp: bit_simps)
  qed
  moreover have "drop_bit 5 (take_bit 12 (word_of_int (1536 OR k) :: u32)) = 48"
  proof -
    have k: "take_bit 5 k = k" using assms by (simp add: take_bit_int_eq_self_iff)
    have drop: "drop_bit 5 (take_bit 12 (push_bit 5 c OR k)) = c" if "take_bit 7 c = c" for c :: int
      by (subst (2) that [symmetric], subst k [symmetric]) (auto simp: bit_eq_iff bit_simps)
    have "drop_bit 5 (take_bit 12 (word_of_int x :: u32)) = word_of_int (drop_bit 5 (take_bit 12 x))" for x
      by (rule bit_word_eqI) (auto simp: bit_simps)
    with drop [of 48] show ?thesis by (simp add: push_bit_eq_mult)
  qed
  ultimately have "drop_bit 25 w AND 0x7f = 0x30" by simp
  then show ?thesis unfolding instruction_is_allowed_def Let_def f by simp
qed

lemma allowed_s_type:
  assumes "encode_s_type 0x23 funct3 rs1 rs2 imm = Inr w" "rs1 < 32" "rs2 < 32" "funct3 \<in> {0, 1, 2, 3}"
  shows "instruction_is_allowed w"
proof -
  have b: "bits_below 7 (0x23 :: u32)" "bits_below 3 funct3" "bits_below 5 rs1" "bits_below 5 rs2"
    using assms by (auto simp: bits_below_reg)
  note f = s_type_fields [OF b assms(1)]
  show ?thesis unfolding instruction_is_allowed_def Let_def f using assms(4) by auto
qed

lemma allowed_u_type:
  assumes "rd < 32" "opcode \<in> {0x17, 0x37}"
  shows "instruction_is_allowed (encode_u_type opcode rd imm)"
proof -
  have b: "bits_below 7 opcode" "bits_below 5 rd" using assms by (auto simp: bits_below_reg)
  note f = u_type_fields [OF b refl]
  show ?thesis unfolding instruction_is_allowed_def Let_def f using assms(2) by auto
qed

lemma allowed_b_type:
  assumes "encode_b_type 0x63 funct3 rs1 rs2 d = Inr w" "rs1 < 32" "rs2 < 32" "funct3 \<in> {0, 1, 4, 5, 6, 7}"
  shows "instruction_is_allowed w"
proof -
  have b: "bits_below 7 (0x63 :: u32)" "bits_below 3 funct3" "bits_below 5 rs1" "bits_below 5 rs2"
    using assms by (auto simp: bits_below_reg)
  note f = b_type_fields [OF b assms(1)]
  show ?thesis unfolding instruction_is_allowed_def Let_def f(1-4) using assms(4) by auto
qed

lemma allowed_j_type:
  assumes "encode_j_type 0x6f 0 d = Inr w"
  shows "instruction_is_allowed w"
proof -
  have b: "bits_below 7 (0x6f :: u32)" "bits_below 5 (0 :: byte)" by (auto simp: bits_below_reg)
  note f = j_type_fields [OF b assms]
  show ?thesis unfolding instruction_is_allowed_def Let_def f(1,2) by auto
qed

lemma allowed_ecall: "instruction_is_allowed encode_ecall"
  by (simp add: instruction_is_allowed_def encode_ecall_def)

definition words_allowed :: "byte list \<Rightarrow> bool" where
  "words_allowed bs = list_all instruction_is_allowed (text_words bs)"

lemma words_allowed_simps [simp]:
  "words_allowed []" "words_allowed (u32_le w @ bs) \<longleftrightarrow> instruction_is_allowed w \<and> words_allowed bs"
  "words_allowed (u32_le w) \<longleftrightarrow> instruction_is_allowed w"
  using text_words_Cons [of w "[]"] by (simp_all add: words_allowed_def text_words_Cons)

lemma steps_allowed:
  "evaluate_from v ss = Some x \<Longrightarrow> encode_steps rd ss = Inr bs \<Longrightarrow> rd < 32 \<Longrightarrow> ss \<noteq> [] \<Longrightarrow> words_allowed bs"
proof (induction ss arbitrary: v bs)
  case (Cons s ss)
  from Cons.prems obtain y where y: "step_value v s = Some y" "evaluate_from (Some y) ss = Some x"
    by (auto split: option.splits)
  from Cons.prems obtain w bs' where w: "encode_step rd s = Inr w" "encode_steps rd ss = Inr bs'"
    and bs: "bs = u32_le w @ bs'" by auto
  have "instruction_is_allowed w"
  proof (cases s)
    case (AddFromZero imm)
    with w Cons.prems(3) show ?thesis by (auto simp: encode_step_def intro: allowed_i_type)
  next
    case (LoadUpper imm)
    with w Cons.prems(3) show ?thesis by (auto simp: encode_step_def intro: allowed_u_type)
  next
    case (Add imm)
    with w Cons.prems(3) show ?thesis by (auto simp: encode_step_def intro: allowed_i_type)
  next
    case (ShiftLeft k)
    then have "1 \<le> k" "k \<le> 63" using y(1) by (auto simp: step_value_def split: if_splits)
    with ShiftLeft w Cons.prems(3) allowed_shift [of "0x13" rd 1 rd 0 "int k" w] show ?thesis by (simp add: encode_step_def)
  next
    case (ShiftRight k)
    then have "1 \<le> k" "k \<le> 63" using y(1) by (auto simp: step_value_def split: if_splits)
    with ShiftRight w Cons.prems(3) allowed_shift [of "0x13" rd 5 rd 0 "int k" w] show ?thesis by (simp add: encode_step_def)
  qed
  moreover have "words_allowed bs'"
    using Cons.IH [OF y(2) w(2) Cons.prems(3)] w(2) by (cases "ss = []") auto
  ultimately show ?case by (simp add: bs)
qed simp

lemma li_allowed:
  assumes "encode_li_sequence rd imm = Inr bs" "rd < 32"
  shows "words_allowed bs"
proof -
  from assms(1) obtain ss where ss: "plan imm = Inr ss" "encode_steps rd ss = Inr bs"
    by (auto simp: encode_li_sequence_def)
  have "- (2 ^ 63) \<le> imm" "imm \<le> 2 ^ 64 - 1"
    using ss(1) by (auto simp: plan_def li_bits_def split: if_splits)
  then have ev: "evaluate ss = Some (word_of_int imm)" using plan_Ok ss(1) by (metis sum.inject(2))
  then have "ss \<noteq> []" by (auto simp: evaluate_def)
  with steps_allowed [OF _ ss(2) assms(2)] ev show ?thesis by (simp add: evaluate_def)
qed

lemma branch_allowed:
  assumes "encode_branch (rs1, rs2, l, funct3) pc p layout rel = Inr bs" "rs1 < 32" "rs2 < 32" "funct3 \<in> {0, 1, 4, 5, 6, 7}"
  shows "words_allowed bs"
  using assms
  by (auto simp: encode_branch_def inverse_branch_funct3_def split: if_splits)
    (erule allowed_j_type | (erule allowed_b_type; simp))+

lemma address_allowed:
  "encode_address_sequence rd pc t = Inr bs \<Longrightarrow> rd < 32 \<Longrightarrow> words_allowed bs"
  "encode_call_sequence pc t = Inr bs \<Longrightarrow> words_allowed bs"
  by (auto simp: encode_address_sequence_def encode_call_sequence_def)
    ((rule allowed_u_type | erule allowed_i_type); simp)+

lemma instruction_allowed:
  assumes "encode_instruction inst pc p layout rel = Inr bs" "regs_ok inst"
  shows "words_allowed bs"
proof (cases inst)
  case (ISlli rd rs1 k)
  with assms allowed_shift [of "0x13" rd 1 rs1 0 k] show ?thesis by (auto simp: encode_shift_def split: if_splits)
next
  case (ISrai rd rs1 k)
  with assms allowed_shift [of "0x13" rd 5 rs1 "0x10" k] show ?thesis by (auto simp: encode_shift_def split: if_splits)
next
  case (ISrli rd rs1 k)
  with assms allowed_shift [of "0x13" rd 5 rs1 0 k] show ?thesis by (auto simp: encode_shift_def split: if_splits)
next
  case (IRori rd rs1 k)
  with assms allowed_shift [of "0x13" rd 5 rs1 "0x18" k] show ?thesis by (auto simp: encode_shift_def split: if_splits)
next
  case (IRoriw rd rs1 k)
  with assms allowed_roriw [of rd rs1 k] show ?thesis by (auto simp: encode_shift_def split: if_splits)
next
  case (ILi rd imm)
  with assms show ?thesis by (auto intro: li_allowed)
next
  case (ILa rd l)
  with assms show ?thesis by (auto intro: address_allowed)
next
  case (ICall l)
  with assms show ?thesis by (auto intro: address_allowed)
qed (use assms in \<open>auto simp: allowed_ecall allowed_r_type\<close>,
    ((erule allowed_i_type | erule allowed_s_type | erule allowed_j_type | erule branch_allowed); simp)+)

lemma text_words_append:
  assumes "length a mod 4 = 0"
  shows "text_words (a @ b) = text_words a @ text_words b"
  using assms
proof (induction "length a" arbitrary: a rule: less_induct)
  case less
  show ?case
  proof (cases "a = []")
    case False
    with less.prems have len: "4 \<le> length a" by (cases "length a < 4") auto
    then have "length (drop 4 a) mod 4 = 0" using less.prems by (simp add: le_mod_geq)
    with less.hyps [of "drop 4 a"] len have "text_words (drop 4 a @ b) = text_words (drop 4 a) @ text_words b" by simp
    then show ?thesis using len by (simp add: text_words_def chunks_exact_simps(2))
  qed simp
qed

lemma loaded_append:
  assumes "length a = 8"
  shows "loaded code p (a @ b) \<longleftrightarrow> loaded code p a \<and> loaded code (p + 8) b"
proof -
  define v w where "v = u32_of_le (take 4 a)" and "w = u32_of_le (drop 4 a)"
  then have "a = u32_le v @ u32_le w"
    using assms u32_le_u32_of_le [of "take 4 a"] u32_le_u32_of_le [of "drop 4 a"] by simp
  then show ?thesis
    by (simp only: append_assoc loaded_Cons loaded_single) (simp add: add.assoc)
qed

lemma words_allowed_append:
  "length a mod 4 = 0 \<Longrightarrow> words_allowed (a @ b) \<longleftrightarrow> words_allowed a \<and> words_allowed b"
  by (simp add: words_allowed_def text_words_append)

text \<open>A text section of labels and instructions only, as the code generator writes it.\<close>

definition code_only :: "located_op list \<Rightarrow> bool" where
  "code_only ops = list_all (\<lambda>op. case the_op op of OpLabel _ \<Rightarrow> True | OpInstruction _ \<Rightarrow> True | _ \<Rightarrow> False) ops"

lemma encode_instruction_multiple: "encode_instruction inst pc p l rel = Inr bs \<Longrightarrow> length bs mod 4 = 0"
  by (cases inst)
    (auto simp: encode_li_sequence_def dest: encode_sequences_length encode_steps_length split: if_splits)

lemma code_padded_alike: "code_only (text_ops p) \<Longrightarrow> padded_alike n p Text"
  by (auto simp: code_only_def padded_alike_def section_ops_def pads_alike_def list_all_iff split: asm_op.splits)

lemma run_emit_allowed:
  assumes "run_emit (op_bytes p Text layout bias) off i ops = Inr bs" "code_only ops"
    "\<forall>op \<in> set ops. op_ok (the_op op)"
  shows "words_allowed bs \<and> length bs mod 4 = 0"
  using assms
proof (induction ops arbitrary: off i bs)
  case (Cons op ops)
  from Cons.prems(1) obtain a b where a: "op_bytes p Text layout bias off i op = Inr a"
    and b: "run_emit (op_bytes p Text layout bias) (off + length a) (Suc i) ops = Inr b" and bs: "bs = a @ b"
    by auto
  have "words_allowed a \<and> length a mod 4 = 0"
    using a Cons.prems(2,3) instruction_allowed encode_instruction_multiple
    by (cases "the_op op") (auto simp: op_bytes_def code_only_def op_ok_def)
  with Cons.IH [OF b] Cons.prems(2,3) show ?case
    by (auto simp: bs words_allowed_append code_only_def mod_add_eq [of _ 4, symmetric])
qed simp

section \<open>Decoded targets\<close>

lemma decoded_branch:
  assumes "encode_b_type 0x63 funct3 rs1 rs2 d = Inr w" "rs1 < 32" "rs2 < 32" "bits_below 3 funct3"
    "int pc + d = int t" "t < 2 ^ 64"
  shows "branch_target pc w = t"
  by (rule branch_target_encode [OF assms(1) _ assms(4) _ _ assms(5,6)]) (simp_all add: assms(2,3) bits_below_reg)

lemma decoded_jump:
  assumes "encode_j_type 0x6f 0 d = Inr w" "int pc + d = int t" "t < 2 ^ 64"
  shows "jal_target pc w = t"
  by (rule jal_target_encode [OF assms(1) _ _ assms(2,3)]) (simp_all add: bits_below_reg)

lemma even_and_not_one: "even t \<Longrightarrow> nat (int t AND NOT 1) = t"
proof -
  assume "even t"
  then have "push_bit 1 (drop_bit 1 (int t)) = int t" by (simp add: push_bit_eq_mult drop_bit_eq_div)
  then show ?thesis using and_not_mask_int [of "int t" 1] by (simp add: mask_eq_exp_minus_1)
qed

lemma call_target_encode:
  assumes "encode_call_sequence pc t = Inr bs" "even t" "t < 2 ^ 64"
  obtains w1 w2 where "bs = u32_le w1 @ u32_le w2" "decode_call_target bs 1 w2 (pc + 4) = Inr t"
proof -
  from assms(1) obtain d hi lo w where d: "relative_offset pc t = Inr d" "split_hi_lo d = Inr (hi, lo)"
    "encode_i_type 0x67 1 0 1 lo = Inr w" "bs = u32_le (encode_u_type 0x17 1 hi) @ u32_le w"
    by (auto simp: encode_call_sequence_def)
  note s = split_hi_lo_Ok [OF d(2)]
  have b: "bits_below 7 (0x17 :: u32)" "bits_below 7 (0x67 :: u32)" "bits_below 5 (1 :: byte)" "bits_below 3 (0 :: u32)"
    by (simp_all add: bits_below_reg)
  note fi = i_type_fields [OF b(2,3,4,3) d(3)] and fu = u_type_fields [OF b(1,3) refl, of hi]
  have high: "sign_extend (encode_u_type 0x17 1 hi AND 0xfffff000) 32 = hi * 4096"
    by (rule upper_immediate_encode [OF b(1,3) s(2,3)])
  have low: "sign_extend (drop_bit 20 w) 12 = lo" by (rule i_immediate_encode [OF d(3) b(2,3,4,3)])
  have "instruction_word bs 0 = Inr (encode_u_type 0x17 1 hi)"
    by (simp add: instruction_word_def read_u32_def get_range_def d(4))
  moreover have "saturating_add_i64 (hi * 4096) lo = d"
    using d(1) s by (simp add: saturating_add_i64_def relative_offset_Ok in_i64_def)
  moreover have "add_signed pc d = t"
    using d(1) assms(3) by (intro add_signed_exact) (simp_all add: relative_offset_Ok)
  ultimately have "decode_call_target bs 1 w (pc + 4) = Inr t"
    using fi(2-4) fu(1,2) high low even_and_not_one [OF assms(2)] by (simp add: decode_call_target_def)
  with d(4) that show ?thesis by blast
qed

section \<open>Reading the headers back\<close>

lemma get_range_append1: "e \<le> length xs \<Longrightarrow> get_range (xs @ ys) s e = get_range xs s e"
  by (auto simp: get_range_def)

lemma get_range_middle: "s = length a \<Longrightarrow> e = s + length b \<Longrightarrow> get_range (a @ b @ c) s e = Some b"
  by (simp add: get_range_def)

lemma reads_append1:
  "off + 2 \<le> length xs \<Longrightarrow> read_u16 (xs @ ys) off = read_u16 xs off"
  "off + 4 \<le> length xs \<Longrightarrow> read_u32 (xs @ ys) off = read_u32 xs off"
  "off + 8 \<le> length xs \<Longrightarrow> read_u64 (xs @ ys) off = read_u64 xs off"
  by (simp_all add: read_u16_def read_u32_def read_u64_def get_range_append1)

lemma u32_of_le_nat: "u32_of_le (nat_to_le 4 n) = word_of_nat n"
proof -
  have "(word_of_nat (n mod 2 ^ 32) :: u32) = word_of_nat n" by (simp add: word_of_nat_eq_iff take_bit_eq_mod)
  then show ?thesis by (simp add: u32_of_le_def le_to_nat_nat_to_le)
qed

lemma image_prefix:
  "image_of base ro code rodata = elf_header_bytes base (headers_offset ro rodata) @ 
     drop 64 (image_of base ro code rodata)"
  by (simp add: image_of_def Let_def)

lemma elf_header_reads:
  assumes "base < 2 ^ 64" "so < 2 ^ 64"
  shows "check_ident (elf_header_bytes base so @ rest) = Inr ()"
    "read_header (elf_header_bytes base so @ rest) = Inr \<lparr>eh_entry = base, eh_program_offset = 64, eh_section_offset = so,
        eh_program_entry_size = 56, eh_program_count = 1, eh_section_entry_size = 64, eh_section_count = 4,
        eh_shstr_index = 3\<rparr>"
proof -
  let ?h = "elf_header_bytes base so"
  have reads: "read_u32 ?h 20 = Inr 1" "read_u32 ?h 48 = Inr 0" "read_u16 ?h 16 = Inr 2" "read_u16 ?h 18 = Inr 243"
    "read_u16 ?h 52 = Inr 64" "read_u64 ?h 24 = Inr base" "read_u64 ?h 32 = Inr 64" "read_u64 ?h 40 = Inr so"
    "read_u16 ?h 54 = Inr 56" "read_u16 ?h 56 = Inr 1" "read_u16 ?h 58 = Inr 64" "read_u16 ?h 60 = Inr 4" "read_u16 ?h 62 = Inr 3"
    using assms by (simp_all add: read_u16_def read_u32_def read_u64_def get_range_def elf_header_bytes_def
        le_to_nat_nat_to_le u32_of_le_nat)
  have first: "take 16 (?h @ rest) = [0x7f, 0x45, 0x4c, 0x46, 2, 1, 1] @ replicate 9 0"
    by (simp add: elf_header_bytes_def)
  have nth: "(?h @ rest) ! i = ([0x7f, 0x45, 0x4c, 0x46, 2, 1, 1] @ replicate 9 0) ! i" if "i < 16" for i
    using that first by (metis nth_take)
  have "get_range (?h @ rest) 0 4 = Some [0x7f, 0x45, 0x4c, 0x46]"
    by (simp add: get_range_def elf_header_bytes_def)
  moreover have "take 9 (drop 7 (?h @ rest)) = replicate 9 0"
    by (simp add: elf_header_bytes_def)
  ultimately have "get_range (?h @ rest) 0 4 = Some [0x7f, 0x45, 0x4c, 0x46]"
    "index_range (?h @ rest) 7 16 = Inr (replicate 9 0)"
    by (simp_all add: index_range_def get_range_def ok_or_def)
  moreover have "index_byte (?h @ rest) 4 = Inr 2" "index_byte (?h @ rest) 5 = Inr 1" "index_byte (?h @ rest) 6 = Inr 1"
    using nth [of 4] nth [of 5] nth [of 6] by (simp_all add: index_byte_def)
  ultimately show "check_ident (?h @ rest) = Inr ()"
    by (simp add: check_ident_def reads_append1 reads)
  show "read_header (?h @ rest) = Inr \<lparr>eh_entry = base, eh_program_offset = 64, eh_section_offset = so,
        eh_program_entry_size = 56, eh_program_count = 1, eh_section_entry_size = 64, eh_section_count = 4,
        eh_shstr_index = 3\<rparr>"
    by (simp add: read_header_def reads_append1 reads)
qed

lemma program_header_reads:
  assumes "vaddr + len < 2 ^ 64" "len \<le> length bytes"
  shows "read_segment bytes (program_header_bytes vaddr len) = Inr \<lparr>seg_flags = 5, seg_offset = 0,
    seg_virtual_address = vaddr, seg_file_size = len, seg_memory_size = len\<rparr>"
proof -
  let ?h = "program_header_bytes vaddr len"
  have "read_u32 ?h 0 = Inr 1" "read_u32 ?h 4 = Inr 5" "read_u64 ?h 8 = Inr 0" "read_u64 ?h 16 = Inr vaddr"
    "read_u64 ?h 32 = Inr len" "read_u64 ?h 40 = Inr len"
    using assms(1) by (simp_all add: read_u32_def read_u64_def get_range_def program_header_bytes_def
        le_to_nat_nat_to_le u32_of_le_nat)
  moreover have "checked_file_range bytes 0 len = Inr (take len bytes)"
    using assms by (simp add: checked_file_range_def checked_add_u64_def get_range_def)
  moreover have "(4 :: u32) OR 1 = 5" by simp
  ultimately show ?thesis using assms by (simp add: read_segment_def checked_add_u64_def)
qed

lemma section_header_reads:
  assumes "flags < 2 ^ 64" "address < 2 ^ 64" "offset < 2 ^ 64" "len < 2 ^ 64"
  shows "read_u32 (section_header_bytes name ty flags address offset len al) 0 = Inr (word_of_nat name)"
    "read_u32 (section_header_bytes name ty flags address offset len al) 4 = Inr (word_of_nat ty)"
    "read_u64 (section_header_bytes name ty flags address offset len al) 8 = Inr flags"
    "read_u64 (section_header_bytes name ty flags address offset len al) 16 = Inr address"
    "read_u64 (section_header_bytes name ty flags address offset len al) 24 = Inr offset"
    "read_u64 (section_header_bytes name ty flags address offset len al) 32 = Inr len"
  using assms by (simp_all add: read_u32_def read_u64_def get_range_def section_header_bytes_def
        le_to_nat_nat_to_le u32_of_le_nat)


lemma section_names:
  "peek_name ELF_SECTION_NAMES 1 (str_bytes ''.text'' @ [0])" "read_c_string ELF_SECTION_NAMES 1 = Inr (str_bytes ''.text'')"
  "peek_name ELF_SECTION_NAMES 7 (str_bytes ''.rodata'' @ [0])" "read_c_string ELF_SECTION_NAMES 7 = Inr (str_bytes ''.rodata'')"
  "peek_name ELF_SECTION_NAMES 15 (str_bytes ''.shstrtab'' @ [0])" "read_c_string ELF_SECTION_NAMES 15 = Inr (str_bytes ''.shstrtab'')"
  by (simp_all add: ELF_SECTION_NAMES_def peek_name_def read_c_string_def eval_simps)

lemma read_section_header:
  assumes "flags < 2 ^ 64" "address + len < 2 ^ 64" "offset + len \<le> length bytes" "offset + len < 2 ^ 64"
    and "ty \<in> {1, 3}"
    and "(name, nm) \<in> {(1, str_bytes ''.text''), (7, str_bytes ''.rodata''), (15, str_bytes ''.shstrtab'')}"
  shows "read_section bytes ELF_SECTION_NAMES (section_header_bytes name ty flags address offset len al)
    = Inr \<lparr>sec_name = nm, sec_type = word_of_nat ty, sec_flags = flags, sec_address = address,
        sec_offset = offset, sec_size = len\<rparr>"
proof -
  have frange: "checked_file_range bytes offset len = Inr (take len (drop offset bytes))"
    using assms(3,4) by (simp add: checked_file_range_def checked_add_u64_def get_range_def)
  have small: "unat (word_of_nat name :: u32) = name" using assms(6) by auto
  have peek: "\<exists>p\<in>set admitted_names. peek_name ELF_SECTION_NAMES name p"
    using assms(6) section_names by (auto simp: admitted_names_def)
  have str: "read_c_string ELF_SECTION_NAMES name = Inr nm" using assms(6) section_names by auto
  have ty: "(word_of_nat ty :: u32) \<notin> {SHT_RELA, SHT_DYNAMIC, SHT_REL, SHT_DYNSYM}" using assms(5) by auto
  have nm: "nm \<notin> set prohibited_names" using assms(6) by (auto simp: prohibited_names_def str_bytes_def)
  note reads = section_header_reads [of flags address offset len name ty al]
  show ?thesis
    unfolding read_section_def
    using reads assms(1-4) frange small peek str ty nm by (simp add: checked_add_u64_def Let_def)
qed

lemma sort_sections:
  assumes "sec_name a = str_bytes ''.text''" "sec_name b = str_bytes ''.rodata''" "sec_name c = str_bytes ''.shstrtab''"
  shows "sort_key sec_name [a, b, c] = [b, c, a]"
  using assms by (simp add: str_bytes_def)


definition text_section :: "nat \<Rightarrow> byte list \<Rightarrow> elf_section" where
  "text_section base code = \<lparr>sec_name = str_bytes ''.text'', sec_type = 1, sec_flags = 6, sec_address = base,
     sec_offset = 128, sec_size = length code\<rparr>"

definition rodata_section :: "nat \<Rightarrow> nat \<Rightarrow> byte list \<Rightarrow> elf_section" where
  "rodata_section base ro rodata = \<lparr>sec_name = str_bytes ''.rodata'', sec_type = 1, sec_flags = 2,
     sec_address = base + ro, sec_offset = 128 + ro, sec_size = length rodata\<rparr>"

definition names_section :: "nat \<Rightarrow> byte list \<Rightarrow> elf_section" where
  "names_section ro rodata = \<lparr>sec_name = str_bytes ''.shstrtab'', sec_type = 3, sec_flags = 0,
     sec_address = 0, sec_offset = names_offset ro rodata, sec_size = 25\<rparr>"

definition image_segment :: "nat \<Rightarrow> nat \<Rightarrow> byte list \<Rightarrow> elf_segment" where
  "image_segment base ro rodata = \<lparr>seg_flags = 5, seg_offset = 0, seg_virtual_address = base - 128,
     seg_file_size = 128 + (ro + length rodata), seg_memory_size = 128 + (ro + length rodata)\<rparr>"

text \<open>What the sections must satisfy: the limits keep every sum of the reader below \<open>2 ^ 64\<close>.\<close>

definition image_ok :: "nat \<Rightarrow> nat \<Rightarrow> byte list \<Rightarrow> byte list \<Rightarrow> bool" where
  "image_ok base ro code rodata \<longleftrightarrow> 128 \<le> base \<and> base mod 4 = 0 \<and> length code \<le> ro
     \<and> code \<noteq> [] \<and> length code mod 4 = 0 \<and> base + ro + length rodata < 2 ^ 63"

lemma image_limits:
  assumes "image_ok base ro code rodata"
  shows "base < 2 ^ 64" "headers_offset ro rodata + 256 < 2 ^ 64" "names_offset ro rodata + 25 < 2 ^ 64"
    "length (image_of base ro code rodata) = headers_offset ro rodata + 256"
proof -
  have al: "align_up v 8 < v + 8" for v using align_up_props(3) [of 8 3 v] by simp
  have "headers_offset ro rodata < names_offset ro rodata + 33" "names_offset ro rodata < 136 + (ro + length rodata)"
    using al [of "names_offset ro rodata + 25"] al [of "128 + (ro + length rodata)"]
    by (simp_all add: headers_offset_def names_offset_def)
  with assms show "base < 2 ^ 64" "headers_offset ro rodata + 256 < 2 ^ 64" "names_offset ro rodata + 25 < 2 ^ 64"
    by (auto simp: image_ok_def)
  show "length (image_of base ro code rodata) = headers_offset ro rodata + 256"
    using assms offsets_ordered [of ro rodata] by (simp add: image_of_def Let_def image_ok_def)
qed

lemma image_ranges:
  fixes base :: nat and rodata :: "byte list"
  assumes "length code \<le> ro"
  defines "img \<equiv> image_of base ro code rodata"
  shows "get_range img 64 120 = Some (program_header_bytes (base - 128) (128 + (ro + length rodata)))"
    "get_range img 128 (128 + length code) = Some code"
    "get_range img (128 + ro) (128 + ro + length rodata) = Some rodata"
    "get_range img (names_offset ro rodata) (names_offset ro rodata + 25) = Some ELF_SECTION_NAMES"
    "get_range img (headers_offset ro rodata) (headers_offset ro rodata + 256) = Some
       (replicate 64 0 @ section_header_bytes 1 1 6 base 128 (length code) 4
            @ section_header_bytes 7 1 2 (base + ro) (128 + ro) (length rodata) 8
            @ section_header_bytes 15 3 0 0 (names_offset ro rodata) 25 1)"
proof -
  define names headers where nh: "names = names_offset ro rodata" "headers = headers_offset ro rodata"
  let ?z = "\<lambda>k. replicate k (0 :: byte)"
  let ?eh = "elf_header_bytes base headers" and ?ph = "program_header_bytes (base - 128) (128 + (ro + length rodata))"
  let ?p1 = "?z (names - (128 + (ro + length rodata)))" and ?p2 = "?z (headers - (names + 25))"
    and ?gap = "?z (ro - length code)"
    and ?sh = "replicate 64 0 @ section_header_bytes 1 1 6 base 128 (length code) 4
            @ section_header_bytes 7 1 2 (base + ro) (128 + ro) (length rodata) 8
            @ section_header_bytes 15 3 0 0 names 25 1"
  have ord: "128 + (ro + length rodata) \<le> names" "names + 25 \<le> headers"
    using offsets_ordered [of ro rodata] by (simp_all add: nh)
  have img: "img = ?eh @ ?ph @ ?z 8 @ code @ ?gap @ rodata @ ?p1 @ ELF_SECTION_NAMES @ ?p2 @ ?sh"
    by (simp add: img_def image_of_def Let_def nh)
  note lens = assms(1) ord
  have "get_range (?eh @ ?ph @ (?z 8 @ code @ ?gap @ rodata @ ?p1 @ ELF_SECTION_NAMES @ ?p2 @ ?sh)) 64 120 = Some ?ph"
    by (rule get_range_middle) simp_all
  then show "get_range img 64 120 = Some ?ph" by (simp add: img)
  have "get_range ((?eh @ ?ph @ ?z 8) @ code @ (?gap @ rodata @ ?p1 @ ELF_SECTION_NAMES @ ?p2 @ ?sh)) 128 (128 + length code)
      = Some code"
    by (rule get_range_middle) simp_all
  then show "get_range img 128 (128 + length code) = Some code" by (simp add: img)
  have "get_range ((?eh @ ?ph @ ?z 8 @ code @ ?gap) @ rodata @ (?p1 @ ELF_SECTION_NAMES @ ?p2 @ ?sh))
      (128 + ro) (128 + ro + length rodata) = Some rodata"
    by (rule get_range_middle) (use lens in simp_all)
  then show "get_range img (128 + ro) (128 + ro + length rodata) = Some rodata" by (simp add: img)
  have "get_range ((?eh @ ?ph @ ?z 8 @ code @ ?gap @ rodata @ ?p1) @ ELF_SECTION_NAMES @ (?p2 @ ?sh)) names (names + 25)
      = Some ELF_SECTION_NAMES"
    by (rule get_range_middle) (use lens in simp_all)
  then show "get_range img (names_offset ro rodata) (names_offset ro rodata + 25) = Some ELF_SECTION_NAMES"
    by (simp add: img nh)
  have "get_range ((?eh @ ?ph @ ?z 8 @ code @ ?gap @ rodata @ ?p1 @ ELF_SECTION_NAMES @ ?p2) @ ?sh @ []) headers (headers + 256)
      = Some ?sh"
    by (rule get_range_middle) (use lens in simp_all)
  then show "get_range img (headers_offset ro rodata) (headers_offset ro rodata + 256) = Some
       (replicate 64 0 @ section_header_bytes 1 1 6 base 128 (length code) 4
            @ section_header_bytes 7 1 2 (base + ro) (128 + ro) (length rodata) 8
            @ section_header_bytes 15 3 0 0 (names_offset ro rodata) 25 1)"
    by (simp add: img nh)
qed

lemma image_segments:
  assumes "image_ok base ro code rodata"
  shows "read_segments (image_of base ro code rodata)
      \<lparr>eh_entry = base, eh_program_offset = 64, eh_section_offset = so, eh_program_entry_size = 56,
       eh_program_count = 1, eh_section_entry_size = 64, eh_section_count = 4, eh_shstr_index = 3\<rparr>
    = Inr [image_segment base ro rodata]"
proof -
  let ?img = "image_of base ro code rodata"
  have "checked_table ?img 64 56 1 = Inr (program_header_bytes (base - 128) (128 + (ro + length rodata)))"
    using image_ranges(1) [of code ro base rodata] assms
    by (simp add: checked_table_def checked_mul_u64_def checked_file_range_def checked_add_u64_def image_ok_def)
  moreover have "read_segment ?img (program_header_bytes (base - 128) (128 + (ro + length rodata)))
      = Inr (image_segment base ro rodata)"
    unfolding image_segment_def
  proof (rule program_header_reads)
    show "128 + (ro + length rodata) \<le> length ?img"
      using image_limits(4) [OF assms] offsets_ordered [of ro rodata] by simp
  qed (use assms in \<open>auto simp: image_ok_def\<close>)
  moreover have "segment_contains (image_segment base ro rodata) base"
    using assms by (auto simp: segment_contains_def image_segment_def saturating_add_u64_def image_ok_def)
  moreover have "seg_flags (image_segment base ro rodata) AND PF_X \<noteq> 0"
    by (simp add: image_segment_def)
  ultimately show ?thesis by (simp add: read_segments_def table_entries_def chunks_exact_simps)
qed

lemma image_sections:
  assumes "image_ok base ro code rodata"
  shows "read_sections (image_of base ro code rodata)
      \<lparr>eh_entry = base, eh_program_offset = 64, eh_section_offset = headers_offset ro rodata, eh_program_entry_size = 56,
       eh_program_count = 1, eh_section_entry_size = 64, eh_section_count = 4, eh_shstr_index = 3\<rparr>
    = Inr [rodata_section base ro rodata, names_section ro rodata, text_section base code]"
proof -
  let ?img = "image_of base ro code rodata" and ?names = "names_offset ro rodata"
  let ?t = "section_header_bytes 1 1 6 base 128 (length code) 4"
    and ?r = "section_header_bytes 7 1 2 (base + ro) (128 + ro) (length rodata) 8"
    and ?n = "section_header_bytes 15 3 0 0 ?names 25 1"
  have le: "length code \<le> ro" using assms by (simp add: image_ok_def)
  note lim = image_limits [OF assms] and ord = offsets_ordered [of ro rodata]
  have table: "checked_table ?img (headers_offset ro rodata) 64 4 = Inr (replicate 64 0 @ ?t @ ?r @ ?n)"
    using image_ranges(5) [OF le, of base rodata] lim(2)
    by (simp add: checked_table_def checked_mul_u64_def checked_file_range_def checked_add_u64_def)
  have last: "get_range (replicate 64 0 @ ?t @ ?r @ ?n) 192 256 = Some ?n"
    using get_range_middle [of 192 "replicate 64 0 @ ?t @ ?r" 256 ?n "[]"] by simp
  have strings: "checked_file_range ?img ?names 25 = Inr ELF_SECTION_NAMES"
    using image_ranges(4) [OF le, of base rodata] lim(3)
    by (simp add: checked_file_range_def checked_add_u64_def)
  have chunks: "chunks_exact 64 (replicate 64 0 @ ?t @ ?r @ ?n) = [replicate 64 0, ?t, ?r, ?n]"
    by (simp add: chunks_exact_simps)
  have t: "read_section ?img ELF_SECTION_NAMES ?t = Inr (text_section base code)"
    using read_section_header [of 6 base "length code" 128 ?img 1 1 "str_bytes ''.text''" 4] assms lim ord
    by (simp add: text_section_def image_ok_def)
  have r: "read_section ?img ELF_SECTION_NAMES ?r = Inr (rodata_section base ro rodata)"
    using read_section_header [of 2 "base + ro" "length rodata" "128 + ro" ?img 1 7 "str_bytes ''.rodata''" 8] assms lim ord
    by (simp add: rodata_section_def image_ok_def)
  have n: "read_section ?img ELF_SECTION_NAMES ?n = Inr (names_section ro rodata)"
    using read_section_header [of 0 0 25 ?names ?img 3 15 "str_bytes ''.shstrtab''" 1] lim ord
    by (simp add: names_section_def)
  have sorted: "sort_key sec_name [text_section base code, rodata_section base ro rodata, names_section ro rodata]
      = [rodata_section base ro rodata, names_section ro rodata, text_section base code]"
    by (rule sort_sections) (simp_all add: text_section_def rodata_section_def names_section_def)
  have nreads: "read_u32 ?n 4 = Inr 3" "read_u64 ?n 8 = Inr 0" "read_u64 ?n 16 = Inr 0" "read_u64 ?n 24 = Inr ?names"
    "read_u64 ?n 32 = Inr 25"
    using section_header_reads [of 0 0 ?names 25 15 3 1] lim(3) by simp_all
  have "read_section_table ?img ELF_SECTION_NAMES [replicate 64 0, ?t, ?r, ?n]
      = Inr [text_section base code, rodata_section base ro rodata, names_section ro rodata]"
    by (simp add: read_section_table_def t r n del: One_nat_def)
  then show ?thesis
    unfolding read_sections_def table_entries_def
    by (simp add: table last nreads strings chunks sorted ok_or_def Let_def del: One_nat_def cong: rbind_weak_cong)
      (simp add: windows2_eq_def text_section_def rodata_section_def names_section_def str_bytes_def)
qed

lemma image_check_sections:
  assumes "image_ok base ro code rodata"
  shows "check_sections base [image_segment base ro rodata]
      [rodata_section base ro rodata, names_section ro rodata, text_section base code]
    = Inr (text_section base code, rodata_section base ro rodata)"
proof -
  have "mapped_section (image_segment base ro rodata) (text_section base code)"
    "mapped_section (image_segment base ro rodata) (rodata_section base ro rodata)"
    using assms by (auto simp: mapped_section_def image_segment_def text_section_def rodata_section_def image_ok_def
        segment_contains_range_def saturating_add_u64_def checked_sub_u64_def checked_add_u64_def)
  then show ?thesis
    using assms
    by (auto simp: check_sections_def ok_or_def text_section_def rodata_section_def names_section_def str_bytes_def
        image_ok_def sec_range_def range_contains_def saturating_add_u64_def)
qed

lemma parse_image:
  assumes "image_ok base ro code rodata"
  shows "parse_elf (image_of base ro code rodata) max_instructions
    = rbind (if length code div 4 > max_instructions then elf_fail BudgetExceeded
             else rbind (validate_instructions code base \<lparr>rng_start = base, rng_end = base + length code\<rparr>) (\<lambda>decoded.
                  rbind (check_flows (dt_instructions decoded) base (dt_control_flow decoded)) (\<lambda>_. Ok decoded)))
        (\<lambda>decoded.
          Ok \<lparr>pe_entry = base,
              pe_sections = [rodata_section base ro rodata, names_section ro rodata, text_section base code],
              pe_segments = [image_segment base ro rodata],
              pe_text = text_section base code, pe_rodata = rodata_section base ro rodata,
              pe_instruction_count = length code div 4,
              pe_instructions = dt_instructions decoded, pe_stack_adjustments = dt_stack_adjustments decoded,
              pe_syscall_addresses = dt_syscall_addresses decoded, pe_control_flow = dt_control_flow decoded\<rparr>)"
proof -
  let ?img = "image_of base ro code rodata"
  have lim: "headers_offset ro rodata < 2 ^ 64" "base < 2 ^ 64" using image_limits [OF assms] by simp_all
  have header: "check_ident ?img = Inr ()" "read_header ?img = Inr \<lparr>eh_entry = base, eh_program_offset = 64,
      eh_section_offset = headers_offset ro rodata, eh_program_entry_size = 56, eh_program_count = 1,
      eh_section_entry_size = 64, eh_section_count = 4, eh_shstr_index = 3\<rparr>"
    using elf_header_reads [OF lim(2,1)] image_prefix by metis+
  have "checked_file_range ?img 128 (length code) = Inr code"
    using image_ranges(2) [of code ro base rodata] assms
    by (simp add: checked_file_range_def checked_add_u64_def image_ok_def)
  moreover have "sec_range (text_section base code) = \<lparr>rng_start = base, rng_end = base + length code\<rparr>"
    using assms by (simp add: sec_range_def text_section_def saturating_add_u64_def image_ok_def)
  ultimately have "decode_text ?img max_instructions (text_section base code)
     = (if length code div 4 > max_instructions then elf_fail BudgetExceeded
        else rbind (validate_instructions code base \<lparr>rng_start = base, rng_end = base + length code\<rparr>) (\<lambda>decoded.
             rbind (check_flows (dt_instructions decoded) base (dt_control_flow decoded)) (\<lambda>_. Ok decoded)))"
    by (simp add: decode_text_def) (simp add: text_section_def)
  moreover have "sec_size (text_section base code) = length code" by (simp add: text_section_def)
  ultimately show ?thesis
    by (simp only: parse_elf_def header image_segments [OF assms] image_sections [OF assms]
        image_check_sections [OF assms] rbind.simps prod.case elf_header.simps)
qed



section \<open>Assembled programs\<close>

lemma fixed_li_allowed:
  assumes "encode_fixed_li_sequence rd imm = Inr bs" "li_signed_i64 imm = Some imm" "li_fits_lui_addi_rv64 imm" "rd < 32"
  shows "words_allowed bs" "length bs = 8"
proof -
  from assms(1-3) obtain hi lo w where d: "encode_i_type 0x13 rd 0 rd lo = Inr w"
    "bs = u32_le (encode_u_type 0x37 rd hi) @ u32_le w"
    by (auto simp: encode_fixed_li_sequence_def)
  then show "length bs = 8" by simp
  show "words_allowed bs"
    using allowed_i_type [OF d(1) assms(4,4)] allowed_u_type [OF assms(4)] by (simp add: d(2))
qed

lemma start_trampoline_parts:
  assumes "start_trampoline lines p layout entry = Inr bs"
  obtains enter exit where "bs = enter @ exit @ u32_le encode_ecall" "encode_fixed_li_sequence 17 93 = Inr exit"
    "if entry_requires_explicit_parameter_abi lines entry then encode_fixed_li_sequence 10 25 = Inr enter
     else \<exists>t. symbol_address p entry layout = Inr t \<and> encode_call_sequence (text_base layout) t = Inr enter"
  using assms by (auto simp: start_trampoline_def split: if_splits)

lemma trampoline_allowed:
  assumes "start_trampoline lines p layout entry = Inr bs"
  shows "words_allowed bs"
proof -
  obtain enter exit where parts: "bs = enter @ exit @ u32_le encode_ecall" "encode_fixed_li_sequence 17 93 = Inr exit"
    "if entry_requires_explicit_parameter_abi lines entry then encode_fixed_li_sequence 10 25 = Inr enter
     else \<exists>t. symbol_address p entry layout = Inr t \<and> encode_call_sequence (text_base layout) t = Inr enter"
    by (rule start_trampoline_parts [OF assms])
  have "words_allowed enter \<and> length enter = 8"
    using parts(3) fixed_li_allowed [OF _ small_literals(1,3), of 10 enter]
    by (auto dest: address_allowed encode_sequences_length split: if_splits)
  moreover have "words_allowed exit" "length exit = 8"
    using fixed_li_allowed [OF parts(2) small_literals(2,4)] by simp_all
  ultimately show ?thesis by (simp add: parts(1) words_allowed_append allowed_ecall)
qed

lemma assembled_code_ok:
  assumes elf: "assemble_elf_internal lines = Inr elf" and mp: "build_plan lines = Inr mp"
    and code: "code_only (text_ops (plan_parsed mp))"
  obtains entry tramp user rodata where "entry_label (plan_parsed mp) = Some entry"
    "start_trampoline lines (plan_parsed mp) (plan_layout mp) entry = Inr tramp" "length tramp = 20"
    "encode_section (plan_parsed mp) Text tramp (plan_layout mp) 20 = Inr (tramp @ user)"
    "encode_section (plan_parsed mp) Rodata [] (plan_layout mp) 0 = Inr rodata"
    "length user = section_size (plan_parsed mp) Text" "length rodata = section_size (plan_parsed mp) Rodata"
    "elf = image_of 0x10000 (align_up (20 + section_size (plan_parsed mp) Text) 8) (tramp @ user) rodata"
    "words_allowed (tramp @ user)" "length (tramp @ user) mod 4 = 0"
proof -
  obtain entry tramp user rodata where a: "entry_label (plan_parsed mp) = Some entry"
    "start_trampoline lines (plan_parsed mp) (plan_layout mp) entry = Inr tramp" "length tramp = 20"
    "encode_section (plan_parsed mp) Text tramp (plan_layout mp) 20 = Inr (tramp @ user)"
    "encode_section (plan_parsed mp) Rodata [] (plan_layout mp) 0 = Inr rodata"
    "length user = section_size (plan_parsed mp) Text" "length rodata = section_size (plan_parsed mp) Rodata"
    "elf = image_of 0x10000 (align_up (20 + section_size (plan_parsed mp) Text) 8) (tramp @ user) rodata"
    by (rule assembled_image [OF elf mp code_padded_alike [OF code]])
  note tramp = trampoline_allowed [OF a(2)]
  obtain R where p: "from_lines_with_branch_mode lines (Exact R) = Inr (plan_parsed mp)" by (rule plan_text [OF mp])
  obtain bs where bs: "run_emit (op_bytes (plan_parsed mp) Text (plan_layout mp) (length tramp)) 0 0
      (section_ops (plan_parsed mp) Text) = Inr bs" "tramp @ user = tramp @ bs"
    using encode_section_run [of "plan_parsed mp" Text tramp "plan_layout mp"] a(3,4) by auto
  have "words_allowed user \<and> length user mod 4 = 0"
    using run_emit_allowed [OF bs(1)] code from_lines_ops_ok [OF p, of _ Text] bs(2) by (simp add: section_ops_def)
  moreover have "(20 + n) mod 4 = 0" if "n mod 4 = 0" for n :: nat using that by presburger
  ultimately have "words_allowed (tramp @ user)" "length (tramp @ user) mod 4 = 0"
    using tramp a(3) by (simp_all add: words_allowed_append)
  then show ?thesis by (rule that [OF a])
qed

text \<open>What the checker makes of an image once its text has been decoded.\<close>

definition decode_code :: "byte list \<Rightarrow> nat \<Rightarrow> nat \<Rightarrow> decoded_text elf" where
  "decode_code code base max_instructions =
     (if length code div 4 > max_instructions then elf_fail BudgetExceeded
      else rbind (validate_instructions code base \<lparr>rng_start = base, rng_end = base + length code\<rparr>) (\<lambda>decoded.
           rbind (check_flows (dt_instructions decoded) base (dt_control_flow decoded)) (\<lambda>_. Ok decoded)))"

definition parsed_image :: "nat \<Rightarrow> nat \<Rightarrow> byte list \<Rightarrow> byte list \<Rightarrow> decoded_text \<Rightarrow> parsed_elf" where
  "parsed_image base ro code rodata decoded =
     \<lparr>pe_entry = base,
      pe_sections = [rodata_section base ro rodata, names_section ro rodata, text_section base code],
      pe_segments = [image_segment base ro rodata],
      pe_text = text_section base code, pe_rodata = rodata_section base ro rodata,
      pe_instruction_count = length code div 4,
      pe_instructions = dt_instructions decoded, pe_stack_adjustments = dt_stack_adjustments decoded,
      pe_syscall_addresses = dt_syscall_addresses decoded, pe_control_flow = dt_control_flow decoded\<rparr>"

lemma assembled_parse:
  assumes "assemble_elf_internal lines = Inr elf" "build_plan lines = Inr mp" "code_only (text_ops (plan_parsed mp))"
    "section_size (plan_parsed mp) Text + section_size (plan_parsed mp) Rodata < 2 ^ 62"
  obtains entry tramp code rodata where "entry_label (plan_parsed mp) = Some entry"
    "start_trampoline lines (plan_parsed mp) (plan_layout mp) entry = Inr tramp"
    "encode_section (plan_parsed mp) Text tramp (plan_layout mp) 20 = Inr code"
    "encode_section (plan_parsed mp) Rodata [] (plan_layout mp) 0 = Inr rodata"
    "words_allowed code" "length code = 20 + section_size (plan_parsed mp) Text"
    "get_range elf 128 (128 + length code) = Some code"
    "\<forall>m. parse_elf elf m = rbind (decode_code code 0x10000 m) (\<lambda>decoded.
       Ok (parsed_image 0x10000 (align_up (length code) 8) code rodata decoded))"
proof -
  obtain entry tramp user rodata where enc: "entry_label (plan_parsed mp) = Some entry"
      "start_trampoline lines (plan_parsed mp) (plan_layout mp) entry = Inr tramp"
      "encode_section (plan_parsed mp) Text tramp (plan_layout mp) 20 = Inr (tramp @ user)"
      "encode_section (plan_parsed mp) Rodata [] (plan_layout mp) 0 = Inr rodata"
    and "length tramp = 20" "length user = section_size (plan_parsed mp) Text"
    "length rodata = section_size (plan_parsed mp) Rodata"
    and elf: "elf = image_of 0x10000 (align_up (20 + section_size (plan_parsed mp) Text) 8) (tramp @ user) rodata"
    and ok: "words_allowed (tramp @ user)" "length (tramp @ user) mod 4 = 0"
    by (rule assembled_code_ok [OF assms(1-3)])
  then have len: "length (tramp @ user) = 20 + section_size (plan_parsed mp) Text"
    "length rodata = section_size (plan_parsed mp) Rodata" by simp_all
  let ?code = "tramp @ user" and ?ro = "align_up (length (tramp @ user)) 8"
  have elf': "elf = image_of 0x10000 ?ro ?code rodata" by (simp only: elf len)
  have ro: "length ?code \<le> ?ro" "?ro < length ?code + 8"
    using align_up_props(2,3) [of 8 3 "length ?code"] by simp_all
  have "image_ok 0x10000 ?ro ?code rodata"
    unfolding image_ok_def using ok(2) ro len assms(4) by auto
  from parse_image [OF this] have "parse_elf elf m = rbind (decode_code ?code 0x10000 m) (\<lambda>decoded.
       Ok (parsed_image 0x10000 ?ro ?code rodata decoded))" for m
    unfolding elf' decode_code_def parsed_image_def .
  moreover have "get_range elf 128 (128 + length ?code) = Some ?code"
    unfolding elf' by (rule image_ranges(2) [OF ro(1)])
  ultimately show ?thesis using that [OF enc ok(1) len(1)] by blast
qed

section \<open>Properties\<close>

text \<open>
  C4: Round trip through the container, for programs whose text section holds only labels and
  instructions (\<open>code_only\<close>) and whose sections are below 2^62 bytes. The checker reads an assembled file
  back as it was written: all header, segment, section and mapping checks of \<^verbatim>\<open>parse_elf\<close> pass, the text
  section it decodes is the trampoline followed by the encoded program, the read-only data is the
  encoded one, and every word of the text is on the instruction allowlist. What can still reject
  the file is only the decoding of the words themselves (the budget, the stack-pointer discipline,
  returns and control-flow targets).
\<close>
theorem assembled_container_accepted:
  assumes "assemble_elf_internal lines = Inr elf" "build_plan lines = Inr mp" "code_only (text_ops (plan_parsed mp))"
    "section_size (plan_parsed mp) Text + section_size (plan_parsed mp) Rodata < 2 ^ 62"
  shows "\<exists>entry tramp code rodata. entry_label (plan_parsed mp) = Some entry
    \<and> start_trampoline lines (plan_parsed mp) (plan_layout mp) entry = Inr tramp
    \<and> encode_section (plan_parsed mp) Text tramp (plan_layout mp) 20 = Inr code
    \<and> encode_section (plan_parsed mp) Rodata [] (plan_layout mp) 0 = Inr rodata
    \<and> length code = 20 + section_size (plan_parsed mp) Text
    \<and> get_range elf 128 (128 + length code) = Some code
    \<and> (\<forall>w \<in> set (text_words code). instruction_is_allowed w)
    \<and> (\<forall>m. parse_elf elf m = rbind (decode_code code 0x10000 m) (\<lambda>decoded.
         Ok (parsed_image 0x10000 (align_up (length code) 8) code rodata decoded)))"
proof -
  obtain entry tramp code rodata where "entry_label (plan_parsed mp) = Some entry"
    "start_trampoline lines (plan_parsed mp) (plan_layout mp) entry = Inr tramp"
    "encode_section (plan_parsed mp) Text tramp (plan_layout mp) 20 = Inr code"
    "encode_section (plan_parsed mp) Rodata [] (plan_layout mp) 0 = Inr rodata"
    "words_allowed code" "length code = 20 + section_size (plan_parsed mp) Text"
    "get_range elf 128 (128 + length code) = Some code"
    "\<forall>m. parse_elf elf m = rbind (decode_code code 0x10000 m) (\<lambda>decoded.
       Ok (parsed_image 0x10000 (align_up (length code) 8) code rodata decoded))"
    by (rule assembled_parse [OF assms])
  then show ?thesis
    unfolding words_allowed_def list_all_iff
    by (intro exI [of _ entry] exI [of _ tramp] exI [of _ code] exI [of _ rodata] conjI)
qed

theorem assembled_container_accepted_witness:
  "\<exists>tramp code. encode_section (plan_parsed sample_plan) Text tramp (plan_layout sample_plan) 20 = Inr code
     \<and> get_range sample_image 128 (128 + length code) = Some code \<and> length code = 32
     \<and> instruction_is_allowed (text_words code ! 7)"
proof -
  have "code_only (text_ops (plan_parsed sample_plan))"
    by (simp add: code_only_def sample_plan_def sample_parsed_def sample_op_def)
  moreover have sizes: "section_size (plan_parsed sample_plan) Text = 12" "section_size (plan_parsed sample_plan) Rodata = 0"
    by (simp_all add: sample_plan_def sample_parsed_def section_size_def)
  ultimately obtain tramp code where
    "encode_section (plan_parsed sample_plan) Text tramp (plan_layout sample_plan) 20 = Inr code"
    "length code = 20 + section_size (plan_parsed sample_plan) Text"
    "get_range sample_image 128 (128 + length code) = Some code" "\<forall>w \<in> set (text_words code). instruction_is_allowed w"
    using assembled_container_accepted [OF sample_assembled sample_build_plan] by auto
  then have "encode_section (plan_parsed sample_plan) Text tramp (plan_layout sample_plan) 20 = Inr code"
    "get_range sample_image 128 (128 + length code) = Some code" "length code = 32"
    "\<forall>w \<in> set (text_words code). instruction_is_allowed w"
    using sizes(1) by simp_all
  moreover from this have "text_words code ! 7 \<in> set (text_words code)"
    by (intro nth_mem) (simp add: length_text_words)
  ultimately show ?thesis by blast
qed

text \<open>
  C28: Every instruction the encoder can emit is on the checker's allowlist, whatever its operands.
\<close>
theorem emitted_words_admitted:
  assumes "encode_instruction inst pc p layout relaxed = Inr bs" "regs_ok inst"
  shows "\<forall>w \<in> set (text_words bs). instruction_is_allowed w"
  using instruction_allowed [OF assms] by (simp add: words_allowed_def list_all_iff)

theorem emitted_words_admitted_witness: "instruction_is_allowed 0x00008067"
proof -
  have "encode_instruction IRet 0 sample_parsed (for_text_user_size 12) False = Inr (u32_le 0x00008067)"
    by (simp add: eval_simps)
  from emitted_words_admitted [OF this] have "\<forall>w \<in> set (text_words (u32_le 0x00008067)). instruction_is_allowed w"
    by simp
  then show ?thesis using text_words_Cons [of "0x00008067" "[]"] by simp
qed

text \<open>
  C15: The checker decodes the target the encoder was given. A direct branch, a relaxed branch (its
  inverted branch skips the jump, its jump goes to the target), a jump and a call (to an even address) all
  decode to the address of their label.
\<close>
theorem decoded_targets_agree:
  assumes "symbol_address p l layout = Inr t" "t < 2 ^ 63" "pc < 2 ^ 63" "rs1 < 32" "rs2 < 32" "funct3 \<in> {0, 1, 4, 5, 6, 7}"
  shows "(\<forall>bs. encode_branch (rs1, rs2, l, funct3) pc p layout False = Inr bs \<longrightarrow>
            (\<exists>w. bs = u32_le w \<and> branch_target pc w = t))
    \<and> (\<forall>bs. encode_branch (rs1, rs2, l, funct3) pc p layout True = Inr bs \<longrightarrow>
            (\<exists>w1 w2. bs = u32_le w1 @ u32_le w2 \<and> branch_target pc w1 = pc + 8 \<and> jal_target (pc + 4) w2 = t))
    \<and> (\<forall>bs rel. encode_instruction (IJump l) pc p layout rel = Inr bs \<longrightarrow>
            (\<exists>w. bs = u32_le w \<and> jal_target pc w = t))
    \<and> (\<forall>bs rel. encode_instruction (ICall l) pc p layout rel = Inr bs \<longrightarrow> even t \<longrightarrow>
            (\<exists>w1 w2. bs = u32_le w1 @ u32_le w2 \<and> decode_call_target bs 1 w2 (pc + 4) = Inr t))"
proof (intro conjI allI impI)
  have t: "t < 2 ^ 64" "pc + 8 < 2 ^ 64" using assms(2,3) by simp_all
  have f3: "bits_below 3 funct3" using assms(6) by auto
  note rel = relative_offset_Ok
  {
    fix bs assume "encode_branch (rs1, rs2, l, funct3) pc p layout False = Inr bs"
    then obtain w where "encode_b_type 0x63 funct3 rs1 rs2 (int t - int pc) = Inr w" "bs = u32_le w"
      using assms(1) by (auto simp: encode_branch_def rel)
    with decoded_branch [OF _ assms(4,5) f3 _ t(1), of "int t - int pc"]
    show "\<exists>w. bs = u32_le w \<and> branch_target pc w = t" by auto
  next
    fix bs assume "encode_branch (rs1, rs2, l, funct3) pc p layout True = Inr bs"
    then obtain w1 w2 inv3 where d: "encode_b_type 0x63 inv3 rs1 rs2 8 = Inr w1" "bs = u32_le w1 @ u32_le w2"
      "encode_j_type 0x6f 0 (int t - int (pc + 4)) = Inr w2" "inverse_branch_funct3 funct3 = Some inv3"
      using assms(1) by (auto simp: encode_branch_def rel split: option.splits)
    from d(4) have "bits_below 3 inv3" by (auto simp: inverse_branch_funct3_def split: if_splits)
    with decoded_branch [OF d(1) assms(4,5) _ _ t(2)] decoded_jump [OF d(3) _ t(1), of "pc + 4"] d(2)
    show "\<exists>w1 w2. bs = u32_le w1 @ u32_le w2 \<and> branch_target pc w1 = pc + 8 \<and> jal_target (pc + 4) w2 = t" by auto
  next
    fix bs rel assume "encode_instruction (IJump l) pc p layout rel = Inr bs"
    then obtain w where "encode_j_type 0x6f 0 (int t - int pc) = Inr w" "bs = u32_le w"
      using assms(1) by (auto simp: relative_offset_Ok)
    with decoded_jump [OF _ _ t(1), of "int t - int pc" w pc] show "\<exists>w. bs = u32_le w \<and> jal_target pc w = t" by auto
  next
    fix bs rel assume "encode_instruction (ICall l) pc p layout rel = Inr bs" and even: "even t"
    then have "encode_call_sequence pc t = Inr bs" using assms(1) by simp
    from call_target_encode [OF this even t(1)]
    show "\<exists>w1 w2. bs = u32_le w1 @ u32_le w2 \<and> decode_call_target bs 1 w2 (pc + 4) = Inr t" by metis
  }
qed

theorem decoded_targets_agree_witness:
  "\<exists>w. nat_to_le 4 0x0080006f = u32_le w \<and> jal_target 0x10014 w = 0x1001c"
proof -
  have sym: "symbol_address sample_parsed ''.Lzero'' (for_text_user_size 12) = Inr 0x1001c"
    by (simp add: sample_parsed_def eval_simps)
  have "encode_instruction (IJump ''.Lzero'') 0x10014 sample_parsed (for_text_user_size 12) False
      = Inr (nat_to_le 4 0x0080006f)"
    by (simp add: sample_parsed_def eval_simps)
  with decoded_targets_agree [OF sym, of "0x10014" 0 0 0] show ?thesis by fastforce
qed

text \<open>
  C29: The start trampoline enters and leaves the program. It is 20 bytes long; from the first address of
  the text it calls the entry point with the return address 0x10008 (or, where the entry needs explicit
  parameters, loads the error code 25 instead); when control comes back to that address it
  loads the number 93 of the exit system call and reaches the \<^verbatim>\<open>ecall\<close>, with all other registers kept.
\<close>
theorem trampoline_enters_and_exits:
  assumes "start_trampoline lines p layout entry = Inr bs" "text_base layout = 0x10000" "loaded mem 0x10000 bs"
  shows "length bs = 20 \<and> mem 0x10010 = Some 0x00000073
    \<and> (\<forall>st. rv_pc st = 0x10008 \<longrightarrow> rv_run 2 mem st = Some (rv_goto 0x10010 (rv_set 17 93 st)))
    \<and> (if entry_requires_explicit_parameter_abi lines entry
       then \<forall>st. rv_pc st = 0x10000 \<longrightarrow> rv_run 2 mem st = Some (rv_goto 0x10008 (rv_set 10 25 st))
       else \<exists>t. symbol_address p entry layout = Inr t \<and> (even t \<longrightarrow>
         (\<forall>st. rv_pc st = 0x10000 \<longrightarrow> rv_run 2 mem st = Some (rv_goto (word_of_nat t) (rv_set 1 0x10008 st)))))"
proof -
  obtain enter exit where parts: "bs = enter @ exit @ u32_le encode_ecall" "encode_fixed_li_sequence 17 93 = Inr exit"
    "if entry_requires_explicit_parameter_abi lines entry then encode_fixed_li_sequence 10 25 = Inr enter
     else \<exists>t. symbol_address p entry layout = Inr t \<and> encode_call_sequence (text_base layout) t = Inr enter"
    by (rule start_trampoline_parts [OF assms(1)])
  have len: "length enter = 8" "length exit = 8"
    using parts(3) fixed_li_allowed(2) [OF _ small_literals(1,3), of 10 enter]
      fixed_li_allowed(2) [OF parts(2) small_literals(2,4)]
    by (auto dest: encode_sequences_length split: if_splits)
  have "loaded mem 0x10000 enter" "loaded mem 0x10008 exit" "loaded mem 0x10010 (u32_le encode_ecall)"
    using assms(3) len loaded_append [of enter mem "0x10000"] loaded_append [of exit mem "0x10008"]
    by (simp_all add: parts(1))
  then have ld: "loaded mem 0x10000 enter" "loaded mem 0x10008 exit" "mem 0x10010 = Some 0x00000073"
    by (simp_all only: loaded_single encode_ecall_def)
  have "rv_run 2 mem st = Some (rv_goto 0x10010 (rv_set 17 93 st))" if "rv_pc st = 0x10008" for st
    using run_fixed_li [OF parts(2) small_literals(2,4), of mem st] that ld(2) by simp
  moreover have "rv_run 2 mem st = Some (rv_goto 0x10008 (rv_set 10 25 st))"
    if "rv_pc st = 0x10000" "encode_fixed_li_sequence 10 25 = Inr enter" for st
    using run_fixed_li [OF that(2) small_literals(1,3), of mem st] that(1) ld(1) by simp
  moreover have "rv_run 2 mem st = Some (rv_goto (word_of_nat t) (rv_set 1 0x10008 st))"
    if "rv_pc st = 0x10000" "encode_call_sequence (text_base layout) t = Inr enter" "even t" for st t
    using run_call [OF that(2,3), of st mem] that(1) ld(1) assms(2) by simp
  ultimately show ?thesis
    using parts(3) ld(3) start_trampoline_length [OF assms(1)] by (auto split: if_splits)
qed

theorem trampoline_enters_and_exits_witness:
  "rv_run 2 [0x10000 \<mapsto> 0x00000097, 0x10004 \<mapsto> 0x014080e7, 0x10008 \<mapsto> 0x000008b7, 0x1000c \<mapsto> 0x05d88893, 0x10010 \<mapsto> 0x00000073]
     \<lparr>rv_pc = 0x10008, rv_regs = (\<lambda>_. 0)\<rparr> = Some (rv_goto 0x10010 (rv_set 17 93 \<lparr>rv_pc = 0x10008, rv_regs = (\<lambda>_. 0)\<rparr>))"
proof -
  let ?mem = "[0x10000 \<mapsto> 0x00000097, 0x10004 \<mapsto> 0x014080e7, 0x10008 \<mapsto> 0x000008b7, 0x1000c \<mapsto> 0x05d88893,
    0x10010 \<mapsto> 0x00000073 :: u32]"
  have take: "take 20 sample_code
      = u32_le 0x00000097 @ u32_le 0x014080e7 @ u32_le 0x000008b7 @ u32_le 0x05d88893 @ u32_le 0x00000073"
    by (simp add: sample_code_def)
  have "loaded ?mem 0x10000 (take 20 sample_code)"
    unfolding take by (simp only: loaded_Cons loaded_single) simp
  moreover have "text_base (for_text_user_size 12) = 0x10000" by (simp add: for_text_user_size_def Let_def)
  ultimately have "\<forall>st. rv_pc st = 0x10008 \<longrightarrow> rv_run 2 ?mem st = Some (rv_goto 0x10010 (rv_set 17 93 st))"
    using trampoline_enters_and_exits [OF sample_trampoline, of ?mem] by blast
  then show ?thesis by simp
qed

end
