(* ===== verification/Policy_Witness.thy ===== *)
theory Policy_Witness
  imports Rust_Str "HOL-Library.List_Lexorder" "HOL-Library.Product_Lexorder"
begin

text \<open>
  The host codec for the multi-policy witness envelope, \<^verbatim>\<open>src/policy_witness.rs\<close>: a magic, a
  table of record offsets and the records themselves, each with four fixed field offsets. The decoder
  accepts the canonical layout only; the lemmas show that it accepts exactly what the encoder writes
  and gives the records back, in their canonical order.
\<close>

section \<open>Data\<close>

abbreviation (input) MAX_POLICY_WITNESS_BYTES :: nat where "MAX_POLICY_WITNESS_BYTES \<equiv> 4096"
abbreviation (input) MAX_POLICY_WITNESS_BUNDLE_BYTES :: nat where
  "MAX_POLICY_WITNESS_BUNDLE_BYTES \<equiv> MAX_POLICY_WITNESS_BYTES - 20"
abbreviation (input) MAX_POLICY_WITNESS_RECORDS :: nat where "MAX_POLICY_WITNESS_RECORDS \<equiv> 8"
abbreviation (input) RECORD_HEADER_BYTES :: nat where "RECORD_HEADER_BYTES \<equiv> 20"
abbreviation (input) RECORD_FIXED_BYTES :: nat where "RECORD_FIXED_BYTES \<equiv> 61"

definition POLICY_WITNESS_MAGIC :: "byte list" where
  "POLICY_WITNESS_MAGIC = str_bytes ''CSPOLv1'' @ [0]"

definition ENTRY_ARGS_MAGIC :: "byte list" where
  "ENTRY_ARGS_MAGIC = str_bytes ''CSARGv1'' @ [0]"

datatype policy_script_role = RoleLock | RoleType

datatype policy_witness_error =
    RecordCount nat
  | SizeLimit
  | InvalidMagic
  | InvalidStructure string
  | UnknownRole byte
  | DuplicateKey
  | NonCanonicalOrder
  | InvalidArgsMagic

type_synonym 'a pw = "policy_witness_error + 'a"

definition as_byte :: "policy_script_role \<Rightarrow> byte" where
  "as_byte role = (case role of RoleLock \<Rightarrow> 0 | RoleType \<Rightarrow> 1)"

definition from_byte :: "byte \<Rightarrow> policy_script_role pw" where
  "from_byte value =
     (if value = 0 then Ok RoleLock else if value = 1 then Ok RoleType else Err (UnknownRole value))"

text \<open>A script hash is an array of 32 bytes; \<open>record_wf\<close> states the length.\<close>

record policy_record =
  pw_role :: policy_script_role
  pw_script_hash :: "byte list"
  pw_tag :: u32
  pw_args :: "byte list"

definition record_wf :: "policy_record \<Rightarrow> bool" where
  "record_wf r \<longleftrightarrow> length (pw_script_hash r) = 32"

text \<open>The derived order of the roles is that of their bytes; arrays compare lexicographically.\<close>

definition record_key :: "policy_record \<Rightarrow> byte \<times> byte list" where
  "record_key r = (as_byte (pw_role r), pw_script_hash r)"

section \<open>Integers and checks\<close>

definition pw_read_u32 :: "byte list \<Rightarrow> nat \<Rightarrow> nat pw" where
  "pw_read_u32 encoded offset =
     rbind (ok_or (InvalidStructure ''integer offset overflow'') (checked_add_u64 offset 4)) (\<lambda>e.
     rbind (ok_or (InvalidStructure ''truncated u32'') (get_range encoded offset e)) (\<lambda>bytes.
       Ok (le_to_nat bytes)))"

definition pw_write_u32 :: "nat \<Rightarrow> byte list" where
  "pw_write_u32 value = nat_to_le 4 value"

definition validate_record_count :: "nat \<Rightarrow> unit pw" where
  "validate_record_count count =
     (if \<not> (1 \<le> count \<and> count \<le> MAX_POLICY_WITNESS_RECORDS) then Err (RecordCount count) else Ok ())"

definition validate_args :: "byte list \<Rightarrow> unit pw" where
  "validate_args args =
     (if args \<noteq> [] \<and> \<not> starts_with args ENTRY_ARGS_MAGIC then Err InvalidArgsMagic else Ok ())"

section \<open>Encoding\<close>

fun bundle_size :: "nat \<Rightarrow> policy_record list \<Rightarrow> nat pw" where
  "bundle_size total_bytes [] = Ok total_bytes"
| "bundle_size total_bytes (record # ordered) =
     rbind (validate_args (pw_args record)) (\<lambda>_.
     rbind (ok_or SizeLimit
         (case Option.bind (checked_add_u64 total_bytes RECORD_FIXED_BYTES)
                 (\<lambda>len_sum. checked_add_u64 len_sum (length (pw_args record))) of
            Some len_sum \<Rightarrow> if len_sum \<le> MAX_POLICY_WITNESS_BUNDLE_BYTES then Some len_sum else None
          | None \<Rightarrow> None)) (\<lambda>total_bytes.
       bundle_size total_bytes ordered))"

fun write_offsets :: "nat \<Rightarrow> policy_record list \<Rightarrow> byte list" where
  "write_offsets offset [] = []"
| "write_offsets offset (record # ordered) =
     pw_write_u32 offset @ write_offsets (offset + (RECORD_FIXED_BYTES + length (pw_args record))) ordered"

definition write_record :: "policy_record \<Rightarrow> byte list" where
  "write_record record =
     pw_write_u32 (RECORD_FIXED_BYTES + length (pw_args record))
     @ concat (map pw_write_u32 [RECORD_HEADER_BYTES, 21, 53, 57])
     @ [as_byte (pw_role record)] @ pw_script_hash record @ u32_le (pw_tag record)
     @ pw_write_u32 (length (pw_args record)) @ pw_args record"

definition duplicate_key :: "policy_record list \<Rightarrow> bool" where
  "duplicate_key ordered \<longleftrightarrow> (\<exists>(a, b) \<in> set (zip ordered (tl ordered)). record_key a = record_key b)"

definition encode_policy_witness_bundle :: "policy_record list \<Rightarrow> byte list pw" where
  "encode_policy_witness_bundle records =
     rbind (validate_record_count (length records)) (\<lambda>_.
     let ordered = sort_key record_key records in
     if duplicate_key ordered then Err DuplicateKey
     else let header_bytes = 4 * (length records + 1) in
     rbind (bundle_size (length POLICY_WITNESS_MAGIC + header_bytes) ordered) (\<lambda>total_bytes.
       Ok (POLICY_WITNESS_MAGIC @ pw_write_u32 (total_bytes - length POLICY_WITNESS_MAGIC)
           @ write_offsets header_bytes ordered @ concat (map write_record ordered))))"

section \<open>Decoding\<close>

fun check_offsets :: "byte list \<Rightarrow> nat \<Rightarrow> nat list \<Rightarrow> unit pw" where
  "check_offsets encoded index [] = Ok ()"
| "check_offsets encoded index (expected # rest) =
     rbind (pw_read_u32 encoded (4 * (index + 1))) (\<lambda>v.
       if v \<noteq> expected
       then Err (InvalidStructure ''record must have exactly the four fixed v1 field offsets'')
       else check_offsets encoded (Suc index) rest)"

text \<open>The fixed indices and ranges are inside the record: its length is checked first.\<close>

definition decode_record :: "byte list \<Rightarrow> policy_record pw" where
  "decode_record encoded =
     (let mismatch = Err (InvalidStructure ''record total size does not match its range'') in
      if length encoded < RECORD_FIXED_BYTES then mismatch
      else rbind (pw_read_u32 encoded 0) (\<lambda>len_sum.
        if len_sum \<noteq> length encoded then mismatch
        else rbind (check_offsets encoded 0 [RECORD_HEADER_BYTES, 21, 53, 57]) (\<lambda>_.
          rbind (from_byte (encoded ! 20)) (\<lambda>role.
          let script_hash = take (53 - 21) (drop 21 encoded);
              tag = u32_of_le (take (57 - 53) (drop 53 encoded)) in
          rbind (pw_read_u32 encoded 57) (\<lambda>len.
            if len \<noteq> length encoded - RECORD_FIXED_BYTES
            then Err (InvalidStructure ''args Bytes length does not match its range'')
            else let args = drop RECORD_FIXED_BYTES encoded in
              rbind (validate_args args) (\<lambda>_.
                Ok \<lparr>pw_role = role, pw_script_hash = script_hash, pw_tag = tag, pw_args = args\<rparr>))))))"

text \<open>The loop over the record indices; the records read so far stand in \<open>records\<close>.\<close>

fun decode_records :: "byte list \<Rightarrow> nat \<Rightarrow> nat \<Rightarrow> nat list \<Rightarrow> policy_record list \<Rightarrow> policy_record list pw" where
  "decode_records vector first_offset count [] records = Ok records"
| "decode_records vector first_offset count (index # indices) records =
     rbind (pw_read_u32 vector (4 * (index + 1))) (\<lambda>start.
     rbind (if index + 1 = count then Ok (length vector) else pw_read_u32 vector (4 * (index + 2))) (\<lambda>e.
       if start < first_offset \<or> e \<le> start \<or> length vector < e
       then Err (InvalidStructure ''invalid or overlapping record offsets'')
       else rbind (decode_record (take (e - start) (drop start vector))) (\<lambda>record.
         if records \<noteq> [] \<and> record_key (last records) = record_key record then Err DuplicateKey
         else if records \<noteq> [] \<and> record_key record < record_key (last records) then Err NonCanonicalOrder
         else decode_records vector first_offset count indices (records @ [record]))))"

definition decode_policy_witness_bundle :: "byte list \<Rightarrow> policy_record list pw" where
  "decode_policy_witness_bundle encoded =
     (if MAX_POLICY_WITNESS_BUNDLE_BYTES < length encoded then Err SizeLimit
      else rbind (ok_or InvalidMagic (strip_prefix POLICY_WITNESS_MAGIC encoded)) (\<lambda>vector.
      rbind (pw_read_u32 vector 0) (\<lambda>len_sum.
        if len_sum \<noteq> length vector
        then Err (InvalidStructure ''DynVec total size does not match the bundle'')
        else if length vector = 4 then Err (RecordCount 0)
        else rbind (pw_read_u32 vector 4) (\<lambda>first_offset.
          if first_offset < 8 \<or> first_offset mod 4 \<noteq> 0 \<or> length vector < first_offset
          then Err (InvalidStructure ''invalid DynVec header'')
          else let count = first_offset div 4 - 1 in
            rbind (validate_record_count count) (\<lambda>_.
              decode_records vector first_offset count [0..<count] [])))))"

definition selected_record :: "policy_record list \<Rightarrow> policy_script_role \<Rightarrow> byte list \<Rightarrow> policy_record option" where
  "selected_record records role script_hash =
     List.find (\<lambda>r. pw_role r = role \<and> pw_script_hash r = script_hash) records"

section \<open>Records\<close>

lemma length_pw_write_u32 [simp]: "length (pw_write_u32 v) = 4"
  by (simp add: pw_write_u32_def)

lemma length_write_record: "record_wf r \<Longrightarrow> length (write_record r) = 61 + length (pw_args r)"
  by (simp add: write_record_def record_wf_def)

lemma from_byte_as_byte [simp]: "from_byte (as_byte role) = Ok role"
  by (cases role) (simp_all add: from_byte_def as_byte_def)

lemma as_byte_from_byte: "from_byte v = Inr role \<Longrightarrow> as_byte role = v"
  by (auto simp: from_byte_def as_byte_def split: if_splits)

lemma as_byte_inject [simp]: "as_byte a = as_byte b \<longleftrightarrow> a = b"
  by (cases a; cases b) (simp_all add: as_byte_def)

text \<open>Reading a number that stands at an offset.\<close>

lemma pw_read_append:
  assumes "length a = off" "v < 2 ^ 32" "off + 4 < 2 ^ 64"
  shows "pw_read_u32 (a @ pw_write_u32 v @ b) off = Inr v"
  using assms by (simp add: pw_read_u32_def checked_add_u64_def get_range_def pw_write_u32_def le_to_nat_nat_to_le)

lemma pw_read_Ok:
  "pw_read_u32 bs off = Inr v \<Longrightarrow> off + 4 \<le> length bs \<and> take 4 (drop off bs) = pw_write_u32 v \<and> v < 2 ^ 32"
proof -
  assume r: "pw_read_u32 bs off = Inr v"
  then have len: "off + 4 \<le> length bs" and v: "v = le_to_nat (take 4 (drop off bs))"
    by (auto simp: pw_read_u32_def checked_add_u64_def get_range_def split: if_splits)
  then have "length (take 4 (drop off bs)) = 4" by simp
  with v nat_to_le_le_to_nat [of "take 4 (drop off bs)" 4] le_to_nat_bound [of "take 4 (drop off bs)"] len
  show ?thesis by (simp add: pw_write_u32_def)
qed

lemma decode_write_record:
  assumes "record_wf r" "validate_args (pw_args r) = Inr ()" "61 + length (pw_args r) < 2 ^ 32"
  shows "decode_record (write_record r) = Inr r"
proof -
  let ?n = "length (pw_args r)" and ?bs = "write_record r"
  let ?tail = "[as_byte (pw_role r)] @ pw_script_hash r @ u32_le (pw_tag r) @ pw_write_u32 ?n @ pw_args r"
  have bs: "?bs = pw_write_u32 (61 + ?n) @ pw_write_u32 20 @ pw_write_u32 21 @ pw_write_u32 53 @ pw_write_u32 57 @ ?tail"
    by (simp add: write_record_def)
  have hash: "length (pw_script_hash r) = 32" using assms(1) by (simp add: record_wf_def)
  have len: "length ?bs = 61 + ?n" by (rule length_write_record [OF assms(1)])
  have small: "(61 + ?n) mod 256 ^ 4 = 61 + ?n" "?n mod 256 ^ 4 = ?n" using assms(3) by simp_all
  note reads = pw_read_u32_def checked_add_u64_def get_range_def pw_write_u32_def le_to_nat_nat_to_le ok_or_def
  have "pw_read_u32 ?bs 0 = Inr (61 + ?n)" "pw_read_u32 ?bs 57 = Inr ?n"
    using hash small len by (simp_all add: bs reads)
  moreover have "check_offsets ?bs 0 [20, 21, 53, 57] = Inr ()"
    using len by (simp add: bs reads)
  moreover have "?bs ! 20 = as_byte (pw_role r)" by (simp add: bs nth_append)
  moreover have "take 32 (drop 21 ?bs) = pw_script_hash r" "take 4 (drop 53 ?bs) = u32_le (pw_tag r)"
    "drop 61 ?bs = pw_args r" using hash by (simp_all add: bs)
  ultimately show ?thesis using assms(2) len
    by (simp add: decode_record_def)
qed

lemma take_drop_join: "j = i + k \<Longrightarrow> take k (drop i xs) @ drop j xs = drop i xs"
  using append_take_drop_id [of k "drop i xs"] by (simp add: add.commute)

lemma write_decode_record:
  assumes "decode_record bs = Inr r"
  shows "bs = write_record r" "record_wf r" "validate_args (pw_args r) = Inr ()" "61 + length (pw_args r) < 2 ^ 32"
proof -
  let ?n = "length bs - 61"
  have len: "61 \<le> length bs" using assms by (auto simp: decode_record_def Let_def split: if_splits)
  from assms have r: "pw_read_u32 bs 0 = Inr (length bs)" "check_offsets bs 0 [20, 21, 53, 57] = Inr ()"
    "from_byte (bs ! 20) = Inr (pw_role r)" "pw_script_hash r = take 32 (drop 21 bs)"
    "pw_tag r = u32_of_le (take 4 (drop 53 bs))" "pw_read_u32 bs 57 = Inr ?n" "pw_args r = drop 61 bs"
    "validate_args (pw_args r) = Inr ()"
    by (auto simp: decode_record_def Let_def split: if_splits)
  show "validate_args (pw_args r) = Inr ()" by (rule r(8))
  show "61 + length (pw_args r) < 2 ^ 32" using pw_read_Ok [OF r(1)] len by (simp add: r(7))
  show "record_wf r" using len by (simp add: record_wf_def r(4))
  have offs: "pw_read_u32 bs 4 = Inr 20" "pw_read_u32 bs 8 = Inr 21" "pw_read_u32 bs 12 = Inr 53" "pw_read_u32 bs 16 = Inr 57"
    using r(2) by (auto simp: numeral_eq_Suc split: if_splits)
  note at = pw_read_Ok [OF r(1)] pw_read_Ok [OF offs(1)] pw_read_Ok [OF offs(2)] pw_read_Ok [OF offs(3)]
    pw_read_Ok [OF offs(4)] pw_read_Ok [OF r(6)]
  have "bs = take 4 (drop 0 bs) @ take 4 (drop 4 bs) @ take 4 (drop 8 bs) @ take 4 (drop 12 bs) @ take 4 (drop 16 bs)
      @ take 1 (drop 20 bs) @ take 32 (drop 21 bs) @ take 4 (drop 53 bs) @ take 4 (drop 57 bs) @ drop 61 bs"
    by (simp add: take_drop_join)
  moreover have "take 1 (drop 20 bs) = [as_byte (pw_role r)]"
    using len as_byte_from_byte [OF r(3)] Cons_nth_drop_Suc [of 20 bs, symmetric] by simp
  moreover have "u32_le (pw_tag r) = take 4 (drop 53 bs)"
    unfolding r(5) using len by (intro u32_le_u32_of_le) simp
  ultimately show "bs = write_record r"
    using at len r(4,7) by (simp add: write_record_def)
qed

section \<open>Canonical codecs\<close>

text \<open>
  What a canonical codec promises: decoding gives back the normal form of what was encoded, and only
  encodings of normal forms decode. Then the decoder accepts exactly the encoder's outputs, no two byte
  strings decode to the same value and no two values with different normal forms share an encoding.
\<close>

locale canonical_codec =
  fixes enc :: "'a \<Rightarrow> 'e + byte list" and dec :: "byte list \<Rightarrow> 'e + 'a" and norm :: "'a \<Rightarrow> 'a"
    and wf :: "'a \<Rightarrow> bool"
  assumes dec_enc: "wf x \<Longrightarrow> enc x = Inr b \<Longrightarrow> dec b = Inr (norm x)"
    and enc_dec: "dec b = Inr x \<Longrightarrow> enc x = Inr b \<and> norm x = x \<and> wf x"
begin

lemma accepts_exactly: "(\<exists>x. dec b = Inr x) \<longleftrightarrow> (\<exists>x. wf x \<and> enc x = Inr b)"
  using dec_enc enc_dec by blast

lemma dec_injective: "dec b = Inr x \<Longrightarrow> dec c = Inr x \<Longrightarrow> b = c"
  by (metis enc_dec sum.inject(2))

lemma enc_injective: "wf x \<Longrightarrow> wf y \<Longrightarrow> enc x = Inr b \<Longrightarrow> enc y = Inr b \<Longrightarrow> norm x = norm y"
  by (metis dec_enc sum.inject(2))

end

section \<open>The offset table\<close>

definition stored_size :: "policy_record list \<Rightarrow> nat" where
  "stored_size rs = sum_list (map (\<lambda>r. 61 + length (pw_args r)) rs)"

lemma stored_size_simps [simp]:
  "stored_size [] = 0" "stored_size (r # rs) = 61 + length (pw_args r) + stored_size rs"
  by (simp_all add: stored_size_def)

lemma length_write_offsets [simp]: "length (write_offsets off rs) = 4 * length rs"
  by (induction rs arbitrary: off) simp_all

lemma length_write_records:
  "list_all record_wf rs \<Longrightarrow> length (concat (map write_record rs)) = stored_size rs"
  by (induction rs) (simp_all add: length_write_record)

lemma bundle_size_Ok:
  "bundle_size t rs = Inr n \<longleftrightarrow>
     list_all (\<lambda>r. validate_args (pw_args r) = Inr ()) rs \<and> n = t + stored_size rs \<and> (rs = [] \<or> n \<le> 4076)"
proof (induction rs arbitrary: t)
  case (Cons r rs)
  let ?t = "t + (61 + length (pw_args r))"
  have "bundle_size t (r # rs) = Inr n \<longleftrightarrow>
      validate_args (pw_args r) = Inr () \<and> ?t \<le> 4076 \<and> bundle_size ?t rs = Inr n"
    by (auto simp: rbind_Ok_iff checked_add_u64_def add.assoc split: option.splits if_splits)
  also have "\<dots> \<longleftrightarrow> list_all (\<lambda>r. validate_args (pw_args r) = Inr ()) (r # rs) \<and> n = t + stored_size (r # rs) \<and> n \<le> 4076"
    by (auto simp: Cons.IH)
  finally show ?case by simp
qed auto

text \<open>
  The reading of entry \<open>j\<close> of the table, the end of the vector after the last one; and a vector that
  is tiled, from entry \<open>j\<close> at \<open>s\<close> on, by records.
\<close>

definition offset_at :: "byte list \<Rightarrow> nat \<Rightarrow> nat \<Rightarrow> nat pw" where
  "offset_at vector n j = (if j = n then Ok (length vector) else pw_read_u32 vector (4 * (j + 1)))"

fun tiles :: "byte list \<Rightarrow> nat \<Rightarrow> nat \<Rightarrow> nat \<Rightarrow> policy_record list \<Rightarrow> bool" where
  "tiles vector n j s [] \<longleftrightarrow> j = n \<and> s = length vector"
| "tiles vector n j s (r # rs) \<longleftrightarrow> j < n \<and> offset_at vector n j = Inr s \<and>
     (\<exists>e. s < e \<and> e \<le> length vector \<and> decode_record (take (e - s) (drop s vector)) = Inr r \<and> tiles vector n (Suc j) e rs)"

abbreviation strictly_ordered :: "policy_record list \<Rightarrow> bool" where
  "strictly_ordered \<equiv> sorted_wrt (\<lambda>a b. record_key a < record_key b)"

lemma strictly_ordered_snoc:
  assumes "strictly_ordered rs" "rs = [] \<or> record_key (last rs) < record_key r"
  shows "strictly_ordered (rs @ [r])"
proof (cases rs rule: rev_cases)
  case (snoc ys y)
  with assms show ?thesis by (auto simp: sorted_wrt_append dest: order.strict_trans)
qed simp

lemma decode_records_Ok:
  assumes "decode_records vector f n [i..<n] recs = Inr rs" "i \<le> n" "strictly_ordered recs" "offset_at vector n i = Inr s"
  shows "\<exists>new. rs = recs @ new \<and> tiles vector n i s new \<and> strictly_ordered rs"
  using assms
proof (induction "n - i" arbitrary: i recs s)
  case 0
  then show ?case by (auto simp: offset_at_def)
next
  case (Suc d)
  then have i: "i < n" by simp
  then have up: "[i..<n] = i # [Suc i..<n]" by (simp add: upt_rec)
  from Suc.prems(1) [unfolded up] Suc.prems(4) i obtain e r where
    e: "offset_at vector n (Suc i) = Inr e" "s < e" "e \<le> length vector"
      "decode_record (take (e - s) (drop s vector)) = Inr r" and
    keys: "recs = [] \<or> record_key (last recs) < record_key r" and
    rest: "decode_records vector f n [Suc i..<n] (recs @ [r]) = Inr rs"
    by (auto simp: offset_at_def not_less order.order_iff_strict split: if_splits)
  have "strictly_ordered (recs @ [r])" by (rule strictly_ordered_snoc [OF Suc.prems(3) keys])
  moreover have "d = n - Suc i" "Suc i \<le> n" using Suc.hyps(2) i by simp_all
  ultimately obtain new where "rs = (recs @ [r]) @ new" "tiles vector n (Suc i) e new" "strictly_ordered rs"
    using Suc.hyps(1) [of "Suc i" "recs @ [r]" e] rest e(1) by blast
  with e i Suc.prems(4) show ?case by (intro exI [of _ "r # new"]) auto
qed

lemma decode_records_tiles:
  assumes "tiles vector n i s new" "strictly_ordered (recs @ new)" "f \<le> s"
  shows "decode_records vector f n [i..<n] recs = Inr (recs @ new)"
  using assms
proof (induction new arbitrary: i s recs)
  case (Cons r new)
  from Cons.prems(1) obtain e where i: "i < n" and s: "offset_at vector n i = Inr s" and
    e: "s < e" "e \<le> length vector" "decode_record (take (e - s) (drop s vector)) = Inr r" "tiles vector n (Suc i) e new"
    by auto
  have e': "offset_at vector n (Suc i) = Inr e" using e(4) by (cases new) (auto simp: offset_at_def)
  have up: "[i..<n] = i # [Suc i..<n]" using i by (simp add: upt_rec)
  have key: "record_key (last recs) < record_key r" if "recs \<noteq> []"
    using Cons.prems(2) that by (simp add: sorted_wrt_append)
  have "decode_records vector f n [Suc i..<n] (recs @ [r]) = Inr ((recs @ [r]) @ new)"
    using Cons.prems(2,3) e(1) by (intro Cons.IH [OF e(4)]) simp_all
  with s e' e i Cons.prems(3) key show ?case
    by (auto simp: up offset_at_def split: if_splits dest: less_imp_neq order.asym)
qed auto

lemma tiles_layout:
  "tiles vector n j s rs \<Longrightarrow> drop s vector = concat (map write_record rs)
     \<and> take (4 * length rs) (drop (4 * (j + 1)) vector) = write_offsets s rs \<and> n = j + length rs
     \<and> list_all record_wf rs \<and> list_all (\<lambda>r. validate_args (pw_args r) = Inr ()) rs"
proof (induction rs arbitrary: j s)
  case (Cons r rs)
  then obtain e where j: "j < n" and s: "offset_at vector n j = Inr s" and
    e: "s < e" "e \<le> length vector" "decode_record (take (e - s) (drop s vector)) = Inr r" "tiles vector n (Suc j) e rs"
    by auto
  note w = write_decode_record [OF e(3)] and IH = Cons.IH [OF e(4)]
  have len: "e = s + (61 + length (pw_args r))"
    using e(1,2) w(1) length_write_record [OF w(2)] by (metis add_diff_inverse_nat length_drop length_take
        diff_le_mono min.absorb2 not_less_iff_gr_or_eq order.asym)
  have "drop s vector = take (e - s) (drop s vector) @ drop e vector"
    using e(1) by (intro take_drop_join [symmetric]) simp
  then have "drop s vector = concat (map write_record (r # rs))" using w(1) IH by simp
  moreover have "take (4 * length (r # rs)) (drop (4 * (j + 1)) vector) = write_offsets s (r # rs)"
  proof -
    have "pw_read_u32 vector (4 * (j + 1)) = Inr s" using s j by (simp add: offset_at_def)
    then have "take 4 (drop (4 * (j + 1)) vector) = pw_write_u32 s" using pw_read_Ok by blast
    moreover have "take (4 * length (r # rs)) (drop (4 * (j + 1)) vector)
        = take 4 (drop (4 * (j + 1)) vector) @ take (4 * length rs) (drop (4 * (Suc j + 1)) vector)"
      by (simp add: take_add algebra_simps)
    ultimately show ?thesis using IH by (simp add: len)
  qed
  ultimately show ?case using IH w(2,3) by simp
qed auto

lemma pw_read_at:
  "off + 4 \<le> length bs \<Longrightarrow> take 4 (drop off bs) = pw_write_u32 v \<Longrightarrow> v < 2 ^ 32 \<Longrightarrow> length bs < 2 ^ 63 \<Longrightarrow>
    pw_read_u32 bs off = Inr v"
  by (simp add: pw_read_u32_def checked_add_u64_def get_range_def pw_write_u32_def le_to_nat_nat_to_le ok_or_def)

lemma layout_tiles:
  assumes "drop s vector = concat (map write_record rs)" "take (4 * length rs) (drop (4 * (j + 1)) vector) = write_offsets s rs"
    "list_all record_wf rs" "list_all (\<lambda>r. validate_args (pw_args r) = Inr ()) rs" "length vector < 2 ^ 31" "s \<le> length vector"
  shows "tiles vector (j + length rs) j s rs"
  using assms
proof (induction rs arbitrary: j s)
  case (Cons r rs)
  let ?e = "s + (61 + length (pw_args r))"
  have wf: "record_wf r" "validate_args (pw_args r) = Inr ()" using Cons.prems(3,4) by simp_all
  have len: "length (drop s vector) = length (concat (map write_record (r # rs)))" by (simp only: Cons.prems(1))
  then have le: "?e \<le> length vector" using length_write_record [OF wf(1)] Cons.prems(6) by simp
  have part: "take (?e - s) (drop s vector) = write_record r"
    unfolding Cons.prems(1) using length_write_record [OF wf(1)] by simp
  have rest: "drop ?e vector = concat (map write_record rs)"
    using arg_cong [OF Cons.prems(1), of "drop (61 + length (pw_args r))"] length_write_record [OF wf(1)]
    by (simp add: add.commute)
  have "decode_record (take (?e - s) (drop s vector)) = Inr r"
    unfolding part using le Cons.prems(5) by (intro decode_write_record wf) simp
  moreover have table: "take 4 (drop (4 * (j + 1)) vector) = pw_write_u32 s"
    "take (4 * length rs) (drop (4 * (Suc j + 1)) vector) = write_offsets ?e rs"
  proof -
    have "take 4 (take (4 * length (r # rs)) (drop (4 * (j + 1)) vector)) = pw_write_u32 s"
      unfolding Cons.prems(2) by simp
    then show "take 4 (drop (4 * (j + 1)) vector) = pw_write_u32 s" by (simp add: min_def)
    have "drop 4 (take (4 * length (r # rs)) (drop (4 * (j + 1)) vector)) = write_offsets ?e rs"
      unfolding Cons.prems(2) by simp
    then show "take (4 * length rs) (drop (4 * (Suc j + 1)) vector) = write_offsets ?e rs"
      by (simp add: drop_take algebra_simps)
  qed
  moreover have "offset_at vector (j + length (r # rs)) j = Inr s"
  proof -
    have "length (take 4 (drop (4 * (j + 1)) vector)) = length (pw_write_u32 s)" by (simp only: table(1))
    then have "4 * (j + 1) + 4 \<le> length vector" by simp
    with pw_read_at [OF this table(1)] Cons.prems(5,6) show ?thesis by (simp add: offset_at_def)
  qed
  moreover have "tiles vector (Suc j + length rs) (Suc j) ?e rs"
    using Cons.prems(3-5) le by (intro Cons.IH rest table(2)) simp_all
  ultimately show ?case using le by (auto intro!: exI [of _ ?e])
qed simp

section \<open>Bundles\<close>

lemma strictly_ordered_sort: "strictly_ordered rs \<Longrightarrow> sort_key record_key rs = rs \<and> \<not> duplicate_key rs"
proof -
  assume rs: "strictly_ordered rs"
  have "sorted (map record_key rs)"
    using rs by (auto simp: sorted_map intro: sorted_wrt_mono_rel [OF _ rs] less_imp_le)
  moreover have "record_key (rs ! i) \<noteq> record_key (rs ! Suc i)" if "Suc i < length rs" for i
    using sorted_wrt_nth_less [OF rs, of i "Suc i"] that by auto
  then have "\<not> duplicate_key rs" by (auto simp: duplicate_key_def set_zip nth_tl)
  ultimately show ?thesis by (simp add: sort_key_id_if_sorted)
qed

lemma sort_strictly_ordered:
  assumes "\<not> duplicate_key (sort_key record_key rs)"
  shows "strictly_ordered (sort_key record_key rs)"
proof -
  let ?s = "sort_key record_key rs"
  have "record_key (?s ! i) < record_key (?s ! Suc i)" if "Suc i < length ?s" for i
  proof -
    have "record_key (?s ! i) \<le> record_key (?s ! Suc i)"
      using sorted_sort_key [of record_key rs] that by (simp add: sorted_iff_nth_Suc)
    moreover have "(?s ! i, ?s ! Suc i) \<in> set (zip ?s (tl ?s))"
      using that by (auto simp: set_zip nth_tl intro!: exI [of _ i])
    with assms have "record_key (?s ! i) \<noteq> record_key (?s ! Suc i)" unfolding duplicate_key_def by blast
    ultimately show ?thesis by (rule order.not_eq_order_implies_strict [rotated])
  qed
  then show ?thesis by (subst sorted_wrt_iff_nth_Suc_transp) (auto intro!: transpI)
qed

lemma magic_length [simp]: "length POLICY_WITNESS_MAGIC = 8"
  by (simp add: POLICY_WITNESS_MAGIC_def)

lemma encode_bundle_Ok:
  "encode_policy_witness_bundle records = Inr bs \<longleftrightarrow>
     (let rs = sort_key record_key records; h = 4 * (length records + 1) in
      1 \<le> length records \<and> length records \<le> 8 \<and> \<not> duplicate_key rs
      \<and> list_all (\<lambda>r. validate_args (pw_args r) = Inr ()) rs \<and> 8 + h + stored_size rs \<le> 4076
      \<and> bs = POLICY_WITNESS_MAGIC @ pw_write_u32 (h + stored_size rs) @ write_offsets h rs @ concat (map write_record rs))"
proof -
  have "sort_key record_key records \<noteq> []" if "1 \<le> length records" using that by (auto dest: arg_cong [of _ _ length])
  then show ?thesis
    by (auto simp: encode_policy_witness_bundle_def validate_record_count_def rbind_Ok_iff bundle_size_Ok Let_def
        add.assoc split: if_splits)
qed

lemma decode_encode_bundle:
  assumes "list_all record_wf records" "encode_policy_witness_bundle records = Inr bs"
  shows "decode_policy_witness_bundle bs = Inr (sort_key record_key records)"
proof -
  define rs where "rs = sort_key record_key records"
  define h where "h = 4 * (length records + 1)"
  define vector where "vector = pw_write_u32 (h + stored_size rs) @ write_offsets h rs @ concat (map write_record rs)"
  have len: "length rs = length records" and wf: "list_all record_wf rs"
    using assms(1) by (simp_all add: rs_def list_all_iff)
  from assms(2) have e: "1 \<le> length records" "length records \<le> 8" "\<not> duplicate_key rs"
      "list_all (\<lambda>r. validate_args (pw_args r) = Inr ()) rs" "8 + h + stored_size rs \<le> 4076"
      "bs = POLICY_WITNESS_MAGIC @ vector"
    by (simp_all add: encode_bundle_Ok Let_def rs_def h_def vector_def)
  have vlen: "length vector = h + stored_size rs"
    using length_write_records [OF wf] by (simp add: vector_def h_def len)
  have ord: "strictly_ordered rs" using sort_strictly_ordered e(3) by (simp add: rs_def)
  have tiles: "tiles vector (0 + length rs) 0 h rs"
    by (rule layout_tiles) (use wf e vlen in \<open>simp_all add: vector_def h_def len\<close>)
  have "decode_records vector h (length rs) [0..<length rs] [] = Inr ([] @ rs)"
    using decode_records_tiles [of vector "length rs" 0 h rs "[]" h] tiles ord by simp
  moreover have "pw_read_u32 vector 0 = Inr (length vector)"
  proof -
    have "take 4 (drop 0 vector) = pw_write_u32 (length vector)" unfolding vlen by (simp add: vector_def)
    from pw_read_at [OF _ this] e(5) vlen show ?thesis by (simp add: h_def)
  qed
  moreover have "pw_read_u32 vector 4 = Inr h"
  proof -
    obtain r rest where "rs = r # rest" using e(1) len by (cases rs) auto
    then have "take 4 (drop 4 vector) = pw_write_u32 h" by (simp add: vector_def)
    from pw_read_at [OF _ this] e(1,5) vlen show ?thesis by (simp add: h_def)
  qed
  moreover have "h mod 4 = 0" "h div 4 - 1 = length rs" "8 \<le> h" using e(1) by (simp_all add: h_def len)
  ultimately show ?thesis
    using e vlen len
    by (simp add: decode_policy_witness_bundle_def strip_prefix_def starts_with_prefix ok_or_def
        validate_record_count_def rs_def [symmetric])
qed

lemma encode_decode_bundle:
  assumes "decode_policy_witness_bundle bs = Inr rs"
  shows "encode_policy_witness_bundle rs = Inr bs \<and> sort_key record_key rs = rs \<and> list_all record_wf rs"
proof -
  from assms obtain vector f where v: "strip_prefix POLICY_WITNESS_MAGIC bs = Some vector" "length bs \<le> 4076"
    "pw_read_u32 vector 0 = Inr (length vector)" "pw_read_u32 vector 4 = Inr f" "f mod 4 = 0" "8 \<le> f" "f \<le> length vector"
    "1 \<le> f div 4 - 1" "f div 4 - 1 \<le> 8" "decode_records vector f (f div 4 - 1) [0..<f div 4 - 1] [] = Inr rs"
    by (auto simp: decode_policy_witness_bundle_def validate_record_count_def Let_def ok_or_def not_less
        split: if_splits option.splits)
  define n where "n = f div 4 - 1"
  have f: "f = 4 * (n + 1)" using v(5,6) unfolding n_def by auto
  have "n \<noteq> 0" using v(8) by (simp add: n_def)
  then have "offset_at vector n 0 = Inr f" using v(4) by (simp add: offset_at_def)
  from decode_records_Ok [OF v(10) [folded n_def] _ _ this] have t: "tiles vector n 0 f rs" "strictly_ordered rs"
    by auto
  note l = tiles_layout [OF t(1)] and s = strictly_ordered_sort [OF t(2)]
  have len: "length rs = n" using l by simp
  have vlen: "length vector = f + stored_size rs"
    using l length_write_records [of rs] v(7) by (metis le_add_diff_inverse length_drop)
  have a: "take 4 vector = pw_write_u32 (f + stored_size rs)" using pw_read_Ok [OF v(3)] vlen by simp
  have b: "take (4 * n) (drop 4 vector) = write_offsets f rs" and c: "drop f vector = concat (map write_record rs)"
    using l len by simp_all
  have "drop 4 vector = take (4 * n) (drop 4 vector) @ drop f vector"
    by (rule take_drop_join [symmetric]) (simp add: f)
  then have "vector = take 4 vector @ take (4 * n) (drop 4 vector) @ drop f vector"
    by (metis append_take_drop_id)
  also have "\<dots> = pw_write_u32 (f + stored_size rs) @ write_offsets f rs @ concat (map write_record rs)"
    by (simp only: a b c)
  finally have vector: "vector = pw_write_u32 (f + stored_size rs) @ write_offsets f rs @ concat (map write_record rs)" .
  have bs: "bs = POLICY_WITNESS_MAGIC @ vector" using v(1) by (simp add: strip_prefix_Some)
  have f': "f = 4 * (length rs + 1)" by (simp add: f len)
  have "1 \<le> length rs" "length rs \<le> 8" using v(8,9) by (simp_all add: len n_def)
  moreover have "8 + 4 * (length rs + 1) + stored_size rs \<le> 4076" using v(2) vlen by (simp add: bs f')
  moreover have "bs = POLICY_WITNESS_MAGIC @ pw_write_u32 (4 * (length rs + 1) + stored_size rs)
      @ write_offsets (4 * (length rs + 1)) rs @ concat (map write_record rs)"
    unfolding bs by (subst vector) (simp only: f')
  ultimately show ?thesis
    unfolding encode_bundle_Ok Let_def using s l by presburger
qed

section \<open>The codecs are canonical\<close>

definition record_encodable :: "policy_record \<Rightarrow> bool" where
  "record_encodable r \<longleftrightarrow> record_wf r \<and> validate_args (pw_args r) = Inr () \<and> 61 + length (pw_args r) < 2 ^ 32"

interpretation record_codec: canonical_codec "\<lambda>r. Ok (write_record r)" decode_record "\<lambda>r. r" record_encodable
proof unfold_locales
  fix r :: policy_record and bs
  assume "record_encodable r" "Ok (write_record r) = Ok bs"
  then show "decode_record bs = Inr r" using decode_write_record by (auto simp: record_encodable_def)
next
  fix bs r
  assume "decode_record bs = Inr r"
  from write_decode_record [OF this] show "Ok (write_record r) = Ok bs \<and> r = r \<and> record_encodable r"
    by (simp add: record_encodable_def)
qed

interpretation bundle_codec: canonical_codec encode_policy_witness_bundle decode_policy_witness_bundle
  "sort_key record_key" "list_all record_wf"
  by unfold_locales (fact decode_encode_bundle, fact encode_decode_bundle)

lemma strictly_ordered_unique:
  "strictly_ordered rs \<Longrightarrow> a \<in> set rs \<Longrightarrow> b \<in> set rs \<Longrightarrow> record_key a = record_key b \<Longrightarrow> a = b"
  by (induction rs) fastforce+

lemma decoded_strictly_ordered: "decode_policy_witness_bundle bs = Inr rs \<Longrightarrow> strictly_ordered rs"
  using encode_decode_bundle [of bs rs] sort_strictly_ordered [of rs] unfolding encode_bundle_Ok Let_def by argo

section \<open>Properties\<close>

text \<open>
  The records of the reference vector in the unit tests: a lock with tag 7 and one byte of arguments,
  and a type without arguments.
\<close>

definition golden_records :: "policy_record list" where
  "golden_records =
     [\<lparr>pw_role = RoleType, pw_script_hash = replicate 32 0x11, pw_tag = 0x01020304, pw_args = []\<rparr>,
      \<lparr>pw_role = RoleLock, pw_script_hash = replicate 32 0, pw_tag = 7, pw_args = ENTRY_ARGS_MAGIC @ [0xaa]\<rparr>]"

lemma golden_encodes:
  "list_all record_wf golden_records" "\<exists>bs. encode_policy_witness_bundle golden_records = Inr bs"
proof -
  show "list_all record_wf golden_records" by (simp add: golden_records_def record_wf_def)
  have "sort_key record_key golden_records = rev golden_records"
    by (simp add: golden_records_def record_key_def as_byte_def)
  then show "\<exists>bs. encode_policy_witness_bundle golden_records = Inr bs"
    by (simp add: encode_bundle_Ok Let_def)
      (simp add: golden_records_def duplicate_key_def record_key_def as_byte_def validate_args_def starts_with_prefix
        ENTRY_ARGS_MAGIC_def)
qed

text \<open>
  C8: A bundle survives the round trip. Whatever order the caller lists the records in, decoding what
  the encoder wrote gives the same records, ordered by role and script hash.
\<close>
theorem policy_bundle_roundtrip:
  assumes "list_all record_wf records" "encode_policy_witness_bundle records = Inr bs"
  shows "decode_policy_witness_bundle bs = Inr (sort_key record_key records)"
  using assms by (rule bundle_codec.dec_enc)

theorem policy_bundle_roundtrip_witness:
  "\<exists>bs. encode_policy_witness_bundle golden_records = Inr bs
     \<and> decode_policy_witness_bundle bs = Inr (sort_key record_key golden_records)"
  using policy_bundle_roundtrip [OF golden_encodes(1)] golden_encodes(2) by blast

text \<open>
  C14: The encoding is canonical. The decoder accepts a byte string exactly when the encoder writes it
  for the decoded records, which are then in canonical order with hashes of 32 bytes, and it accepts
  nothing but encodings: no offset, length, padding or trailing byte can be chosen differently.
\<close>
theorem policy_bundle_canonical:
  "(decode_policy_witness_bundle bs = Inr rs \<longleftrightarrow>
      encode_policy_witness_bundle rs = Inr bs \<and> sort_key record_key rs = rs \<and> list_all record_wf rs)
   \<and> ((\<exists>x. decode_policy_witness_bundle bs = Inr x) \<longleftrightarrow>
      (\<exists>x. list_all record_wf x \<and> encode_policy_witness_bundle x = Inr bs))"
  using bundle_codec.enc_dec [of bs rs] bundle_codec.dec_enc [of rs bs] bundle_codec.accepts_exactly [of bs] by auto

text \<open>
  C37: Selection is exact: among decoded records, the one selected for a role and a script hash is the
  only record with this role and hash, and nothing is selected only if there is none.
\<close>
theorem selected_record_exact:
  assumes "decode_policy_witness_bundle bs = Inr rs"
  shows "selected_record rs role script_hash = Some r \<longleftrightarrow>
    r \<in> set rs \<and> pw_role r = role \<and> pw_script_hash r = script_hash"
proof
  assume "selected_record rs role script_hash = Some r"
  then show "r \<in> set rs \<and> pw_role r = role \<and> pw_script_hash r = script_hash"
    by (auto simp: selected_record_def find_Some_iff)
next
  assume r: "r \<in> set rs \<and> pw_role r = role \<and> pw_script_hash r = script_hash"
  then obtain r' where r': "selected_record rs role script_hash = Some r'"
    by (cases "selected_record rs role script_hash") (auto simp: selected_record_def find_None_iff)
  then have "r' \<in> set rs" "record_key r' = record_key r"
    using r by (auto simp: selected_record_def find_Some_iff record_key_def)
  with strictly_ordered_unique [OF decoded_strictly_ordered [OF assms]] r r'
  show "selected_record rs role script_hash = Some r" by blast
qed

theorem selected_record_exact_witness:
  "selected_record (sort_key record_key golden_records) RoleLock (replicate 32 0) = Some (golden_records ! 1)"
proof -
  obtain bs where "decode_policy_witness_bundle bs = Inr (sort_key record_key golden_records)"
    using decode_encode_bundle [OF golden_encodes(1)] golden_encodes(2) by blast
  from selected_record_exact [OF this, of RoleLock "replicate 32 0" "golden_records ! 1"] show ?thesis
    by (simp add: golden_records_def)
qed

end
