(* ===== verification/Ir_Data.thy ===== *)
theory Ir_Data
  imports Cs_Prelude
begin

text \<open>
  The data of the intermediate representation that the back end reads
  (\<^verbatim>\<open>src/src/ir/mod.rs\<close>, \<^verbatim>\<open>src/src/ir/call_target.rs\<close>): types, variables, operands,
  instructions, blocks and bodies, with the source's constructors. Payloads that no modelled
  function looks into (view types, selection contracts, allocated-value requests, runtime helper
  ids, source patterns) are of the parameter type \<open>'p\<close>.
\<close>

section \<open>Types, variables and operands\<close>

datatype 'p ir_type =
    U8 | U16 | U32 | I32 | U64 | U128 | Bool | Unit | Address | Hash
  | Array "'p ir_type" nat
  | Tuple "'p ir_type list"
  | Named string
  | Applied 'p
  | Selection 'p
  | Vector "'p ir_type option"
  | Context 'p
  | Bounded 'p
  | Commitment "'p ir_type"
  | Opening "'p ir_type"
  | OpenHandle 'p
  | WitnessBytes 'p
  | Nested 'p
  | Ref "'p ir_type"
  | MutRef "'p ir_type"

record 'p ir_var =
  var_id :: nat
  var_name :: string
  var_ty :: "'p ir_type"

datatype ir_const =
    CUnit
  | CU8 "8 word"
  | CU16 "16 word"
  | CU32 "32 word"
  | CU64 "64 word"
  | CU128 "128 word"
  | CBool bool
  | CAddress "byte list"
  | CHash "byte list"
  | CArray "ir_const list"

datatype 'p ir_operand = Var "'p ir_var" | Const ir_const

datatype param_source = Default | Input | Output | Protected | Witness | LockArgs

record 'p ir_param =
  param_name :: string
  param_ty :: "'p ir_type"
  is_mut :: bool
  is_ref :: bool
  is_read_ref :: bool
  param_source :: param_source
  binding :: "'p ir_var"

section \<open>Instructions\<close>

datatype binary_op =
    Add | Sub | Mul | Div | Mod | Eq | Ne | Lt | Le | Gt | Ge | And | Or
  | BitAnd | BitOr | BitXor | Shl | Shr

datatype unary_op = Neg | Not | OpRef | Deref

datatype ir_destruction_policy =
    DestroyDefault
  | DestroySingletonType
  | DestroyUnique string
  | DestroyInstance string
  | BurnAmount string

datatype ir_identity_policy =
    IdentityNone | CkbTypeId | IdentityField string | ScriptArgs | IdentitySingletonType

record 'p create_pattern =
  create_operation :: string
  create_ty :: string
  create_binding :: string
  create_fields :: "(string \<times> 'p ir_operand) list"
  create_lock :: "'p ir_operand option"
  create_identity :: ir_identity_policy

datatype cell_metadata_field = LockHash | Capacity

datatype 'p ir_call_target = Function string | Runtime 'p | InvalidRuntime string

fun function_symbol :: "'p ir_call_target \<Rightarrow> string option" where
  "function_symbol (Function symbol) = Some symbol"
| "function_symbol (Runtime _) = None"
| "function_symbol (InvalidRuntime _) = None"

datatype 'p ir_instruction =
    LoadConst "'p ir_var" ir_const
  | LoadVar "'p ir_var" string
  | StoreVar string "'p ir_operand"
  | Binary "'p ir_var" binary_op "'p ir_operand" "'p ir_operand"
  | Unary "'p ir_var" unary_op "'p ir_operand"
  | FieldAccess "'p ir_var" "'p ir_operand" string
  | Index "'p ir_var" "'p ir_operand" "'p ir_operand"
  | Length "'p ir_var" "'p ir_operand"
  | TypeHash "'p ir_var" "'p ir_operand"
  | AllocatedValue 'p
  | CollectionNew "'p ir_var" "'p ir_type" "'p ir_operand option"
  | CollectionCapacity "'p ir_var" "'p ir_operand"
  | CollectionPush "'p ir_operand" "'p ir_operand"
  | CollectionExtend "'p ir_operand" "'p ir_operand"
  | CollectionClear "'p ir_operand"
  | CollectionContains "'p ir_var" "'p ir_operand" "'p ir_operand"
  | CollectionRemove "'p ir_var" "'p ir_operand" "'p ir_operand"
  | CollectionInsert "'p ir_operand" "'p ir_operand" "'p ir_operand"
  | CollectionSet "'p ir_operand" "'p ir_operand" "'p ir_operand"
  | CollectionPop "'p ir_var" "'p ir_operand"
  | CollectionReverse "'p ir_operand"
  | CollectionTruncate "'p ir_operand" "'p ir_operand"
  | CollectionSwap "'p ir_operand" "'p ir_operand" "'p ir_operand"
  | BoundedCellLoad "'p ir_var" "'p ir_var" "'p ir_operand" nat string nat
  | VerifyExactCellRoles "'p ir_var option" 'p
  | ReadExactCellRole "'p ir_var" "'p ir_operand" u32 'p "'p ir_operand option"
  | BoundedPlanLoad "'p ir_var" "'p ir_var" "'p ir_operand" "'p ir_operand" nat string nat
  | BoundedOutputVerify "'p ir_operand" "'p create_pattern" "64 word"
  | BoundedOutputEnd "'p ir_operand"
  | Call "'p ir_var option" "'p ir_call_target" "'p ir_operand list"
  | ReadRef "'p ir_var" string
  | Move "'p ir_var" "'p ir_operand"
  | TupleOf "'p ir_var" "'p ir_operand list"
  | EnumConstruct "'p ir_var" string string "'p ir_operand list"
  | EnumTag "'p ir_var" "'p ir_operand" string
  | EnumPayload "'p ir_var" "'p ir_operand" string string nat
  | Consume "'p ir_operand"
  | Create "'p ir_var" "'p create_pattern"
  | Transfer "'p ir_var" "'p ir_operand" "'p ir_operand"
  | Destroy "'p ir_operand" ir_destruction_policy
  | Claim "'p ir_var" "'p ir_operand"
  | Settle "'p ir_var" "'p ir_operand"
  | CreateUnique "'p ir_var" "'p create_pattern" ir_identity_policy
  | ReplaceUnique "'p ir_var" "'p ir_operand" "'p create_pattern" ir_identity_policy
  | CellMetadataEquality "'p ir_operand" "'p ir_operand" cell_metadata_field

section \<open>Blocks and bodies\<close>

datatype 'p ir_terminator =
    Return "'p ir_operand option"
  | Jump nat
  | Branch "'p ir_operand" nat nat

record 'p ir_basic_block =
  block_id :: nat
  block_instructions :: "'p ir_instruction list"
  block_terminator :: "'p ir_terminator"
  runtime_error :: "'p option"

record 'p ir_body =
  cell_bindings :: "'p list"
  consume_set :: "'p list"
  read_refs :: "'p list"
  create_set :: "'p create_pattern list"
  mutate_set :: "'p list"
  write_intents :: "'p list"
  bounded_collection_ops :: "'p list"
  borrow_regions :: "'p list"
  trusted_external_calls :: "'p list"
  enforced_claims :: "'p list"
  zk_origins :: "'p list"
  body_blocks :: "'p ir_basic_block list"

text \<open>The calling contract that code generation keeps per callable (\<^verbatim>\<open>CallableAbi\<close>).\<close>

record 'p callable_abi =
  abi_params :: "'p ir_param list"
  checked_scalar_parameters :: bool
  type_hash_param_indices :: "nat set"
  runtime_bound_param_indices :: "nat set"
  bounded_plan_param_indices :: "nat set"
  return_buffer_bytes :: "nat option"

end
