(* ===== verification/Scalar_Slots.thy ===== *)
theory Scalar_Slots
  imports Ir_Data
begin

text \<open>
  The scalar stack-slot allocator of the code generator
  (\<^verbatim>\<open>src/src/codegen/scalar_slots.rs\<close>): classification of a function body, backward
  liveness over its control-flow graph, the interference graph and the greedy colouring. A
  \<^verbatim>\<open>BTreeSet<usize>\<close> is its strictly ascending list of elements and a
  \<^verbatim>\<open>BTreeMap<usize, _>\<close> its association list with ascending keys. A lookup of a missing
  key panics, the liveness loop is a partial function (\<open>None\<close>: it never returns), and both are
  shown not to happen.
\<close>

section \<open>Ordered sets and maps\<close>

type_synonym variables = "nat list"
type_synonym effect = "variables \<times> variables"
type_synonym 'a btree_map = "(nat \<times> 'a) list"

fun set_insert :: "nat \<Rightarrow> variables \<Rightarrow> variables" where
  "set_insert x [] = [x]"
| "set_insert x (y # ys) = (if x < y then x # y # ys else if x = y then y # ys else y # set_insert x ys)"

definition set_extend :: "variables \<Rightarrow> variables \<Rightarrow> variables" where
  "set_extend xs ys = fold set_insert ys xs"

definition set_difference :: "variables \<Rightarrow> variables \<Rightarrow> variables" where
  "set_difference xs ys = filter (\<lambda>x. x \<notin> set ys) xs"

fun map_insert :: "nat \<Rightarrow> 'a \<Rightarrow> 'a btree_map \<Rightarrow> 'a btree_map" where
  "map_insert k v [] = [(k, v)]"
| "map_insert k v ((k', v') # m) =
     (if k < k' then (k, v) # (k', v') # m
      else if k = k' then (k, v) # m
      else (k', v') # map_insert k v m)"

text \<open>How a run ends early: the function declines (\<open>return None\<close>), or it panics.\<close>

datatype stop = Declined | Panicked

definition map_index :: "'a btree_map \<Rightarrow> nat \<Rightarrow> stop + 'a" where
  "map_index m k = ok_or Panicked (map_of m k)"

definition ascending :: "variables \<Rightarrow> bool" where
  "ascending xs \<longleftrightarrow> sorted_wrt (<) xs"

lemma set_set_insert [simp]: "set (set_insert x xs) = insert x (set xs)"
  by (induction xs) auto

lemma ascending_set_insert [simp]: "ascending xs \<Longrightarrow> ascending (set_insert x xs)"
  by (induction xs) (auto simp: ascending_def)

lemma set_set_extend [simp]: "set (set_extend xs ys) = set xs \<union> set ys"
  by (induction ys arbitrary: xs) (auto simp: set_extend_def)

lemma ascending_set_extend [simp]: "ascending xs \<Longrightarrow> ascending (set_extend xs ys)"
  by (induction ys arbitrary: xs) (auto simp: set_extend_def)

lemma set_set_difference [simp]: "set (set_difference xs ys) = set xs - set ys"
  by (auto simp: set_difference_def)

lemma ascending_set_difference [simp]: "ascending xs \<Longrightarrow> ascending (set_difference xs ys)"
  by (simp add: ascending_def set_difference_def sorted_wrt_filter)

lemma ascending_Nil [simp]: "ascending []"
  by (simp add: ascending_def)

lemma ascending_distinct: "ascending xs \<Longrightarrow> distinct xs"
  by (simp add: ascending_def strict_sorted_iff)

lemma ascending_unique: "ascending xs \<Longrightarrow> ascending ys \<Longrightarrow> set xs = set ys \<Longrightarrow> xs = ys"
  by (simp add: ascending_def strict_sorted_equal)

lemma map_of_map_insert [simp]: "map_of (map_insert k v m) = (map_of m)(k \<mapsto> v)"
  by (induction m) (auto simp: fun_eq_iff)

lemma map_index_Ok [simp]: "map_index m k = Inr v \<longleftrightarrow> map_of m k = Some v"
  by (simp add: map_index_def)

section \<open>Classification of a body\<close>

fun scalar :: "'p ir_type \<Rightarrow> bool" where
  "scalar Bool = True"
| "scalar U8 = True"
| "scalar U16 = True"
| "scalar U32 = True"
| "scalar I32 = True"
| "scalar U64 = True"
| "scalar _ = False"

fun operand :: "'p ir_operand \<Rightarrow> variables \<Rightarrow> stop + variables" where
  "operand (Var var) uses = (if scalar (var_ty var) then Ok (set_insert (var_id var) uses) else Err Declined)"
| "operand (Const CUnit) uses = Ok uses"
| "operand (Const (CBool _)) uses = Ok uses"
| "operand (Const (CU8 _)) uses = Ok uses"
| "operand (Const (CU16 _)) uses = Ok uses"
| "operand (Const (CU32 _)) uses = Ok uses"
| "operand (Const (CU64 _)) uses = Ok uses"
| "operand (Const _) uses = Err Declined"

fun operands :: "'p ir_operand list \<Rightarrow> variables \<Rightarrow> stop + variables" where
  "operands [] uses = Ok uses"
| "operands (arg # args) uses = rbind (operand arg uses) (operands args)"

definition passes_scalar :: "'p ir_param \<Rightarrow> bool" where
  "passes_scalar param \<longleftrightarrow> scalar (param_ty param) \<and> \<not> is_ref param \<and> \<not> is_read_ref param"

definition call_admitted :: "(string \<rightharpoonup> 'p callable_abi) \<Rightarrow> string set \<Rightarrow> 'p ir_call_target \<Rightarrow> bool" where
  "call_admitted abis local_calls func =
     (case function_symbol func of
        None \<Rightarrow> False
      | Some symbol \<Rightarrow>
          (case abis symbol of
             None \<Rightarrow> False
           | Some abi \<Rightarrow>
               symbol \<in> local_calls
               \<and> \<not> checked_scalar_parameters abi
               \<and> type_hash_param_indices abi = {}
               \<and> runtime_bound_param_indices abi = {}
               \<and> bounded_plan_param_indices abi = {}
               \<and> list_all passes_scalar (abi_params abi)))"

text \<open>The variables an instruction reads, and its destination.\<close>

fun instruction_reads ::
  "(string \<rightharpoonup> 'p callable_abi) \<Rightarrow> string set \<Rightarrow> 'p ir_instruction \<Rightarrow> stop + (variables \<times> 'p ir_var option)"
where
  "instruction_reads abis local_calls (LoadConst dest v) =
     rbind (operand (Const v :: 'p ir_operand) []) (\<lambda>uses. Ok (uses, Some dest))"
| "instruction_reads abis local_calls (LoadVar dest _) = Ok ([], Some dest)"
| "instruction_reads abis local_calls (StoreVar _ src) = rbind (operand src []) (\<lambda>uses. Ok (uses, None))"
| "instruction_reads abis local_calls (Move dest src) = rbind (operand src []) (\<lambda>uses. Ok (uses, Some dest))"
| "instruction_reads abis local_calls (Unary dest _ v) = rbind (operand v []) (\<lambda>uses. Ok (uses, Some dest))"
| "instruction_reads abis local_calls (Binary dest _ left right) =
     rbind (operand left []) (\<lambda>uses. rbind (operand right uses) (\<lambda>uses. Ok (uses, Some dest)))"
| "instruction_reads abis local_calls (Call dest func args) =
     (if call_admitted abis local_calls func
      then rbind (operands args []) (\<lambda>uses. Ok (uses, dest))
      else Err Declined)"
| "instruction_reads abis local_calls _ = Err Declined"

definition instruction_effect ::
  "(string \<rightharpoonup> 'p callable_abi) \<Rightarrow> string set \<Rightarrow> 'p ir_instruction \<Rightarrow> stop + effect" where
  "instruction_effect abis local_calls instruction =
     rbind (instruction_reads abis local_calls instruction) (\<lambda>(uses, dest).
       case dest of
         None \<Rightarrow> Ok (uses, [])
       | Some dest \<Rightarrow> if scalar (var_ty dest) then Ok (uses, set_insert (var_id dest) []) else Err Declined)"

fun terminator_effect :: "'p ir_terminator \<Rightarrow> stop + (variables \<times> nat list)" where
  "terminator_effect (Return (Some v)) = rbind (operand v []) (\<lambda>terminal. Ok (terminal, []))"
| "terminator_effect (Return None) = Ok ([], [])"
| "terminator_effect (Jump next) = Ok ([], [next])"
| "terminator_effect (Branch cond then_block else_block) =
     rbind (operand cond []) (\<lambda>terminal. Ok (terminal, [then_block, else_block]))"

fun classify_instructions ::
  "(string \<rightharpoonup> 'p callable_abi) \<Rightarrow> string set \<Rightarrow> 'p ir_instruction list \<Rightarrow> variables \<Rightarrow> effect list
     \<Rightarrow> stop + (variables \<times> effect list)"
where
  "classify_instructions abis local_calls [] variables instructions = Ok (variables, instructions)"
| "classify_instructions abis local_calls (i # is) variables instructions =
     rbind (instruction_effect abis local_calls i) (\<lambda>(uses, defs).
       classify_instructions abis local_calls is (set_extend (set_extend variables uses) defs)
         (instructions @ [(uses, defs)]))"

fun classify_blocks ::
  "(string \<rightharpoonup> 'p callable_abi) \<Rightarrow> string set \<Rightarrow> 'p ir_basic_block list \<Rightarrow> variables
     \<Rightarrow> effect list btree_map \<Rightarrow> nat list btree_map
     \<Rightarrow> stop + (variables \<times> effect list btree_map \<times> nat list btree_map)"
where
  "classify_blocks abis local_calls [] variables effects successors = Ok (variables, effects, successors)"
| "classify_blocks abis local_calls (b # bs) variables effects successors =
     rbind (classify_instructions abis local_calls (block_instructions b) variables []) (\<lambda>(variables, instructions).
     rbind (terminator_effect (block_terminator b)) (\<lambda>(terminal, next).
       if map_of effects (block_id b) \<noteq> None then Err Declined
       else classify_blocks abis local_calls bs (set_extend variables terminal)
              (map_insert (block_id b) (instructions @ [(terminal, [])]) effects)
              (map_insert (block_id b) next successors)))"

definition has_unscanned_parts :: "'p ir_body \<Rightarrow> bool" where
  "has_unscanned_parts body \<longleftrightarrow>
     cell_bindings body \<noteq> [] \<or> consume_set body \<noteq> [] \<or> read_refs body \<noteq> [] \<or> create_set body \<noteq> []
     \<or> mutate_set body \<noteq> [] \<or> write_intents body \<noteq> [] \<or> bounded_collection_ops body \<noteq> []
     \<or> borrow_regions body \<noteq> [] \<or> trusted_external_calls body \<noteq> []"

section \<open>Liveness\<close>

fun flow_step :: "effect \<Rightarrow> variables \<Rightarrow> variables" where
  "flow_step (uses, defs) live = set_extend (set_difference live defs) uses"

fun gather :: "variables btree_map \<Rightarrow> nat list \<Rightarrow> variables \<Rightarrow> stop + variables" where
  "gather input [] after = Ok after"
| "gather input (next # rest) after = rbind (map_index input next) (\<lambda>vs. gather input rest (set_extend after vs))"

fun liveness_pass ::
  "nat list btree_map \<Rightarrow> effect list btree_map \<Rightarrow> bool \<Rightarrow> variables btree_map \<Rightarrow> variables btree_map
     \<Rightarrow> stop + (bool \<times> variables btree_map \<times> variables btree_map)"
where
  "liveness_pass successors [] changed input output = Ok (changed, input, output)"
| "liveness_pass successors ((block, instructions) # rest) changed input output =
     rbind (map_index successors block) (\<lambda>nexts.
     rbind (gather input nexts []) (\<lambda>after.
     let before = foldr flow_step instructions after in
     rbind (map_index input block) (\<lambda>old.
     rbind (if old \<noteq> before then Ok True else rbind (map_index output block) (\<lambda>old. Ok (old \<noteq> after))) (\<lambda>differs.
       liveness_pass successors rest (changed \<or> differs) (map_insert block before input) (map_insert block after output)))))"

partial_function (option) liveness_loop ::
  "effect list btree_map \<Rightarrow> nat list btree_map \<Rightarrow> variables btree_map \<Rightarrow> variables btree_map
     \<Rightarrow> (stop + (variables btree_map \<times> variables btree_map)) option" where
  "liveness_loop effects successors input output =
     (case liveness_pass successors (rev effects) False input output of
        Inl e \<Rightarrow> Some (Inl e)
      | Inr (changed, input', output') \<Rightarrow>
          if changed then liveness_loop effects successors input' output' else Some (Inr (input', output')))"

declare liveness_loop.simps [code]

definition liveness ::
  "effect list btree_map \<Rightarrow> nat list btree_map \<Rightarrow> (stop + (variables btree_map \<times> variables btree_map)) option" where
  "liveness effects successors =
     (let input = map (\<lambda>(block, _). (block, [])) effects in liveness_loop effects successors input input)"

section \<open>Interference and colouring\<close>

definition insert_edge :: "nat \<Rightarrow> nat \<Rightarrow> variables btree_map \<Rightarrow> stop + variables btree_map" where
  "insert_edge left right graph =
     rbind (map_index graph left) (\<lambda>adjacent. Ok (map_insert left (set_insert right adjacent) graph))"

definition connect :: "nat \<Rightarrow> nat \<Rightarrow> variables btree_map \<Rightarrow> stop + variables btree_map" where
  "connect left right graph =
     (if left \<noteq> right then rbind (insert_edge left right graph) (insert_edge right left) else Ok graph)"

fun connect_all :: "nat \<Rightarrow> nat list \<Rightarrow> variables btree_map \<Rightarrow> stop + variables btree_map" where
  "connect_all left [] graph = Ok graph"
| "connect_all left (right # rest) graph = rbind (connect left right graph) (connect_all left rest)"

fun clique_from :: "variables \<Rightarrow> variables \<Rightarrow> variables btree_map \<Rightarrow> stop + variables btree_map" where
  "clique_from live [] graph = Ok graph"
| "clique_from live (left # rest) graph =
     rbind (connect_all left (filter ((<) left) live) graph) (clique_from live rest)"

definition clique :: "variables \<Rightarrow> variables btree_map \<Rightarrow> stop + variables btree_map" where
  "clique live graph = clique_from live live graph"

fun connect_defs :: "variables \<Rightarrow> variables \<Rightarrow> variables btree_map \<Rightarrow> stop + variables btree_map" where
  "connect_defs [] live graph = Ok graph"
| "connect_defs (defined # rest) live graph = rbind (connect_all defined live graph) (connect_defs rest live)"

fun interfere_instructions ::
  "effect list \<Rightarrow> variables \<Rightarrow> variables btree_map \<Rightarrow> stop + (variables \<times> variables btree_map)" where
  "interfere_instructions [] live graph = Ok (live, graph)"
| "interfere_instructions ((uses, defs) # rest) live graph =
     rbind (connect_defs defs live graph) (\<lambda>graph.
     let live = flow_step (uses, defs) live in
     rbind (clique live graph) (interfere_instructions rest live))"

fun interfere_blocks ::
  "variables btree_map \<Rightarrow> variables btree_map \<Rightarrow> effect list btree_map \<Rightarrow> variables btree_map
     \<Rightarrow> stop + variables btree_map" where
  "interfere_blocks live_in live_out [] graph = Ok graph"
| "interfere_blocks live_in live_out ((block, instructions) # rest) graph =
     rbind (map_index live_out block) (\<lambda>live.
     rbind (clique live graph) (\<lambda>graph.
     rbind (interfere_instructions (rev instructions) live graph) (\<lambda>(live, graph).
     rbind (map_index live_in block) (\<lambda>expected.
       if live \<noteq> expected then Err Panicked
       else interfere_blocks live_in live_out rest graph))))"

function first_free :: "nat list \<Rightarrow> nat \<Rightarrow> nat" where
  "first_free occupied index =
     (if index * 8 \<in> set occupied then first_free occupied (Suc index) else index * 8)"
  by pat_completeness auto
termination
proof (relation "measure (\<lambda>(occupied, index). card {x \<in> set occupied. index * 8 \<le> x})", goal_cases)
  case (2 occupied index)
  then have "index * 8 \<in> {x \<in> set occupied. index * 8 \<le> x} - {x \<in> set occupied. Suc index * 8 \<le> x}" by simp
  moreover have "{x \<in> set occupied. Suc index * 8 \<le> x} \<subseteq> {x \<in> set occupied. index * 8 \<le> x}" by auto
  ultimately have "{x \<in> set occupied. Suc index * 8 \<le> x} \<subset> {x \<in> set occupied. index * 8 \<le> x}" by blast
  then show ?case by (simp add: psubset_card_mono)
qed simp

declare first_free.simps [simp del]

fun assign_slots :: "variables btree_map \<Rightarrow> variables \<Rightarrow> nat btree_map \<Rightarrow> stop + nat btree_map" where
  "assign_slots interference [] slots = Ok slots"
| "assign_slots interference (variable # rest) slots =
     rbind (map_index interference variable) (\<lambda>adjacent.
     let occupied = List.map_filter (map_of slots) adjacent in
       assign_slots interference rest (map_insert variable (first_free occupied 0) slots))"

definition color ::
  "'p ir_param list \<Rightarrow> variables \<Rightarrow> effect list btree_map \<Rightarrow> variables btree_map \<Rightarrow> variables btree_map
     \<Rightarrow> stop + nat btree_map" where
  "color params variables effects live_in live_out =
     rbind (clique (set_extend [] (map (\<lambda>p. var_id (binding p)) params)) (map (\<lambda>var. (var, [])) variables)) (\<lambda>interference.
     rbind (interfere_blocks live_in live_out effects interference) (\<lambda>interference.
       assign_slots interference variables []))"

definition classify ::
  "'p ir_body \<Rightarrow> 'p ir_param list \<Rightarrow> (string \<rightharpoonup> 'p callable_abi) \<Rightarrow> string set
     \<Rightarrow> stop + (variables \<times> effect list btree_map \<times> nat list btree_map)" where
  "classify body params abis local_calls =
     (if has_unscanned_parts body \<or> \<not> list_all passes_scalar params then Err Declined
      else
        rbind (classify_blocks abis local_calls (body_blocks body)
                 (set_extend [] (map (\<lambda>p. var_id (binding p)) params)) [] []) (\<lambda>(variables, effects, successors).
          if list_ex (\<lambda>next. map_of effects next = None) (concat (map snd successors)) then Err Declined
          else Ok (variables, effects, successors)))"

definition allocate ::
  "'p ir_body \<Rightarrow> 'p ir_param list \<Rightarrow> (string \<rightharpoonup> 'p callable_abi) \<Rightarrow> string set
     \<Rightarrow> (stop + nat btree_map) option" where
  "allocate body params abis local_calls =
     (case classify body params abis local_calls of
        Inl e \<Rightarrow> Some (Inl e)
      | Inr (variables, effects, successors) \<Rightarrow>
          map_option (\<lambda>r. rbind r (\<lambda>(live_in, live_out). color params variables effects live_in live_out))
            (liveness effects successors))"


section \<open>What liveness computes\<close>

text \<open>
  The reference definition: a variable is live at a position of a block if some path from there
  reads it before it is written. Position \<open>length instructions\<close> is the end of the block.
\<close>

inductive live_at :: "effect list btree_map \<Rightarrow> nat list btree_map \<Rightarrow> nat \<Rightarrow> nat \<Rightarrow> nat \<Rightarrow> bool"
  for effects :: "effect list btree_map" and successors :: "nat list btree_map" where
  read: "map_of effects b = Some is \<Longrightarrow> i < length is \<Longrightarrow> v \<in> set (fst (is ! i)) \<Longrightarrow>
    live_at effects successors b i v"
| keep: "map_of effects b = Some is \<Longrightarrow> i < length is \<Longrightarrow> v \<notin> set (snd (is ! i)) \<Longrightarrow>
    live_at effects successors b (Suc i) v \<Longrightarrow> live_at effects successors b i v"
| edge: "map_of effects b = Some is \<Longrightarrow> map_of successors b = Some ns \<Longrightarrow> n \<in> set ns \<Longrightarrow>
    live_at effects successors n 0 v \<Longrightarrow> live_at effects successors b (length is) v"

definition closed_graph :: "effect list btree_map \<Rightarrow> nat list btree_map \<Rightarrow> bool" where
  "closed_graph effects successors \<longleftrightarrow>
     distinct (map fst effects) \<and>
     (\<forall>b \<in> fst ` set effects. \<exists>ns. map_of successors b = Some ns \<and> set ns \<subseteq> fst ` set effects)"

definition val :: "'a list btree_map \<Rightarrow> nat \<Rightarrow> 'a list" where
  "val m b = (case map_of m b of None \<Rightarrow> [] | Some xs \<Rightarrow> xs)"

definition join :: "nat list btree_map \<Rightarrow> variables btree_map \<Rightarrow> nat \<Rightarrow> nat set" where
  "join successors input b = (\<Union>n \<in> set (val successors b). set (val input n))"

fun flow :: "effect list \<Rightarrow> nat set \<Rightarrow> nat set" where
  "flow [] A = A"
| "flow (e # es) A = set (fst e) \<union> (flow es A - set (snd e))"

lemma val_Some [simp]: "map_of m b = Some xs \<Longrightarrow> val m b = xs"
  by (simp add: val_def)

lemma val_map_insert [simp]: "val (map_insert k v m) b = (if b = k then v else val m b)"
  by (simp add: val_def)

lemma set_flow_step [simp]: "set (flow_step e live) = set (fst e) \<union> (set live - set (snd e))"
  by (cases e) auto

lemma ascending_flow_step [simp]: "ascending live \<Longrightarrow> ascending (flow_step e live)"
  by (cases e) simp

lemma set_foldr_flow [simp]: "set (foldr flow_step es live) = flow es (set live)"
  by (induction es) auto

lemma ascending_foldr_flow [simp]: "ascending live \<Longrightarrow> ascending (foldr flow_step es live)"
  by (induction es) auto

lemma flow_mono: "A \<subseteq> B \<Longrightarrow> flow es A \<subseteq> flow es B"
  by (induction es) auto

lemma map_of_dom: "distinct (map fst m) \<Longrightarrow> map_of m b = Some x \<longleftrightarrow> (b, x) \<in> set m"
  by simp

lemma gather_spec:
  "set ns \<subseteq> dom (map_of input) \<Longrightarrow>
     \<exists>after. gather input ns acc = Inr after \<and> set after = set acc \<union> (\<Union>n \<in> set ns. set (val input n))
       \<and> (ascending acc \<longrightarrow> ascending after)"
proof (induction ns arbitrary: acc)
  case (Cons n ns)
  then obtain vs where vs: "map_of input n = Some vs" by auto
  from Cons.prems Cons.IH [of "set_extend acc vs"] show ?case
    by (auto simp: vs map_index_def)
qed simp

definition flow_inv ::
  "effect list btree_map \<Rightarrow> nat list btree_map \<Rightarrow> variables btree_map \<Rightarrow> variables btree_map \<Rightarrow> bool" where
  "flow_inv effects successors input output \<longleftrightarrow>
     dom (map_of input) = fst ` set effects \<and> dom (map_of output) = fst ` set effects \<and>
     (\<forall>b. ascending (val input b) \<and> ascending (val output b)
        \<and> (\<forall>is. map_of effects b = Some is \<longrightarrow>
             set (val input b) \<subseteq> flow is (join successors input b) \<and> set (val output b) \<subseteq> join successors input b
             \<and> (\<forall>v \<in> set (val input b). live_at effects successors b 0 v)
             \<and> (\<forall>v \<in> set (val output b). live_at effects successors b (length is) v)))"

definition weight :: "effect list btree_map \<Rightarrow> variables btree_map \<Rightarrow> nat" where
  "weight effects m = (\<Sum>b \<in> fst ` set effects. length (val m b))"

lemma weight_map_insert:
  assumes "b \<in> fst ` set effects" "ascending (val m b)" "ascending x" "set (val m b) \<subseteq> set x"
  shows "weight effects m \<le> weight effects (map_insert b x m)"
    and "val m b \<noteq> x \<Longrightarrow> weight effects m < weight effects (map_insert b x m)"
proof -
  have le: "length (val m b) \<le> length x"
    using assms by (metis ascending_distinct card_mono distinct_card finite_set)
  then show "weight effects m \<le> weight effects (map_insert b x m)"
    unfolding weight_def by (intro sum_mono) simp
  assume "val m b \<noteq> x"
  with assms have "set (val m b) \<subset> set x" using ascending_unique by blast
  then have "length (val m b) < length x"
    using assms by (metis ascending_distinct distinct_card finite_set psubset_card_mono)
  then show "weight effects m < weight effects (map_insert b x m)"
    unfolding weight_def using assms(1) le by (intro sum_strict_mono_ex1) auto
qed

lemma join_map_insert_mono:
  "set (val input b) \<subseteq> set x \<Longrightarrow> join successors input c \<subseteq> join successors (map_insert b x input) c"
  unfolding join_def by (intro UN_mono) auto

lemma live_flow:
  assumes "map_of effects b = Some is" "i \<le> length is" "v \<in> flow (drop i is) A"
    "\<And>v. v \<in> A \<Longrightarrow> live_at effects successors b (length is) v"
  shows "live_at effects successors b i v"
  using assms(2,3)
proof (induction "length is - i" arbitrary: i)
  case (Suc k)
  then have i: "i < length is" by simp
  with Suc.prems have "v \<in> set (fst (is ! i)) \<or> v \<in> flow (drop (Suc i) is) A \<and> v \<notin> set (snd (is ! i))"
    by (auto simp: Cons_nth_drop_Suc [symmetric])
  then show ?case using Suc.hyps i assms(1) by (auto intro: live_at.intros)
qed (use assms(4) in simp)


lemma flow_inv_block:
  assumes inv: "flow_inv effects successors input output" and b: "map_of effects b = Some is"
    and succ: "map_of successors b = Some ns" and ns: "set ns \<subseteq> fst ` set effects"
    and after: "set after = join successors input b" "ascending after"
  shows "flow_inv effects successors (map_insert b (foldr flow_step is after) input) (map_insert b after output)"
    (is "flow_inv _ _ ?input ?output")
  unfolding flow_inv_def
proof (intro conjI allI impI ballI)
  have key: "b \<in> fst ` set effects" using b by (metis domI dom_map_of_conv_image_fst)
  with inv show "dom (map_of ?input) = fst ` set effects" "dom (map_of ?output) = fst ` set effects"
    by (auto simp: flow_inv_def)
  have grow: "set (val input b) \<subseteq> set (foldr flow_step is after)"
    using inv b after by (simp add: flow_inv_def)
  note mono = join_map_insert_mono [OF grow, of successors]
  have at_end: "live_at effects successors b (length is) v" if "v \<in> join successors input b" for v
  proof -
    from that succ obtain n where n: "n \<in> set ns" "v \<in> set (val input n)" by (auto simp: join_def)
    then have "map_of effects n \<noteq> None" using ns by (metis dom_map_of_conv_image_fst domIff subsetD)
    with inv n have "live_at effects successors n 0 v" unfolding flow_inv_def by blast
    with b succ n show ?thesis by (auto intro: live_at.edge)
  qed
  fix c
  show "ascending (val ?input c)" "ascending (val ?output c)"
    using inv after by (simp_all add: flow_inv_def)
  fix js assume c: "map_of effects c = Some js"
  have "set (val ?input c) \<subseteq> flow js (join successors input c)"
    using inv b c after by (cases "c = b") (auto simp: flow_inv_def)
  then show "set (val ?input c) \<subseteq> flow js (join successors ?input c)"
    using flow_mono [OF mono] by blast
  have "set (val ?output c) \<subseteq> join successors input c"
    using inv c after by (cases "c = b") (auto simp: flow_inv_def)
  then show "set (val ?output c) \<subseteq> join successors ?input c" using mono by blast
  show "live_at effects successors c 0 v" if "v \<in> set (val ?input c)" for v
  proof (cases "c = b")
    case True
    then show ?thesis using that b after at_end by (auto intro: live_flow [OF b, where A = "set after"])
  qed (use that inv c in \<open>auto simp: flow_inv_def\<close>)
  show "live_at effects successors c (length js) v" if "v \<in> set (val ?output c)" for v
    using that inv b c after at_end by (cases "c = b") (auto simp: flow_inv_def)
qed

text \<open>A block is stable if its sets satisfy the data-flow equations.\<close>

definition stable :: "nat list btree_map \<Rightarrow> variables btree_map \<Rightarrow> variables btree_map \<Rightarrow> nat \<times> effect list \<Rightarrow> bool" where
  "stable successors input output = (\<lambda>(b, is).
     val input b = foldr flow_step is (val output b) \<and> set (val output b) = join successors input b)"

lemma liveness_pass_spec:
  assumes "closed_graph effects successors"
  shows "set es \<subseteq> set effects \<Longrightarrow> flow_inv effects successors input output \<Longrightarrow>
    \<exists>c' input' output'. liveness_pass successors es c input output = Inr (c', input', output')
      \<and> flow_inv effects successors input' output'
      \<and> weight effects input + weight effects output \<le> weight effects input' + weight effects output'
      \<and> (c' \<longrightarrow> c \<or> weight effects input + weight effects output < weight effects input' + weight effects output')
      \<and> (\<not> c' \<longrightarrow> \<not> c \<and> map_of input' = map_of input \<and> map_of output' = map_of output
           \<and> list_all (stable successors input output) es)"
proof (induction es arbitrary: c input "output")
  case (Cons e es)
  obtain b "is" where e: "e = (b, is)" by force
  note inv = Cons.prems(2)
  have key: "b \<in> fst ` set effects" using Cons.prems e by force
  have b: "map_of effects b = Some is" using assms Cons.prems e by (simp add: closed_graph_def)
  obtain ns where ns: "map_of successors b = Some ns" "set ns \<subseteq> fst ` set effects"
    using assms key unfolding closed_graph_def by blast
  obtain old old' where old: "map_of input b = Some old" "map_of output b = Some old'"
    using inv key unfolding flow_inv_def by blast
  obtain after where after: "gather input ns [] = Inr after" "set after = join successors input b" "ascending after"
    using gather_spec [of ns input "[]"] ns inv by (auto simp: flow_inv_def join_def)
  define before where "before = foldr flow_step is after"
  let ?i = "map_insert b before input" and ?o = "map_insert b after output"
  have inv': "flow_inv effects successors ?i ?o"
    unfolding before_def by (rule flow_inv_block [OF inv b ns after(2,3)])
  have sub: "set old \<subseteq> set before" "set old' \<subseteq> set after" "ascending old" "ascending old'" "ascending before"
    using inv b old after by (force simp: flow_inv_def before_def)+
  let ?d = "old \<noteq> before \<or> old' \<noteq> after"
  have run: "liveness_pass successors (e # es) c input output = liveness_pass successors es (c \<or> ?d) ?i ?o"
    by (simp add: e ns old after(1) map_index_def before_def [symmetric] Let_def)
  have w: "weight effects input \<le> weight effects ?i" "weight effects output \<le> weight effects ?o"
    and ws: "?d \<Longrightarrow> weight effects input + weight effects output < weight effects ?i + weight effects ?o"
    using weight_map_insert [OF key, of input before] weight_map_insert [OF key, of "output" after] sub after old
    by fastforce+
  have "set es \<subseteq> set effects" using Cons.prems(1) by simp
  from Cons.IH [OF this inv', of "c \<or> ?d"] obtain c' input' output' where
    r: "liveness_pass successors es (c \<or> ?d) ?i ?o = Inr (c', input', output')"
      "flow_inv effects successors input' output'"
      "weight effects ?i + weight effects ?o \<le> weight effects input' + weight effects output'"
      "c' \<longrightarrow> (c \<or> ?d) \<or> weight effects ?i + weight effects ?o < weight effects input' + weight effects output'"
      "\<not> c' \<longrightarrow> \<not> (c \<or> ?d) \<and> map_of input' = map_of ?i \<and> map_of output' = map_of ?o
         \<and> list_all (stable successors ?i ?o) es"
    by blast
  have same: "map_of ?i = map_of input" "map_of ?o = map_of output" if "\<not> ?d"
    using that old by (auto simp: fun_eq_iff)
  have stab: "stable successors input output e" "stable successors ?i ?o = stable successors input output" if "\<not> ?d"
    using same [OF that] that old after by (auto simp: stable_def e before_def val_def join_def fun_eq_iff)
  show ?case
  proof (intro exI conjI impI)
    show "liveness_pass successors (e # es) c input output = Inr (c', input', output')"
      using run r(1) by simp
    show "flow_inv effects successors input' output'" by (fact r(2))
    show "weight effects input + weight effects output \<le> weight effects input' + weight effects output'"
      using w r(3) by linarith
    show "c \<or> weight effects input + weight effects output < weight effects input' + weight effects output'" if c'
      using r(3,4) that w ws by linarith
  qed (use r(5) same stab in auto)
qed simp


definition read_vars :: "effect list btree_map \<Rightarrow> nat set" where
  "read_vars effects = (\<Union>(b, is) \<in> set effects. \<Union>(set ` fst ` set is))"

definition flow_bound :: "effect list btree_map \<Rightarrow> nat" where
  "flow_bound effects = 2 * (card (fst ` set effects) * card (read_vars effects))"

lemma live_at_read: "live_at effects successors b i v \<Longrightarrow> v \<in> read_vars effects"
proof (induction rule: live_at.induct)
  case (read b "is" i v)
  then have "(b, is) \<in> set effects" "is ! i \<in> set is" by (auto dest: map_of_SomeD)
  with read show ?case by (force simp: read_vars_def)
qed

lemma weight_le:
  assumes "\<And>b. b \<in> fst ` set effects \<Longrightarrow> ascending (val m b) \<and> set (val m b) \<subseteq> read_vars effects"
  shows "weight effects m \<le> card (fst ` set effects) * card (read_vars effects)"
proof -
  have fin: "finite (read_vars effects)" by (auto simp: read_vars_def)
  have "length (val m b) \<le> card (read_vars effects)" if "b \<in> fst ` set effects" for b
    using assms [OF that] fin by (metis ascending_distinct card_mono distinct_card)
  then have "weight effects m \<le> of_nat (card (fst ` set effects)) * card (read_vars effects)"
    unfolding weight_def by (rule sum_bounded_above)
  then show ?thesis by simp
qed

lemma weight_bound:
  assumes inv: "flow_inv effects successors input output"
  shows "weight effects input + weight effects output \<le> flow_bound effects"
proof -
  have "ascending (val input b) \<and> set (val input b) \<subseteq> read_vars effects"
    "ascending (val output b) \<and> set (val output b) \<subseteq> read_vars effects" if key: "b \<in> fst ` set effects" for b
  proof -
    from key obtain "is" where "map_of effects b = Some is" by (metis dom_map_of_conv_image_fst domD)
    with inv have "ascending (val input b)" "ascending (val output b)"
      and live: "\<forall>v \<in> set (val input b). live_at effects successors b 0 v"
        "\<forall>v \<in> set (val output b). live_at effects successors b (length is) v"
      unfolding flow_inv_def by blast+
    then show "ascending (val input b) \<and> set (val input b) \<subseteq> read_vars effects"
      "ascending (val output b) \<and> set (val output b) \<subseteq> read_vars effects"
      using live_at_read by blast+
  qed
  from weight_le [OF this(1)] weight_le [OF this(2)] show ?thesis by (simp add: flow_bound_def)
qed

lemma liveness_loop_spec:
  assumes closed: "closed_graph effects successors"
  shows "flow_inv effects successors input output \<Longrightarrow>
    \<exists>input' output'. liveness_loop effects successors input output = Some (Inr (input', output'))
      \<and> flow_inv effects successors input' output' \<and> list_all (stable successors input' output') effects"
proof (induction "flow_bound effects - (weight effects input + weight effects output)"
    arbitrary: input "output" rule: less_induct)
  case less
  obtain c' input' output' where r:
    "liveness_pass successors (rev effects) False input output = Inr (c', input', output')"
    "flow_inv effects successors input' output'"
    "c' \<longrightarrow> weight effects input + weight effects output < weight effects input' + weight effects output'"
    "\<not> c' \<longrightarrow> map_of input' = map_of input \<and> map_of output' = map_of output
       \<and> list_all (stable successors input output) (rev effects)"
    using liveness_pass_spec [OF closed, of "rev effects" input "output" False] less.prems by auto
  show ?case
  proof (cases c')
    case True
    with r(3) weight_bound [OF r(2)]
    have "flow_bound effects - (weight effects input' + weight effects output')
        < flow_bound effects - (weight effects input + weight effects output)" by simp
    from less.hyps [OF this r(2)] True r(1) show ?thesis
      by (subst liveness_loop.simps) simp
  next
    case False
    with r(4) have "list_all (stable successors input' output') effects"
      by (simp add: stable_def val_def join_def list_all_iff)
    with False r(1,2) show ?thesis by (subst liveness_loop.simps) simp
  qed
qed

lemma stable_complete:
  assumes "closed_graph effects successors" "list_all (stable successors input output) effects"
  shows "live_at effects successors b i v \<Longrightarrow> map_of effects b = Some is \<Longrightarrow>
    v \<in> flow (drop i is) (set (val output b))"
proof (induction arbitrary: "is" rule: live_at.induct)
  case (read b js i v)
  then show ?case by (simp add: Cons_nth_drop_Suc [symmetric])
next
  case (keep b js i v)
  then show ?case by (simp add: Cons_nth_drop_Suc [symmetric])
next
  case (edge b js ns n v)
  then have key: "b \<in> fst ` set effects" by (metis domI dom_map_of_conv_image_fst)
  with assms(1) edge have "n \<in> fst ` set effects" by (fastforce simp: closed_graph_def)
  then obtain ks where ks: "map_of effects n = Some ks" by (metis dom_map_of_conv_image_fst domD)
  have "stable successors input output (n, ks)" "stable successors input output (b, js)"
    using assms(2) ks edge by (auto simp: list_all_iff dest: map_of_SomeD)
  then have "set (val input n) = flow ks (set (val output n))" "set (val output b) = join successors input b"
    by (auto simp: stable_def)
  with edge.IH [OF ks] have "v \<in> set (val output b)" using edge.hyps by (auto simp: join_def)
  with edge show ?case by simp
qed

lemma flow_inv_init:
  "flow_inv effects successors (map (\<lambda>(b, _). (b, [])) effects) (map (\<lambda>(b, _). (b, [])) effects)"
  (is "flow_inv _ _ ?m _")
proof -
  have m: "map_of ?m = map_option (\<lambda>_. []) \<circ> map_of effects"
    by (induction effects) auto
  have "val ?m b = []" for b
    by (simp add: val_def m split: option.split)
  moreover have "dom (map_of ?m) = fst ` set effects"
    by (auto simp: m dom_map_of_conv_image_fst [symmetric])
  ultimately show ?thesis by (simp add: flow_inv_def)
qed

lemma liveness_returns:
  assumes "closed_graph effects successors"
  obtains live_in live_out where "liveness effects successors = Some (Inr (live_in, live_out))"
    "flow_inv effects successors live_in live_out" "list_all (stable successors live_in live_out) effects"
  using liveness_loop_spec [OF assms flow_inv_init] by (auto simp: liveness_def Let_def)

lemma live_at_iff:
  assumes "closed_graph effects successors" "flow_inv effects successors live_in live_out"
    "list_all (stable successors live_in live_out) effects"
    and b: "map_of effects b = Some is" and i: "i \<le> length is"
  shows "live_at effects successors b i v \<longleftrightarrow> v \<in> set (foldr flow_step (drop i is) (val live_out b))"
proof
  show "v \<in> set (foldr flow_step (drop i is) (val live_out b))" if "live_at effects successors b i v"
    using stable_complete [OF assms(1,3) that b] by simp
  have "live_at effects successors b (length is) v" if "v \<in> set (val live_out b)" for v
    using that assms(2) b unfolding flow_inv_def by blast
  then show "live_at effects successors b i v" if "v \<in> set (foldr flow_step (drop i is) (val live_out b))"
    using that by (auto intro: live_flow [OF b i])
qed

text \<open>
  C13: On every closed control-flow graph the liveness loop returns, without a panic, and its two maps
  are exactly the live variables at the start and at the end of each block.
\<close>
theorem liveness_exact:
  assumes "closed_graph effects successors"
  shows "\<exists>live_in live_out. liveness effects successors = Some (Inr (live_in, live_out))
    \<and> (\<forall>b is. map_of effects b = Some is \<longrightarrow> (\<exists>before after.
         map_of live_in b = Some before \<and> map_of live_out b = Some after
         \<and> set before = {v. live_at effects successors b 0 v}
         \<and> set after = {v. live_at effects successors b (length is) v}))"
proof -
  obtain live_in live_out where r: "liveness effects successors = Some (Inr (live_in, live_out))"
    "flow_inv effects successors live_in live_out" "list_all (stable successors live_in live_out) effects"
    by (rule liveness_returns [OF assms])
  have "\<exists>before after. map_of live_in b = Some before \<and> map_of live_out b = Some after
         \<and> set before = {v. live_at effects successors b 0 v}
         \<and> set after = {v. live_at effects successors b (length is) v}"
    if b: "map_of effects b = Some is" for b "is"
  proof -
    from b have mem: "(b, is) \<in> set effects" by (rule map_of_SomeD)
    then have "b \<in> fst ` set effects" by force
    then obtain before after where m: "map_of live_in b = Some before" "map_of live_out b = Some after"
      using r(2) unfolding flow_inv_def by blast
    from mem r(3) have "before = foldr flow_step is after"
      using m by (auto simp: list_all_iff stable_def)
    then show ?thesis
      using m live_at_iff [OF assms r(2,3) b] by auto
  qed
  with r(1) show ?thesis by blast
qed

text \<open>A counting loop, classified: block 1 compares, block 2 increments.\<close>

definition sample_effects :: "effect list btree_map" where
  "sample_effects = [(0, [([], [1]), ([], [])]), (1, [([0, 1], [2]), ([2], [])]),
     (2, [([1], [3]), ([3], [1]), ([], [])]), (3, [([1], [])])]"

definition sample_successors :: "nat list btree_map" where
  "sample_successors = [(0, [1]), (1, [2, 3]), (2, [1]), (3, [])]"

lemma sample_liveness:
  "liveness sample_effects sample_successors =
     Some (Inr ([(0, [0]), (1, [0, 1]), (2, [0, 1]), (3, [1])], [(0, [0, 1]), (1, [0, 1]), (2, [0, 1]), (3, [])]))"
  by code_simp

theorem liveness_exact_witness:
  "closed_graph sample_effects sample_successors
   \<and> {v. live_at sample_effects sample_successors 1 0 v} = {0, 1}
   \<and> {v. live_at sample_effects sample_successors 2 3 v} = {0, 1}"
proof -
  have closed: "closed_graph sample_effects sample_successors"
    by (simp add: closed_graph_def sample_effects_def sample_successors_def)
  have blocks: "map_of sample_effects 1 = Some [([0, 1], [2]), ([2], [])]"
    "map_of sample_effects 2 = Some [([1], [3]), ([3], [1]), ([], [])]"
    by (simp_all add: sample_effects_def)
  obtain live_in live_out where r: "liveness sample_effects sample_successors = Some (Inr (live_in, live_out))"
    and exact: "\<And>b is. map_of sample_effects b = Some is \<Longrightarrow> \<exists>before after.
       map_of live_in b = Some before \<and> map_of live_out b = Some after
       \<and> set before = {v. live_at sample_effects sample_successors b 0 v}
       \<and> set after = {v. live_at sample_effects sample_successors b (length is) v}"
    using liveness_exact [OF closed] by auto
  have maps: "live_in = [(0, [0]), (1, [0, 1]), (2, [0, 1]), (3, [1])]"
    "live_out = [(0, [0, 1]), (1, [0, 1]), (2, [0, 1]), (3, [])]"
    using r sample_liveness by simp_all
  from exact [OF blocks(1)] exact [OF blocks(2)] closed show ?thesis
    by (simp add: maps numeral_3_eq_3) metis
qed

end
