(* ===== verification/Slot_Refine.thy ===== *)
theory Slot_Refine
  imports Scalar_Slots
begin

text \<open>
  Correctness of the scalar slot allocator: the interference graph separates variables that are live
  at the same position, the colouring respects it, the allocator always returns, and execution on
  the shared slots refines execution with one cell per variable.
\<close>

section \<open>The interference graph\<close>

definition graph_ok :: "nat set \<Rightarrow> variables btree_map \<Rightarrow> bool" where
  "graph_ok V g \<longleftrightarrow> dom (map_of g) = V \<and> (\<forall>u v. v \<in> set (val g u) \<longleftrightarrow> u \<in> set (val g v))"

text \<open>A step that succeeds, keeps every edge and adds those between distinct members of \<open>E\<close>.\<close>

definition links :: "nat set \<Rightarrow> variables btree_map \<Rightarrow> (nat \<times> nat) set \<Rightarrow> stop + variables btree_map \<Rightarrow> bool" where
  "links V g E r \<longleftrightarrow> (\<exists>g'. r = Inr g' \<and> graph_ok V g' \<and> (\<forall>u. set (val g u) \<subseteq> set (val g' u))
     \<and> (\<forall>u v. (u, v) \<in> E \<longrightarrow> u \<noteq> v \<longrightarrow> v \<in> set (val g' u)))"

lemma links_Ok: "graph_ok V g \<Longrightarrow> links V g {} (Inr g)"
  by (simp add: links_def)

lemma links_trans:
  assumes "links V g E (Inr g')" "links V g' F r"
  shows "links V g (E \<union> F) r"
proof -
  have g': "\<forall>u. set (val g u) \<subseteq> set (val g' u)"
    and E: "\<And>u v. (u, v) \<in> E \<Longrightarrow> u \<noteq> v \<Longrightarrow> v \<in> set (val g' u)" using assms(1) unfolding links_def by simp_all
  obtain g'' where g'': "r = Inr g''" "graph_ok V g''" "\<forall>u. set (val g' u) \<subseteq> set (val g'' u)"
    and F: "\<And>u v. (u, v) \<in> F \<Longrightarrow> u \<noteq> v \<Longrightarrow> v \<in> set (val g'' u)"
    using assms(2) unfolding links_def by blast
  have "\<forall>u. set (val g u) \<subseteq> set (val g'' u)" using g' g''(3) by (meson order_trans)
  moreover have "v \<in> set (val g'' u)" if "(u, v) \<in> E \<union> F" "u \<noteq> v" for u v
    using that E F g''(3) by (meson UnE subsetD)
  ultimately show ?thesis using g''(1,2) unfolding links_def by simp
qed

lemma linksE:
  assumes "links V g E r"
  obtains g' where "r = Inr g'" "graph_ok V g'" "links V g E (Inr g')"
  using assms unfolding links_def by blast

lemma links_rbind:
  assumes "links V g E r" "\<And>g'. graph_ok V g' \<Longrightarrow> links V g' F (k g')"
  shows "links V g (E \<union> F) (rbind r k)"
  using assms(1) by (rule linksE) (simp add: links_trans assms(2))

lemma links_mono: "links V g E r \<Longrightarrow> F \<subseteq> E \<Longrightarrow> links V g F r"
  unfolding links_def by blast

lemma links_connect:
  assumes "graph_ok V g" "l \<in> V" "r \<in> V"
  shows "links V g {(l, r)} (connect l r g)"
proof (cases "l = r")
  case False
  obtain xs where xs: "map_of g l = Some xs" using assms unfolding graph_ok_def by blast
  obtain ys where ys: "map_of g r = Some ys" using assms unfolding graph_ok_def by blast
  let ?g = "map_insert r (set_insert l ys) (map_insert l (set_insert r xs) g)"
  have "connect l r g = Inr ?g"
    using False xs ys by (simp add: connect_def insert_edge_def map_index_def)
  moreover have "graph_ok V ?g"
    using assms xs ys False unfolding graph_ok_def by auto
  ultimately show ?thesis using xs ys False by (auto simp: links_def)
qed (use assms in \<open>simp add: connect_def links_def\<close>)

lemma links_connect_all:
  "graph_ok V g \<Longrightarrow> l \<in> V \<Longrightarrow> set rs \<subseteq> V \<Longrightarrow> links V g ({l} \<times> set rs) (connect_all l rs g)"
proof (induction rs arbitrary: g)
  case (Cons r rs)
  then have "links V g ({(l, r)} \<union> {l} \<times> set rs) (rbind (connect l r g) (connect_all l rs))"
    by (intro links_rbind links_connect) auto
  then show ?case by (simp add: links_mono insert_Times_insert)
qed (simp add: links_Ok)

lemma links_connect_defs:
  "graph_ok V g \<Longrightarrow> set ds \<subseteq> V \<Longrightarrow> set live \<subseteq> V \<Longrightarrow> links V g (set ds \<times> set live) (connect_defs ds live g)"
proof (induction ds arbitrary: g)
  case (Cons d ds)
  then have "links V g ({d} \<times> set live \<union> set ds \<times> set live)
      (rbind (connect_all d live g) (connect_defs ds live))"
    by (intro links_rbind links_connect_all) auto
  then show ?case unfolding connect_defs.simps by (rule links_mono) auto
qed (simp add: links_Ok)

lemma links_clique_from:
  "graph_ok V g \<Longrightarrow> set ls \<subseteq> V \<Longrightarrow> set live \<subseteq> V \<Longrightarrow>
     links V g {(l, r). l \<in> set ls \<and> r \<in> set live \<and> l < r} (clique_from live ls g)"
proof (induction ls arbitrary: g)
  case (Cons l ls)
  then have "links V g ({l} \<times> set (filter ((<) l) live) \<union> {(l, r). l \<in> set ls \<and> r \<in> set live \<and> l < r})
      (rbind (connect_all l (filter ((<) l) live) g) (clique_from live ls))"
    by (intro links_rbind links_connect_all) auto
  then show ?case unfolding clique_from.simps by (rule links_mono) auto
qed (simp add: links_Ok)

lemma links_clique:
  assumes "graph_ok V g" "set live \<subseteq> V"
  shows "links V g (set live \<times> set live) (clique live g)"
proof -
  obtain g' where g': "clique live g = Inr g'" "graph_ok V g'" "\<forall>u. set (val g u) \<subseteq> set (val g' u)"
    and E: "\<And>l r. l \<in> set live \<Longrightarrow> r \<in> set live \<Longrightarrow> l < r \<Longrightarrow> r \<in> set (val g' l)"
    using links_clique_from [OF assms assms(2)] unfolding links_def clique_def by auto
  have "v \<in> set (val g' u)" if "u \<in> set live" "v \<in> set live" "u \<noteq> v" for u v
    using E [of u v] E [of v u] that g'(2) unfolding graph_ok_def by (metis linorder_neqE_nat)
  with g' show ?thesis by (auto simp: links_def)
qed


text \<open>The edges a block needs: definitions against what is live after them, and each live set.\<close>

fun instruction_edges :: "effect list \<Rightarrow> variables \<Rightarrow> (nat \<times> nat) set" where
  "instruction_edges [] live = {}"
| "instruction_edges (e # rest) live =
     set (snd e) \<times> set live \<union> set (flow_step e live) \<times> set (flow_step e live)
       \<union> instruction_edges rest (flow_step e live)"

definition live_edges :: "effect list \<Rightarrow> variables \<Rightarrow> (nat \<times> nat) set" where
  "live_edges is live = set live \<times> set live \<union> instruction_edges (rev is) live"

definition mentioned :: "effect list \<Rightarrow> nat set" where
  "mentioned is = (\<Union>e \<in> set is. set (fst e) \<union> set (snd e))"

lemma instruction_edges_append:
  "instruction_edges (xs @ ys) live = instruction_edges xs live \<union> instruction_edges ys (fold flow_step xs live)"
  by (induction xs arbitrary: live) auto

lemma live_edges_at:
  assumes "i < length is"
  shows "set (snd (is ! i)) \<times> set (foldr flow_step (drop (Suc i) is) live) \<subseteq> live_edges is live"
    and "set (foldr flow_step (drop i is) live) \<times> set (foldr flow_step (drop i is) live) \<subseteq> live_edges is live"
proof -
  have "rev is = rev (drop (Suc i) is) @ [is ! i] @ rev (take i is)"
    using assms by (metis append.assoc append_Cons append_Nil id_take_nth_drop rev.simps(2) rev_append)
  then have "instruction_edges (rev is) live =
      instruction_edges (rev (drop (Suc i) is)) live
        \<union> instruction_edges ([is ! i] @ rev (take i is)) (foldr flow_step (drop (Suc i) is) live)"
    by (simp only: instruction_edges_append foldr_conv_fold)
  moreover have "foldr flow_step (drop i is) live = flow_step (is ! i) (foldr flow_step (drop (Suc i) is) live)"
    using assms by (simp add: Cons_nth_drop_Suc [symmetric])
  ultimately show "set (snd (is ! i)) \<times> set (foldr flow_step (drop (Suc i) is) live) \<subseteq> live_edges is live"
    and "set (foldr flow_step (drop i is) live) \<times> set (foldr flow_step (drop i is) live) \<subseteq> live_edges is live"
    by (auto simp: live_edges_def)
qed

lemma links_instructions:
  "graph_ok V g \<Longrightarrow> mentioned rs \<subseteq> V \<Longrightarrow> set live \<subseteq> V \<Longrightarrow>
    \<exists>g'. interfere_instructions rs live g = Inr (fold flow_step rs live, g')
      \<and> links V g (instruction_edges rs live) (Inr g')"
proof (induction rs arbitrary: live g)
  case (Cons e rs)
  obtain uses defs where e: "e = (uses, defs)" by force
  let ?live = "flow_step (uses, defs) live"
  have V: "set defs \<subseteq> V" "set ?live \<subseteq> V" "mentioned rs \<subseteq> V" using Cons.prems e by (auto simp: mentioned_def)
  have "links V g (set defs \<times> set live \<union> set ?live \<times> set ?live)
      (rbind (connect_defs defs live g) (clique ?live))"
    using Cons.prems V by (intro links_rbind links_connect_defs links_clique) auto
  then obtain g1 g2 where g: "connect_defs defs live g = Inr g1" "clique ?live g1 = Inr g2"
    "links V g (set defs \<times> set live \<union> set ?live \<times> set ?live) (Inr g2)" "graph_ok V g2"
    unfolding links_def by (auto simp del: flow_step.simps)
  from Cons.IH [OF g(4) V(3,2)] obtain g3 where g3:
    "interfere_instructions rs ?live g2 = Inr (fold flow_step rs ?live, g3)"
    "links V g2 (instruction_edges rs ?live) (Inr g3)" by blast
  have "links V g (set defs \<times> set live \<union> set ?live \<times> set ?live \<union> instruction_edges rs ?live) (Inr g3)"
    by (rule links_trans [OF g(3) g3(2)])
  with g g3(1) show ?case by (simp add: e Let_def del: flow_step.simps set_flow_step)
qed (simp add: links_Ok)

lemma links_blocks:
  assumes "\<And>b is. (b, is) \<in> set es \<Longrightarrow>
      mentioned is \<subseteq> V \<and> map_of live_out b = Some (after b) \<and> set (after b) \<subseteq> V
      \<and> map_of live_in b = Some (foldr flow_step is (after b))"
  shows "graph_ok V g \<Longrightarrow> links V g (\<Union>(b, is) \<in> set es. live_edges is (after b)) (interfere_blocks live_in live_out es g)"
  using assms
proof (induction es arbitrary: g)
  case (Cons e es)
  obtain b "is" where e: "e = (b, is)" by force
  have b: "mentioned (rev is) \<subseteq> V" "map_of live_out b = Some (after b)" "set (after b) \<subseteq> V"
    "map_of live_in b = Some (foldr flow_step is (after b))"
    using Cons.prems(2) [of b "is"] by (simp_all add: e mentioned_def)
  obtain g1 where g1: "clique (after b) g = Inr g1" "graph_ok V g1"
    and l1: "links V g (set (after b) \<times> set (after b)) (Inr g1)"
    using links_clique [OF Cons.prems(1) b(3)] unfolding links_def by auto
  obtain g2 where g2: "interfere_instructions (rev is) (after b) g1 = Inr (foldr flow_step is (after b), g2)"
    and l2: "links V g1 (instruction_edges (rev is) (after b)) (Inr g2)"
    using links_instructions [OF g1(2) b(1,3)] by (auto simp: foldr_conv_fold)
  then have g2': "graph_ok V g2" unfolding links_def by simp
  have run: "interfere_blocks live_in live_out (e # es) g = interfere_blocks live_in live_out es g2"
    using b g1(1) g2 by (simp add: e map_index_def)
  have l12: "links V g (live_edges is (after b)) (Inr g2)"
    unfolding live_edges_def by (rule links_trans [OF l1 l2])
  have "links V g2 (\<Union>(b, is) \<in> set es. live_edges is (after b)) (interfere_blocks live_in live_out es g2)"
    using Cons.IH [OF g2'] Cons.prems(2) by auto
  then have "links V g (live_edges is (after b) \<union> (\<Union>(b, is) \<in> set es. live_edges is (after b)))
      (interfere_blocks live_in live_out es g2)"
    by (rule links_trans [OF l12])
  then show ?case unfolding run by (simp add: e)
qed (simp add: links_Ok)


section \<open>Colouring\<close>

lemma first_free_spec: "first_free occupied index \<notin> set occupied \<and> 8 dvd first_free occupied index"
proof (induction occupied index rule: first_free.induct)
  case (1 occupied index)
  then show ?case by (subst (1 2) first_free.simps) auto
qed

definition proper :: "variables btree_map \<Rightarrow> nat btree_map \<Rightarrow> bool" where
  "proper g slots \<longleftrightarrow>
     (\<forall>u v. v \<in> set (val g u) \<longrightarrow> u \<noteq> v \<longrightarrow> u \<in> dom (map_of slots) \<longrightarrow> map_of slots u \<noteq> map_of slots v)
     \<and> (\<forall>a \<in> ran (map_of slots). 8 dvd a)"

lemma proper_insert:
  assumes g: "graph_ok V g" and slots: "proper g slots" and x: "x \<notin> dom (map_of slots)"
    and a: "a \<notin> set (List.map_filter (map_of slots) (val g x))" "8 dvd a"
  shows "proper g (map_insert x a slots)"
  unfolding proper_def
proof (intro conjI allI impI)
  have free: "map_of slots v \<noteq> Some a" if "v \<in> set (val g x)" for v
    using a(1) that by (force simp: List.map_filter_def)
  show "map_of (map_insert x a slots) u \<noteq> map_of (map_insert x a slots) v"
    if "v \<in> set (val g u)" "u \<noteq> v" "u \<in> dom (map_of (map_insert x a slots))" for u v
  proof -
    have "u \<in> set (val g v)" using g that(1) unfolding graph_ok_def by blast
    then show ?thesis using that slots free [of u] free [of v] unfolding proper_def by auto
  qed
  show "\<forall>a \<in> ran (map_of (map_insert x a slots)). 8 dvd a"
    using slots a(2) x by (simp add: proper_def ran_map_upd domIff)
qed

lemma assign_slots_spec:
  assumes "graph_ok V g"
  shows "set vs \<subseteq> V \<Longrightarrow> distinct vs \<Longrightarrow> proper g slots \<Longrightarrow> set vs \<inter> dom (map_of slots) = {} \<Longrightarrow>
    \<exists>slots'. assign_slots g vs slots = Inr slots' \<and> proper g slots' \<and> dom (map_of slots') = dom (map_of slots) \<union> set vs"
proof (induction vs arbitrary: slots)
  case (Cons x vs)
  obtain xs where xs: "map_of g x = Some xs" using assms Cons.prems(1) unfolding graph_ok_def by auto
  let ?a = "first_free (List.map_filter (map_of slots) xs) 0"
  have "proper g (map_insert x ?a slots)"
    using Cons.prems xs first_free_spec by (intro proper_insert [OF assms]) auto
  moreover have dom: "dom (map_of (map_insert x ?a slots)) = insert x (dom (map_of slots))" by auto
  ultimately obtain slots' where "assign_slots g vs (map_insert x ?a slots) = Inr slots'" "proper g slots'"
    "dom (map_of slots') = insert x (dom (map_of slots)) \<union> set vs"
    using Cons.IH [of "map_insert x ?a slots"] Cons.prems unfolding dom by auto
  with xs show ?case by (simp add: map_index_def Let_def)
qed simp

section \<open>Classification\<close>

definition param_ids :: "'p ir_param list \<Rightarrow> nat list" where
  "param_ids params = map (\<lambda>p. var_id (binding p)) params"

definition classified :: "nat set \<Rightarrow> variables \<Rightarrow> effect list btree_map \<Rightarrow> nat list btree_map \<Rightarrow> bool" where
  "classified P variables effects successors \<longleftrightarrow>
     ascending variables \<and> P \<subseteq> set variables \<and> distinct (map fst effects)
     \<and> dom (map_of successors) = fst ` set effects
     \<and> (\<forall>(b, is) \<in> set effects. mentioned is \<subseteq> set variables)"

lemma mentioned_simps [simp]:
  "mentioned [] = {}" "mentioned (e # es) = set (fst e) \<union> set (snd e) \<union> mentioned es"
  "mentioned (xs @ ys) = mentioned xs \<union> mentioned ys"
  by (auto simp: mentioned_def)

lemma classify_instructions_spec:
  "classify_instructions abis local_calls is vs acc = Inr (vs', acc') \<Longrightarrow> ascending vs \<Longrightarrow>
     ascending vs' \<and> (\<exists>es. acc' = acc @ es \<and> set vs' = set vs \<union> mentioned es)"
proof (induction "is" arbitrary: vs acc)
  case (Cons i "is")
  then obtain uses defs where e: "instruction_effect abis local_calls i = Inr (uses, defs)"
    "classify_instructions abis local_calls is (set_extend (set_extend vs uses) defs) (acc @ [(uses, defs)]) = Inr (vs', acc')"
    by auto
  from Cons.IH [OF e(2)] Cons.prems(2) obtain es where
    "ascending vs'" "acc' = acc @ (uses, defs) # es" "set vs' = set vs \<union> set uses \<union> set defs \<union> mentioned es"
    by auto
  then show ?case by (intro conjI exI [of _ "(uses, defs) # es"]) auto
qed simp

lemma keys_map_insert [simp]: "fst ` set (map_insert k v m) = insert k (fst ` set m)"
  by (simp add: dom_map_of_conv_image_fst [symmetric])

lemma distinct_map_insert: "map_of m k = None \<Longrightarrow> distinct (map fst m) \<Longrightarrow> distinct (map fst (map_insert k v m))"
  by (induction k v m rule: map_insert.induct) (simp_all add: map_of_eq_None_iff split: if_splits)

lemma set_map_insert: "set (map_insert k v m) \<subseteq> insert (k, v) (set m)"
  by (induction m) (auto split: if_splits)

lemma classified_insert:
  assumes "classified P vs effects successors" "map_of effects b = None"
    "ascending vs'" "set vs \<union> mentioned is \<subseteq> set vs'"
  shows "classified P vs' (map_insert b is effects) (map_insert b ns successors)"
proof -
  have old: "mentioned js \<subseteq> set vs" if "(c, js) \<in> set effects" for c js
    using assms(1) that by (auto simp: classified_def)
  have new: "mentioned js \<subseteq> set vs'" if "(c, js) \<in> set (map_insert b is effects)" for c js
  proof -
    from that set_map_insert [of b "is" effects] have "(c, js) = (b, is) \<or> (c, js) \<in> set effects" by blast
    then show ?thesis using old assms(4) by auto
  qed
  have "dom (map_of (map_insert b ns successors)) = fst ` set (map_insert b is effects)"
    using assms(1) by (simp add: classified_def)
  moreover have "P \<subseteq> set vs'" "distinct (map fst (map_insert b is effects))"
    using assms(1,2,4) by (auto simp: classified_def distinct_map_insert)
  moreover have "\<forall>(c, js) \<in> set (map_insert b is effects). mentioned js \<subseteq> set vs'" using new by blast
  ultimately show ?thesis using assms(3) by (simp add: classified_def)
qed

lemma classify_blocks_spec:
  "classify_blocks abis local_calls bs vs effects successors = Inr (vs', effects', successors') \<Longrightarrow>
     classified P vs effects successors \<Longrightarrow> classified P vs' effects' successors'"
proof (induction bs arbitrary: vs effects successors)
  case (Cons b bs)
  from Cons.prems(1) obtain vs1 es terminal ns where
    e: "classify_instructions abis local_calls (block_instructions b) vs [] = Inr (vs1, es)"
      "terminator_effect (block_terminator b) = Inr (terminal, ns)" "map_of effects (block_id b) = None"
    and rest: "classify_blocks abis local_calls bs (set_extend vs1 terminal)
       (map_insert (block_id b) (es @ [(terminal, [])]) effects) (map_insert (block_id b) ns successors)
       = Inr (vs', effects', successors')"
    by (auto split: if_splits)
  have "ascending vs1" "set vs1 = set vs \<union> mentioned es"
    using classify_instructions_spec [OF e(1)] Cons.prems(2) by (auto simp: classified_def)
  then show ?case
    by (intro Cons.IH [OF rest] classified_insert [OF Cons.prems(2) e(3)]) auto
qed simp

lemma classify_spec:
  assumes "classify body params abis local_calls = Inr (variables, effects, successors)"
  shows "classified (set (param_ids params)) variables effects successors" "closed_graph effects successors"
proof -
  from assms have c: "classify_blocks abis local_calls (body_blocks body) (set_extend [] (param_ids params)) [] []
      = Inr (variables, effects, successors)"
    and closed: "\<And>ns n b. (b, ns) \<in> set successors \<Longrightarrow> n \<in> set ns \<Longrightarrow> map_of effects n \<noteq> None"
    by (auto simp: classify_def param_ids_def list_ex_iff split: if_splits)
  show cl: "classified (set (param_ids params)) variables effects successors"
    by (rule classify_blocks_spec [OF c]) (simp add: classified_def)
  have "\<exists>ns. map_of successors b = Some ns \<and> set ns \<subseteq> fst ` set effects" if "b \<in> fst ` set effects" for b
  proof -
    from that cl obtain ns where ns: "map_of successors b = Some ns" unfolding classified_def by blast
    then have "n \<in> fst ` set effects" if "n \<in> set ns" for n
      using closed [OF map_of_SomeD that] by (simp add: map_of_eq_None_iff)
    with ns show ?thesis by auto
  qed
  with cl show "closed_graph effects successors" by (simp add: closed_graph_def classified_def)
qed

lemma classify_error: "classify body params abis local_calls \<noteq> Inl Panicked"
proof -
  have op: "all_err ((=) Declined) (operand v uses)" for v :: "'a ir_operand" and uses
    by (induction v uses rule: operand.induct) (auto intro: err_intros)
  have ops: "all_err ((=) Declined) (operands vs uses)" for vs :: "'a ir_operand list" and uses
    by (induction vs uses rule: operands.induct) (auto intro: err_intros op)
  have reads: "all_err ((=) Declined) (instruction_reads abis local_calls i)" for i
    by (cases i) (auto intro: err_intros op ops)
  have eff: "all_err ((=) Declined) (instruction_effect abis local_calls i)" for i
    unfolding instruction_effect_def by (auto intro!: err_intros reads split: option.split)
  have ins: "all_err ((=) Declined) (classify_instructions abis local_calls is vs acc)" for "is" vs acc
    by (induction "is" arbitrary: vs acc) (auto intro!: err_intros eff)
  have tm: "all_err ((=) Declined) (terminator_effect t)" for t :: "'a ir_terminator"
    by (induction t rule: terminator_effect.induct) (auto intro!: err_intros op)
  have bls: "all_err ((=) Declined) (classify_blocks abis local_calls bs vs effects successors)" for bs vs effects successors
    by (induction bs arbitrary: vs effects successors) (auto intro!: err_intros ins tm)
  have "all_err ((=) Declined) (classify body params abis local_calls)"
    unfolding classify_def by (auto intro!: err_intros bls)
  then show ?thesis by (auto dest: all_errD)
qed


section \<open>Allocation\<close>

text \<open>Variables that may hold values at the same time: what an assignment of slots must separate.\<close>

definition conflict :: "effect list btree_map \<Rightarrow> nat list btree_map \<Rightarrow> nat \<Rightarrow> nat \<Rightarrow> bool" where
  "conflict effects successors u v \<longleftrightarrow>
     (\<exists>b i. live_at effects successors b i u \<and> live_at effects successors b i v)
     \<or> (\<exists>b is i. map_of effects b = Some is \<and> i < length is \<and> u \<in> set (snd (is ! i))
          \<and> live_at effects successors b (Suc i) v)"

definition separates :: "nat set \<Rightarrow> effect list btree_map \<Rightarrow> nat list btree_map \<Rightarrow> nat btree_map \<Rightarrow> bool" where
  "separates P effects successors slots \<longleftrightarrow>
     (\<forall>u v. (u \<in> P \<and> v \<in> P) \<or> conflict effects successors u v \<longrightarrow> u \<noteq> v \<longrightarrow> map_of slots u \<noteq> map_of slots v)"

lemma live_at_position:
  "live_at effects successors b i v \<Longrightarrow> \<exists>is. map_of effects b = Some is \<and> i \<le> length is"
  by (induction rule: live_at.induct) auto

lemma live_edges_end: "set live \<times> set live \<subseteq> live_edges is live"
  by (simp add: live_edges_def)

lemma conflict_edge:
  assumes flow: "closed_graph effects successors" "flow_inv effects successors live_in live_out"
    "list_all (stable successors live_in live_out) effects" and "conflict effects successors u v"
  obtains b "is" where "map_of effects b = Some is" "(u, v) \<in> live_edges is (val live_out b)"
  using assms(4) unfolding conflict_def
proof (elim disjE exE conjE)
  fix b i assume live: "live_at effects successors b i u" "live_at effects successors b i v"
  then obtain "is" where b: "map_of effects b = Some is" "i \<le> length is" using live_at_position by blast
  have mem: "(u, v) \<in> set (foldr flow_step (drop i is) (val live_out b)) \<times> set (foldr flow_step (drop i is) (val live_out b))"
    using live live_at_iff [OF flow b] by blast
  have "(u, v) \<in> live_edges is (val live_out b)"
  proof (cases "i < length is")
    case True
    from live_edges_at(2) [OF this] mem show ?thesis by (rule subsetD)
  next
    case False
    with mem have "(u, v) \<in> set (val live_out b) \<times> set (val live_out b)" by simp
    then show ?thesis by (rule subsetD [OF live_edges_end])
  qed
  with b(1) show thesis by (rule that)
next
  fix b "is" i assume b: "map_of effects b = Some is" and i: "i < length is"
    and u: "u \<in> set (snd (is ! i))" and v: "live_at effects successors b (Suc i) v"
  have "v \<in> set (foldr flow_step (drop (Suc i) is) (val live_out b))"
    using v live_at_iff [OF flow b, of "Suc i"] i by simp
  with u have "(u, v) \<in> live_edges is (val live_out b)" by (intro subsetD [OF live_edges_at(1) [OF i]] SigmaI)
  with b show thesis by (rule that)
qed

lemma read_vars_classified:
  assumes cl: "classified P variables effects successors"
  shows "read_vars effects \<subseteq> set variables"
proof
  fix v assume "v \<in> read_vars effects"
  then obtain c js e where "(c, js) \<in> set effects" "e \<in> set js" "v \<in> set (fst e)" by (auto simp: read_vars_def)
  moreover from this have "v \<in> mentioned js" by (auto simp: mentioned_def)
  ultimately show "v \<in> set variables" using cl by (auto simp: classified_def)
qed

lemma live_out_blocks:
  assumes cl: "classified P variables effects successors" and inv: "flow_inv effects successors live_in live_out"
    "list_all (stable successors live_in live_out) effects" and mem: "(b, is) \<in> set effects"
  shows "mentioned is \<subseteq> set variables \<and> map_of live_out b = Some (val live_out b)
    \<and> set (val live_out b) \<subseteq> set variables \<and> map_of live_in b = Some (foldr flow_step is (val live_out b))"
proof -
  have b: "map_of effects b = Some is" and key: "b \<in> fst ` set effects"
    using cl mem by (auto simp: classified_def intro: rev_image_eqI)
  then have live: "\<forall>v \<in> set (val live_out b). live_at effects successors b (length is) v"
    using inv(1) unfolding flow_inv_def by blast
  note read_vars_classified [OF cl]
  with live live_at_read have "set (val live_out b) \<subseteq> set variables" by blast
  moreover obtain x y where "map_of live_in b = Some x" "map_of live_out b = Some y"
    using inv(1) key unfolding flow_inv_def by blast
  moreover have "val live_in b = foldr flow_step is (val live_out b)"
    using inv(2) mem by (auto simp: list_all_iff stable_def)
  ultimately show ?thesis using cl mem by (auto simp: classified_def)
qed

lemma color_spec:
  assumes cl: "classified P variables effects successors" and closed: "closed_graph effects successors"
    and inv: "flow_inv effects successors live_in live_out" "list_all (stable successors live_in live_out) effects"
    and P: "set (param_ids params) \<subseteq> P"
  obtains slots where "color params variables effects live_in live_out = Inr slots"
    "dom (map_of slots) = set variables" "\<forall>a \<in> ran (map_of slots). 8 dvd a"
    "separates (set (param_ids params)) effects successors slots"
proof -
  let ?V = "set variables" and ?ps = "set_extend [] (param_ids params)"
  let ?E = "\<Union>(b, is) \<in> set effects. live_edges is (val live_out b)"
  have g0: "graph_ok ?V (map (\<lambda>var. (var, [])) variables)"
  proof -
    have "map_of (map (\<lambda>var. (var, [])) variables) = (\<lambda>v. if v \<in> ?V then Some ([] :: variables) else None)"
      by (induction variables) auto
    then show ?thesis by (auto simp: graph_ok_def val_def split: if_splits)
  qed
  note block = live_out_blocks [OF cl inv]
  have "set ?ps \<subseteq> ?V" using P cl by (auto simp: classified_def)
  note params = links_clique [OF g0 this]
  obtain g1 where g1: "clique ?ps (map (\<lambda>var. (var, [])) variables) = Inr g1" "graph_ok ?V g1"
    and l1: "links ?V (map (\<lambda>var. (var, [])) variables) (set ?ps \<times> set ?ps) (Inr g1)"
    by (rule linksE [OF params])
  obtain g2 where g2: "interfere_blocks live_in live_out effects g1 = Inr g2" "graph_ok ?V g2"
    and l2: "links ?V g1 ?E (Inr g2)"
    by (rule linksE [OF links_blocks [where after = "val live_out", OF block g1(2)]])
  have edges: "v \<in> set (val g2 u)" if "(u, v) \<in> set ?ps \<times> set ?ps \<union> ?E" "u \<noteq> v" for u v
    using links_trans [OF l1 l2] that unfolding links_def by blast
  obtain slots where slots: "assign_slots g2 variables [] = Inr slots" "proper g2 slots" "dom (map_of slots) = ?V"
    using assign_slots_spec [OF g2(2), of variables "[]"] cl by (auto simp: proper_def classified_def ascending_distinct)
  have apart: "map_of slots u \<noteq> map_of slots v" if "(u, v) \<in> set ?ps \<times> set ?ps \<union> ?E" "u \<noteq> v" for u v
  proof -
    have "v \<in> set (val g2 u)" by (rule edges [OF that])
    moreover from this have "map_of g2 u \<noteq> None" by (cases "map_of g2 u") (auto simp: val_def)
    then have "u \<in> ?V" using g2(2) unfolding graph_ok_def by blast
    ultimately show ?thesis using slots(2,3) that(2) unfolding proper_def by blast
  qed
  have edge: "(u, v) \<in> ?E" if "conflict effects successors u v" for u v
    by (rule conflict_edge [OF closed inv that]) (blast dest: map_of_SomeD)
  have "separates (set (param_ids params)) effects successors slots"
    unfolding separates_def using apart edge by (metis (no_types, lifting) SigmaI UnCI Un_empty_left list.set(1) set_set_extend)
  then show thesis
  proof (rule that [rotated 3])
    show "color params variables effects live_in live_out = Inr slots"
      using g1 g2 slots by (simp add: color_def param_ids_def)
  qed (use slots in \<open>simp_all add: proper_def\<close>)
qed

lemma allocate_cases:
  assumes "classify body params abis local_calls = Inr (variables, effects, successors)"
  obtains slots where "allocate body params abis local_calls = Some (Inr slots)"
    "dom (map_of slots) = set variables" "\<forall>a \<in> ran (map_of slots). 8 dvd a"
    "separates (set (param_ids params)) effects successors slots"
proof -
  note cl = classify_spec [OF assms]
  obtain live_in live_out where l: "liveness effects successors = Some (Inr (live_in, live_out))"
    "flow_inv effects successors live_in live_out" "list_all (stable successors live_in live_out) effects"
    by (rule liveness_returns [OF cl(2)])
  then have run: "allocate body params abis local_calls = Some (color params variables effects live_in live_out)"
    by (simp add: allocate_def assms)
  show thesis by (rule color_spec [OF cl l(2,3) order_refl]) (rule that, simp_all add: run)
qed

text \<open>The allocator always returns, and never by a panic.\<close>

lemma allocate_total: "\<exists>r. allocate body params abis local_calls = Some r \<and> r \<noteq> Inl Panicked"
proof (cases "classify body params abis local_calls")
  case (Inl e)
  then show ?thesis using classify_error [of body params abis local_calls] by (simp add: allocate_def)
next
  case (Inr r)
  then obtain variables effects successors where
    "classify body params abis local_calls = Inr (variables, effects, successors)" by (cases r) auto
  then show ?thesis by (rule allocate_cases) simp
qed

section \<open>Execution on slots\<close>

text \<open>
  A machine that runs a classified body: \<open>loc\<close> says where each variable is kept, \<open>compute\<close> is
  what the instruction at a position does with the values it reads (next to the rest of the state,
  \<open>'h\<close>: named variables, memory, syscalls), and \<open>select\<close> is the block the terminator selects. With
  \<open>loc = id\<close> every variable has its own cell; with the allocated slots they share the frame.
\<close>

type_synonym ('h, 'v) config = "nat \<times> nat \<times> 'h \<times> (nat \<Rightarrow> 'v)"

definition exec_step ::
  "(nat \<Rightarrow> nat) \<Rightarrow> (nat \<Rightarrow> nat \<Rightarrow> 'h \<Rightarrow> 'v list \<Rightarrow> 'h \<times> 'v) \<Rightarrow> (nat \<Rightarrow> 'h \<Rightarrow> nat) \<Rightarrow> effect list btree_map
     \<Rightarrow> nat list btree_map \<Rightarrow> ('h, 'v) config \<Rightarrow> ('h, 'v) config option" where
  "exec_step loc compute select effects successors = (\<lambda>(b, i, h, m).
     case map_of effects b of
       None \<Rightarrow> None
     | Some is \<Rightarrow>
         if i < length is
         then (let (h', x) = compute b i h (map (\<lambda>u. m (loc u)) (fst (is ! i)))
               in Some (b, Suc i, h', \<lambda>a. if a \<in> loc ` set (snd (is ! i)) then x else m a))
         else if i = length is \<and> select b h \<in> set (val successors b) then Some (select b h, 0, h, m)
         else None)"

fun exec ::
  "(nat \<Rightarrow> nat) \<Rightarrow> (nat \<Rightarrow> nat \<Rightarrow> 'h \<Rightarrow> 'v list \<Rightarrow> 'h \<times> 'v) \<Rightarrow> (nat \<Rightarrow> 'h \<Rightarrow> nat) \<Rightarrow> effect list btree_map
     \<Rightarrow> nat list btree_map \<Rightarrow> nat \<Rightarrow> ('h, 'v) config \<Rightarrow> ('h, 'v) config option" where
  "exec loc compute select effects successors 0 c = Some c"
| "exec loc compute select effects successors (Suc n) c =
     Option.bind (exec_step loc compute select effects successors c) (exec loc compute select effects successors n)"

definition spill :: "(nat \<Rightarrow> nat) \<Rightarrow> (nat \<Rightarrow> 'v) \<Rightarrow> nat list \<Rightarrow> (nat \<Rightarrow> 'v) \<Rightarrow> nat \<Rightarrow> 'v" where
  "spill loc args params m = fold (\<lambda>p m. m(loc p := args p)) params m"

definition slot_of :: "nat btree_map \<Rightarrow> nat \<Rightarrow> nat" where
  "slot_of slots v = (case map_of slots v of None \<Rightarrow> 0 | Some a \<Rightarrow> a)"

definition agree ::
  "effect list btree_map \<Rightarrow> nat list btree_map \<Rightarrow> nat btree_map \<Rightarrow> ('h, 'v) config \<Rightarrow> ('h, 'v) config \<Rightarrow> bool" where
  "agree effects successors slots = (\<lambda>(b, i, h, s) (b', i', h', m).
     b' = b \<and> i' = i \<and> h' = h \<and> (\<forall>v. live_at effects successors b i v \<longrightarrow> m (slot_of slots v) = s v))"

lemma spill_apart:
  assumes "\<And>u. u \<in> set ps \<Longrightarrow> u \<noteq> v \<Longrightarrow> loc u \<noteq> loc v"
  shows "v \<in> set ps \<or> m (loc v) = args v \<Longrightarrow> spill loc args ps m (loc v) = args v"
  using assms
proof (induction ps arbitrary: m)
  case (Cons p ps)
  have "spill loc args (p # ps) m = spill loc args ps (m(loc p := args p))" by (simp add: spill_def)
  moreover have "v \<in> set ps \<or> (m(loc p := args p)) (loc v) = args v"
    using Cons.prems(1) Cons.prems(2) [of p] by (cases "p = v") auto
  ultimately show ?case using Cons.IH Cons.prems(2) by (metis list.set_intros(2))
qed (simp add: spill_def)

lemma agree_step:
  assumes inj: "\<And>u v. conflict effects successors u v \<Longrightarrow> u \<noteq> v \<Longrightarrow> slot_of slots u \<noteq> slot_of slots v"
    and "agree effects successors slots c d"
  shows "rel_option (agree effects successors slots) (exec_step id compute select effects successors c)
    (exec_step (slot_of slots) compute select effects successors d)"
proof -
  obtain b i h s where c: "c = (b, i, h, s)" by (metis prod_cases4)
  then obtain m where d: "d = (b, i, h, m)"
    and eq: "\<And>v. live_at effects successors b i v \<Longrightarrow> m (slot_of slots v) = s v"
    using assms(2) by (cases d) (auto simp: agree_def)
  show ?thesis
  proof (cases "map_of effects b")
    case (Some "is")
    show ?thesis
    proof (cases "i < length is")
      case True
      let ?uses = "fst (is ! i)" and ?defs = "snd (is ! i)"
      have reads: "map (\<lambda>u. m (slot_of slots u)) ?uses = map s ?uses"
        using eq live_at.read [OF Some True] by auto
      obtain h' x where r: "compute b i h (map s ?uses) = (h', x)" by force
      have "(if slot_of slots v \<in> slot_of slots ` set ?defs then x else m (slot_of slots v))
          = (if v \<in> set ?defs then x else s v)" if v: "live_at effects successors b (Suc i) v" for v
      proof (cases "v \<in> set ?defs")
        case False
        have "slot_of slots u \<noteq> slot_of slots v" if "u \<in> set ?defs" for u
          using inj [of u v] that v Some True False unfolding conflict_def by blast
        then have "slot_of slots v \<notin> slot_of slots ` set ?defs" by force
        moreover have "m (slot_of slots v) = s v"
          by (rule eq) (rule live_at.keep [OF Some True False v])
        ultimately show ?thesis using False by simp
      qed auto
      then show ?thesis
        unfolding c d exec_step_def by (simp add: Some True reads r agree_def)
    next
      case False
      have "agree effects successors slots (select b h, 0, h, s) (select b h, 0, h, m)"
        if i: "i = length is" and n: "select b h \<in> set (val successors b)"
      proof -
        obtain ns where ns: "map_of successors b = Some ns" using n by (cases "map_of successors b") (auto simp: val_def)
        have "m (slot_of slots v) = s v" if v: "live_at effects successors (select b h) 0 v" for v
          using eq live_at.edge [OF Some ns _ v] ns i n by simp
        then show ?thesis by (simp add: agree_def)
      qed
      with False Some show ?thesis unfolding c d exec_step_def by simp
    qed
  qed (simp add: c d exec_step_def)
qed

lemma agree_exec:
  assumes inj: "\<And>u v. conflict effects successors u v \<Longrightarrow> u \<noteq> v \<Longrightarrow> slot_of slots u \<noteq> slot_of slots v"
  shows "agree effects successors slots c d \<Longrightarrow>
    rel_option (agree effects successors slots) (exec id compute select effects successors n c)
      (exec (slot_of slots) compute select effects successors n d)"
proof (induction n arbitrary: c d)
  case (Suc n)
  have "rel_option (agree effects successors slots) (exec_step id compute select effects successors c)
      (exec_step (slot_of slots) compute select effects successors d)"
    using inj Suc.prems by (rule agree_step)
  moreover have "rel_fun (agree effects successors slots) (rel_option (agree effects successors slots))
      (exec id compute select effects successors n) (exec (slot_of slots) compute select effects successors n)"
    using Suc.IH by (rule rel_funI)
  ultimately show ?case
    unfolding exec.simps by (rule rel_funD [OF rel_funD [OF option_bind_transfer]])
qed simp


lemma slot_of_apart:
  "u \<in> dom (map_of slots) \<Longrightarrow> v \<in> dom (map_of slots) \<Longrightarrow> map_of slots u \<noteq> map_of slots v \<Longrightarrow> slot_of slots u \<noteq> slot_of slots v"
  by (auto simp: slot_of_def)

lemma conflict_dom:
  assumes "classified P variables effects successors" "conflict effects successors u v"
  shows "u \<in> set variables" "v \<in> set variables"
proof -
  have live: "x \<in> set variables" if "live_at effects successors b i x" for b i x
    using live_at_read [OF that] read_vars_classified [OF assms(1)] by blast
  have "x \<in> set variables" if "map_of effects b = Some is" "i < length is" "x \<in> set (snd (is ! i))" for b "is" i x
  proof -
    have "(b, is) \<in> set effects" "x \<in> mentioned is" using that by (auto dest: map_of_SomeD simp: mentioned_def)
    then show ?thesis using assms(1) by (auto simp: classified_def)
  qed
  with live assms(2) show "u \<in> set variables" "v \<in> set variables" unfolding conflict_def by blast+
qed

lemma live_in_exact:
  assumes "closed_graph effects successors" "liveness effects successors = Some (Inr (live_in, live_out))"
    "map_of live_in b = Some before" "live_at effects successors b 0 v"
  shows "v \<in> set before"
proof -
  have inv: "flow_inv effects successors live_in live_out" "list_all (stable successors live_in live_out) effects"
    using assms(2) by (auto intro: liveness_returns [OF assms(1)])
  obtain "is" where b: "map_of effects b = Some is" using live_at_position [OF assms(4)] by blast
  then have "stable successors live_in live_out (b, is)"
    using inv(2) by (auto simp: list_all_iff dest: map_of_SomeD)
  with live_at_iff [OF assms(1) inv b, of 0 v] assms(3,4) show ?thesis by (simp add: stable_def)
qed

text \<open>The refinement for the machine that runs on the classified effects.\<close>

lemma slots_refine_effects:
  assumes "classify body params abis local_calls = Inr (variables, effects, successors)"
    and "liveness effects successors = Some (Inr (live_in, live_out))"
    and "map_of live_in entry = Some before" and "set before \<subseteq> set (param_ids params)"
  shows "\<exists>slots. allocate body params abis local_calls = Some (Inr slots) \<and> (\<forall>v. 8 dvd slot_of slots v)
    \<and> rel_option (agree effects successors slots)
        (exec id compute select effects successors n (entry, 0, h, spill id args (param_ids params) s))
        (exec (slot_of slots) compute select effects successors n
           (entry, 0, h, spill (slot_of slots) args (param_ids params) m))"
proof -
  note cl = classify_spec [OF assms(1)]
  obtain slots where slots: "allocate body params abis local_calls = Some (Inr slots)" "dom (map_of slots) = set variables"
      "\<forall>a \<in> ran (map_of slots). 8 dvd a"
      "separates (set (param_ids params)) effects successors slots"
    by (rule allocate_cases [OF assms(1)])
  have inj: "slot_of slots u \<noteq> slot_of slots v" if "conflict effects successors u v" "u \<noteq> v" for u v
    using conflict_dom [OF cl(1) that(1)] that slots(2,4) by (intro slot_of_apart) (auto simp: separates_def)
  have pinj: "slot_of slots u \<noteq> slot_of slots v"
    if "u \<in> set (param_ids params)" "v \<in> set (param_ids params)" "u \<noteq> v" for u v
    using that slots(2,4) cl(1) by (intro slot_of_apart) (auto simp: separates_def classified_def)
  have live: "v \<in> set (param_ids params)" if "live_at effects successors entry 0 v" for v
    using live_in_exact [OF cl(2) assms(2,3) that] assms(4) by blast
  have "agree effects successors slots (entry, 0, h, spill id args (param_ids params) s)
      (entry, 0, h, spill (slot_of slots) args (param_ids params) m)"
    using live spill_apart [of "param_ids params" _ "slot_of slots" m args] spill_apart [of "param_ids params" _ id s args] pinj
    by (simp add: agree_def)
  with inj have "rel_option (agree effects successors slots)
      (exec id compute select effects successors n (entry, 0, h, spill id args (param_ids params) s))
      (exec (slot_of slots) compute select effects successors n
         (entry, 0, h, spill (slot_of slots) args (param_ids params) m))"
    by (rule agree_exec)
  moreover have "8 dvd slot_of slots v" for v
    using slots(3) by (cases "map_of slots v") (auto simp: slot_of_def ranI)
  ultimately show ?thesis using slots(1) by blast
qed

section \<open>Execution of the instructions\<close>

text \<open>
  The operands of the instructions a classified body may contain and the variables among them, in the
  order they are written; the variable an instruction writes; the operands and targets of a terminator.
\<close>

fun instruction_operands :: "'p ir_instruction \<Rightarrow> 'p ir_operand list" where
  "instruction_operands (StoreVar _ src) = [src]"
| "instruction_operands (Move _ src) = [src]"
| "instruction_operands (Unary _ _ v) = [v]"
| "instruction_operands (Binary _ _ left right) = [left, right]"
| "instruction_operands (Call _ _ args) = args"
| "instruction_operands _ = []"

fun instruction_dest :: "'p ir_instruction \<Rightarrow> 'p ir_var option" where
  "instruction_dest (LoadConst dest _) = Some dest"
| "instruction_dest (LoadVar dest _) = Some dest"
| "instruction_dest (Move dest _) = Some dest"
| "instruction_dest (Unary dest _ _) = Some dest"
| "instruction_dest (Binary dest _ _ _) = Some dest"
| "instruction_dest (Call dest _ _) = dest"
| "instruction_dest _ = None"

fun terminator_operands :: "'p ir_terminator \<Rightarrow> 'p ir_operand list" where
  "terminator_operands (Return (Some v)) = [v]"
| "terminator_operands (Branch cond _ _) = [cond]"
| "terminator_operands _ = []"

fun terminator_targets :: "'p ir_terminator \<Rightarrow> nat list" where
  "terminator_targets (Jump next) = [next]"
| "terminator_targets (Branch _ then_block else_block) = [then_block, else_block]"
| "terminator_targets (Return _) = []"

fun operand_ids :: "'p ir_operand list \<Rightarrow> nat list" where
  "operand_ids [] = []"
| "operand_ids (Var v # ops) = var_id v # operand_ids ops"
| "operand_ids (Const _ # ops) = operand_ids ops"

text \<open>
  The machine that runs the instructions of the body: an instruction gets the values of its variable
  operands and its result goes to the place of its destination; the terminator gets the value of its
  operand and then control goes to one of its targets.
\<close>

definition ir_step ::
  "(nat \<Rightarrow> nat) \<Rightarrow> (nat \<Rightarrow> nat \<Rightarrow> 'h \<Rightarrow> 'v list \<Rightarrow> 'h \<times> 'v) \<Rightarrow> (nat \<Rightarrow> 'h \<Rightarrow> nat) \<Rightarrow> 'p ir_body
     \<Rightarrow> ('h, 'v) config \<Rightarrow> ('h, 'v) config option" where
  "ir_step loc compute select body = (\<lambda>(b, i, h, m).
     case List.find (\<lambda>blk. block_id blk = b) (body_blocks body) of
       None \<Rightarrow> None
     | Some blk \<Rightarrow>
         let is = block_instructions blk; t = block_terminator blk;
             values = (\<lambda>ops. map (\<lambda>u. m (loc u)) (operand_ids ops))
         in if i < length is
            then (let (h', x) = compute b i h (values (instruction_operands (is ! i)))
                  in Some (b, Suc i, h',
                       case instruction_dest (is ! i) of None \<Rightarrow> m | Some d \<Rightarrow> m(loc (var_id d) := x)))
            else if i = length is
            then Some (b, Suc i, fst (compute b i h (values (terminator_operands t))), m)
            else if i = Suc (length is) \<and> select b h \<in> set (terminator_targets t)
            then Some (select b h, 0, h, m)
            else None)"

fun ir_exec ::
  "(nat \<Rightarrow> nat) \<Rightarrow> (nat \<Rightarrow> nat \<Rightarrow> 'h \<Rightarrow> 'v list \<Rightarrow> 'h \<times> 'v) \<Rightarrow> (nat \<Rightarrow> 'h \<Rightarrow> nat) \<Rightarrow> 'p ir_body
     \<Rightarrow> nat \<Rightarrow> ('h, 'v) config \<Rightarrow> ('h, 'v) config option" where
  "ir_exec loc compute select body 0 c = Some c"
| "ir_exec loc compute select body (Suc n) c =
     Option.bind (ir_step loc compute select body c) (ir_exec loc compute select body n)"

text \<open>The effects of a block are those of its instructions and its terminator.\<close>

definition reads_operands :: "effect \<Rightarrow> 'p ir_operand list \<Rightarrow> bool" where
  "reads_operands e ops \<longleftrightarrow> set (fst e) = set (operand_ids ops)"

definition block_effects :: "'p ir_basic_block \<Rightarrow> effect list \<Rightarrow> bool" where
  "block_effects blk es \<longleftrightarrow>
     (\<exists>body_effects terminal. es = body_effects @ [(terminal, [])]
        \<and> reads_operands (terminal, []) (terminator_operands (block_terminator blk))
        \<and> list_all2 (\<lambda>i e. reads_operands e (instruction_operands i)
             \<and> snd e = (case instruction_dest i of None \<Rightarrow> [] | Some d \<Rightarrow> [var_id d]))
             (block_instructions blk) body_effects)"

lemma operand_ids_operand: "operand v uses = Inr uses' \<Longrightarrow> set uses' = set (operand_ids [v]) \<union> set uses"
  by (induction v uses rule: operand.induct) (auto split: if_splits)

lemma operand_ids_operands: "operands vs uses = Inr uses' \<Longrightarrow> set uses' = set (operand_ids vs) \<union> set uses"
proof (induction vs arbitrary: uses)
  case (Cons v vs)
  then obtain u where "operand v uses = Inr u" "operands vs u = Inr uses'" by auto
  with Cons.IH operand_ids_operand [of v uses u] show ?case by (cases v) auto
qed simp

lemma instruction_reads_operands:
  assumes "instruction_reads abis local_calls i = Inr (uses, dest)"
  shows "set uses = set (operand_ids (instruction_operands i)) \<and> dest = instruction_dest i"
proof (cases i)
  case (Binary d oper l r)
  with assms obtain u where "operand l [] = Inr u" "operand r u = Inr uses" "dest = Some d" by auto
  with operand_ids_operand [of l "[]" u] operand_ids_operand [of r u uses] Binary show ?thesis
    by (cases l; cases r) auto
next
  case (Call d func args)
  with assms show ?thesis by (auto dest!: operand_ids_operands split: if_splits)
qed (use assms in \<open>auto dest!: operand_ids_operand\<close>)

lemma instruction_effect_operands:
  assumes "instruction_effect abis local_calls i = Inr e"
  shows "reads_operands e (instruction_operands i)"
    "snd e = (case instruction_dest i of None \<Rightarrow> [] | Some d \<Rightarrow> [var_id d])"
proof -
  from assms obtain uses dest where "instruction_reads abis local_calls i = Inr (uses, dest)"
    "e = (uses, case dest of None \<Rightarrow> [] | Some d \<Rightarrow> [var_id d])"
    by (auto simp: instruction_effect_def split: option.splits if_splits)
  with instruction_reads_operands [of abis local_calls i uses dest]
  show "reads_operands e (instruction_operands i)"
    "snd e = (case instruction_dest i of None \<Rightarrow> [] | Some d \<Rightarrow> [var_id d])"
    by (simp_all add: reads_operands_def)
qed

lemma classify_instructions_effects:
  "classify_instructions abis local_calls is vs acc = Inr (vs', acc') \<Longrightarrow>
     \<exists>es. acc' = acc @ es \<and> list_all2 (\<lambda>i e. reads_operands e (instruction_operands i)
       \<and> snd e = (case instruction_dest i of None \<Rightarrow> [] | Some d \<Rightarrow> [var_id d])) is es"
proof (induction "is" arbitrary: vs acc)
  case (Cons i "is")
  then obtain uses defs where e: "instruction_effect abis local_calls i = Inr (uses, defs)"
    "classify_instructions abis local_calls is (set_extend (set_extend vs uses) defs) (acc @ [(uses, defs)]) = Inr (vs', acc')"
    by auto
  from Cons.IH [OF e(2)] obtain es where "acc' = acc @ (uses, defs) # es"
    "list_all2 (\<lambda>i e. reads_operands e (instruction_operands i)
       \<and> snd e = (case instruction_dest i of None \<Rightarrow> [] | Some d \<Rightarrow> [var_id d])) is es" by auto
  with instruction_effect_operands [OF e(1)] show ?case by (intro exI [of _ "(uses, defs) # es"]) simp
qed simp

lemma terminator_effect_operands:
  "terminator_effect t = Inr (terminal, next) \<Longrightarrow>
     set terminal = set (operand_ids (terminator_operands t)) \<and> next = terminator_targets t"
  by (induction t rule: terminator_effect.induct) (auto dest!: operand_ids_operand)

lemma classify_blocks_effects:
  "classify_blocks abis local_calls bs vs effects successors = Inr (vs', effects', successors') \<Longrightarrow>
     (\<forall>b. map_of effects b \<noteq> None \<longrightarrow> List.find (\<lambda>blk. block_id blk = b) bs = None
        \<and> map_of effects' b = map_of effects b \<and> val successors' b = val successors b)
     \<and> (\<forall>b. map_of effects b = None \<longrightarrow>
          (case List.find (\<lambda>blk. block_id blk = b) bs of
             None \<Rightarrow> map_of effects' b = None
           | Some blk \<Rightarrow> (\<exists>es. map_of effects' b = Some es \<and> block_effects blk es)
               \<and> val successors' b = terminator_targets (block_terminator blk)))"
proof (induction bs arbitrary: vs effects successors)
  case (Cons c bs)
  from Cons.prems obtain vs1 es terminal ns where
    e: "classify_instructions abis local_calls (block_instructions c) vs [] = Inr (vs1, es)"
      "terminator_effect (block_terminator c) = Inr (terminal, ns)" "map_of effects (block_id c) = None"
    and rest: "classify_blocks abis local_calls bs (set_extend vs1 terminal)
       (map_insert (block_id c) (es @ [(terminal, [])]) effects) (map_insert (block_id c) ns successors)
       = Inr (vs', effects', successors')"
    by (auto split: if_splits)
  have "block_effects c (es @ [(terminal, [])])" "ns = terminator_targets (block_terminator c)"
    using classify_instructions_effects [OF e(1)] terminator_effect_operands [OF e(2)]
    by (auto simp: block_effects_def reads_operands_def)
  with Cons.IH [OF rest] e(3) show ?case by (auto simp: val_def)
qed simp

lemma classify_effects:
  assumes "classify body params abis local_calls = Inr (variables, effects, successors)"
  shows "case List.find (\<lambda>blk. block_id blk = b) (body_blocks body) of
      None \<Rightarrow> map_of effects b = None
    | Some blk \<Rightarrow> (\<exists>es. map_of effects b = Some es \<and> block_effects blk es)
        \<and> val successors b = terminator_targets (block_terminator blk)"
proof -
  from assms have "classify_blocks abis local_calls (body_blocks body) (set_extend [] (param_ids params)) [] []
      = Inr (variables, effects, successors)"
    by (auto simp: classify_def param_ids_def split: if_splits)
  from classify_blocks_effects [OF this] show ?thesis by simp
qed

text \<open>
  The machine on the instructions is the machine on the effects: the values an instruction gets are
  among those of the variables its effect reads.
\<close>

definition position :: "nat list \<Rightarrow> nat \<Rightarrow> nat" where
  "position xs u = length (takeWhile ((\<noteq>) u) xs)"

lemma nth_position: "u \<in> set xs \<Longrightarrow> map f xs ! position xs u = f u"
  by (induction xs) (auto simp: position_def)

lemma map_position: "set us \<subseteq> set xs \<Longrightarrow> map (\<lambda>u. map f xs ! position xs u) us = map f us"
  by (auto intro: nth_position)

definition compute_effects ::
  "'p ir_body \<Rightarrow> effect list btree_map \<Rightarrow> (nat \<Rightarrow> nat \<Rightarrow> 'h \<Rightarrow> 'v list \<Rightarrow> 'h \<times> 'v) \<Rightarrow> nat \<Rightarrow> nat \<Rightarrow> 'h \<Rightarrow> 'v list \<Rightarrow> 'h \<times> 'v"
where
  "compute_effects body effects compute b i h xs =
     (case List.find (\<lambda>blk. block_id blk = b) (body_blocks body) of
        None \<Rightarrow> compute b i h []
      | Some blk \<Rightarrow>
          compute b i h (map (\<lambda>u. xs ! position (fst (val effects b ! i)) u)
            (operand_ids (if i < length (block_instructions blk)
               then instruction_operands (block_instructions blk ! i)
               else terminator_operands (block_terminator blk)))))"

lemma ir_step_effects:
  assumes "classify body params abis local_calls = Inr (variables, effects, successors)"
  shows "ir_step loc compute select body c
    = exec_step loc (compute_effects body effects compute) select effects successors c"
proof -
  obtain b i h m where c: "c = (b, i, h, m)" by (cases c)
  show ?thesis
  proof (cases "List.find (\<lambda>blk. block_id blk = b) (body_blocks body)")
    case None
    with classify_effects [OF assms, of b] show ?thesis by (simp add: c ir_step_def exec_step_def)
  next
    case (Some blk)
    with classify_effects [OF assms, of b] obtain es where es: "map_of effects b = Some es" "block_effects blk es"
      and succ: "val successors b = terminator_targets (block_terminator blk)" by auto
    from es(2) obtain bes terminal where bes: "es = bes @ [(terminal, [])]"
      "reads_operands (terminal, []) (terminator_operands (block_terminator blk))"
      "list_all2 (\<lambda>i e. reads_operands e (instruction_operands i)
         \<and> snd e = (case instruction_dest i of None \<Rightarrow> [] | Some d \<Rightarrow> [var_id d])) (block_instructions blk) bes"
      unfolding block_effects_def by blast
    from bes(3) have len: "length bes = length (block_instructions blk)" by (simp add: list_all2_lengthD)
    have val: "val effects b = es" by (simp add: val_def es(1))
    consider "i < length bes" | "i = length bes" | "length bes < i" by linarith
    then show ?thesis
    proof cases
      case 1
      with bes(3) len have e: "set (operand_ids (instruction_operands (block_instructions blk ! i))) = set (fst (bes ! i))"
        "snd (bes ! i) = (case instruction_dest (block_instructions blk ! i) of None \<Rightarrow> [] | Some d \<Rightarrow> [var_id d])"
        by (auto simp: list_all2_conv_all_nth reads_operands_def)
      let ?ops = "operand_ids (instruction_operands (block_instructions blk ! i))"
      have "compute_effects body effects compute b i h (map (\<lambda>u. m (loc u)) (fst (bes ! i)))
        = compute b i h (map (\<lambda>u. map (\<lambda>u. m (loc u)) (fst (bes ! i)) ! position (fst (bes ! i)) u) ?ops)"
        using 1 len Some by (simp add: compute_effects_def val bes(1) nth_append)
      also have "\<dots> = compute b i h (map (\<lambda>u. m (loc u)) ?ops)"
        using e(1) by (subst map_position) simp_all
      finally have ce: "compute_effects body effects compute b i h (map (\<lambda>u. m (loc u)) (fst (bes ! i)))
        = compute b i h (map (\<lambda>u. m (loc u)) ?ops)" .
      from 1 len e(2) Some es(1) show ?thesis
        by (auto simp: c ir_step_def exec_step_def ce bes(1) nth_append Let_def fun_eq_iff
            split: option.splits prod.splits)
    next
      case 2
      let ?ops = "operand_ids (terminator_operands (block_terminator blk))"
      have "compute_effects body effects compute b i h (map (\<lambda>u. m (loc u)) terminal)
        = compute b i h (map (\<lambda>u. map (\<lambda>u. m (loc u)) terminal ! position terminal u) ?ops)"
        using 2 len Some by (simp add: compute_effects_def val bes(1) nth_append)
      also have "\<dots> = compute b i h (map (\<lambda>u. m (loc u)) ?ops)"
        using bes(2) by (subst map_position) (simp_all add: reads_operands_def)
      finally have ce: "compute_effects body effects compute b i h (map (\<lambda>u. m (loc u)) terminal)
        = compute b i h (map (\<lambda>u. m (loc u)) ?ops)" .
      from 2 len Some es(1) show ?thesis
        using ce by (auto simp: c ir_step_def exec_step_def bes(1) nth_append Let_def split: prod.splits)
    next
      case 3
      with len Some es(1) succ show ?thesis by (auto simp: c ir_step_def exec_step_def bes(1) Let_def)
    qed
  qed
qed

lemma ir_exec_effects:
  assumes "classify body params abis local_calls = Inr (variables, effects, successors)"
  shows "ir_exec loc compute select body n c
    = exec loc (compute_effects body effects compute) select effects successors n c"
proof (induction n arbitrary: c)
  case (Suc n)
  then have "ir_exec loc compute select body n
      = exec loc (compute_effects body effects compute) select effects successors n" by blast
  then show ?case by (simp add: ir_step_effects [OF assms])
qed simp

text \<open>
  C3: A body that the classification accepts always gets a slot map, and execution of its instructions
  on the shared slots is a lock-step refinement of their execution with one cell per variable: whatever
  the instructions compute from the values of their operands, after any number of steps both are at the
  same position with the same rest of the state and the same values of all live variables, from an
  entry block whose live variables are parameters, once the parameters are spilled.
\<close>
theorem scalar_slots_refine:
  assumes "classify body params abis local_calls = Inr (variables, effects, successors)"
    and "liveness effects successors = Some (Inr (live_in, live_out))"
    and "map_of live_in entry = Some before" and "set before \<subseteq> set (param_ids params)"
  shows "\<exists>slots. allocate body params abis local_calls = Some (Inr slots) \<and> (\<forall>v. 8 dvd slot_of slots v)
    \<and> rel_option (agree effects successors slots)
        (ir_exec id compute select body n (entry, 0, h, spill id args (param_ids params) s))
        (ir_exec (slot_of slots) compute select body n
           (entry, 0, h, spill (slot_of slots) args (param_ids params) m))"
  unfolding ir_exec_effects [OF assms(1)] by (rule slots_refine_effects [OF assms])

definition sample_var :: "nat \<Rightarrow> unit ir_type \<Rightarrow> unit ir_var" where
  "sample_var n t = \<lparr>var_id = n, var_name = [], var_ty = t\<rparr>"

definition sample_params :: "unit ir_param list" where
  "sample_params = [\<lparr>param_name = ''n'', param_ty = U64, is_mut = False, is_ref = False, is_read_ref = False,
     param_source = Default, binding = sample_var 0 U64\<rparr>]"

definition sample_body :: "unit ir_body" where
  "sample_body = \<lparr>cell_bindings = [], consume_set = [], read_refs = [], create_set = [], mutate_set = [],
     write_intents = [], bounded_collection_ops = [], borrow_regions = [], trusted_external_calls = [],
     enforced_claims = [], zk_origins = [], body_blocks = [
       \<lparr>block_id = 0, block_instructions = [LoadConst (sample_var 1 U64) (CU64 0)], block_terminator = Jump 1, runtime_error = None\<rparr>,
       \<lparr>block_id = 1, block_instructions = [Binary (sample_var 2 Bool) Lt (Var (sample_var 1 U64)) (Var (sample_var 0 U64))],
        block_terminator = Branch (Var (sample_var 2 Bool)) 2 3, runtime_error = None\<rparr>,
       \<lparr>block_id = 2, block_instructions = [Binary (sample_var 3 U64) Add (Var (sample_var 1 U64)) (Const (CU64 1)),
          Move (sample_var 1 U64) (Var (sample_var 3 U64))], block_terminator = Jump 1, runtime_error = None\<rparr>,
       \<lparr>block_id = 3, block_instructions = [], block_terminator = Return (Some (Var (sample_var 1 U64))), runtime_error = None\<rparr>]\<rparr>"

lemma sample_classify:
  "classify sample_body sample_params Map.empty {} = Inr ([0, 1, 2, 3], sample_effects, sample_successors)"
  by code_simp

lemma sample_allocate:
  "allocate sample_body sample_params Map.empty {} = Some (Inr [(0, 0), (1, 8), (2, 16), (3, 8)])"
  by code_simp


text \<open>A counting loop on the sample body: the hidden state keeps the branch decision.\<close>

definition sample_compute :: "nat \<Rightarrow> nat \<Rightarrow> nat \<Rightarrow> nat list \<Rightarrow> nat \<times> nat" where
  "sample_compute b i h xs =
     (if (b, i) = (1, 0) then (h, if xs ! 0 < xs ! 1 then 1 else 0)
      else if (b, i) = (1, 1) then (xs ! 0, 0)
      else if (b, i) = (2, 0) then (h, xs ! 0 + 1)
      else if (b, i) = (2, 1) then (h, xs ! 0)
      else (h, 0))"

definition sample_select :: "nat \<Rightarrow> nat \<Rightarrow> nat" where
  "sample_select b h = (if b = 1 \<and> h = 0 then 3 else if b = 1 then 2 else 1)"

theorem scalar_slots_refine_witness:
  "classify sample_body sample_params Map.empty {} = Inr ([0, 1, 2, 3], sample_effects, sample_successors)
   \<and> (\<exists>slots. allocate sample_body sample_params Map.empty {} = Some (Inr slots)
        \<and> rel_option (agree sample_effects sample_successors slots)
            (ir_exec id sample_compute sample_select sample_body 12
               (0, 0, 0, spill id (\<lambda>_. 5) [0] (\<lambda>_. 0)))
            (ir_exec (slot_of slots) sample_compute sample_select sample_body 12
               (0, 0, 0, spill (slot_of slots) (\<lambda>_. 5) [0] (\<lambda>_. 7))))"
proof -
  have ids: "param_ids sample_params = [0]" by (simp add: param_ids_def sample_params_def sample_var_def)
  have "set [0 :: nat] \<subseteq> set (param_ids sample_params)" by (simp add: ids)
  from scalar_slots_refine [OF sample_classify sample_liveness _ this, of 0 sample_compute sample_select 12 0 "\<lambda>_. 5" "\<lambda>_. 0" "\<lambda>_. 7"]
  show ?thesis using sample_classify unfolding ids by auto
qed

end
