(* ===== verification/Stack_Writes.thy ===== *)
theory Stack_Writes
  imports Elf_Parse Rv_Sem
begin

text \<open>
  What the stack adjustments of an accepted artifact mean to the machine: the adjustments the scan of
  \<^verbatim>\<open>elf.rs\<close> lists are related to the execution of the words of the text section in the reference
  semantics. A listed displacement is the change of the stack pointer when the instruction is run after
  the words that build its constant, and an executed word that is not listed leaves the stack pointer
  alone.
\<close>

unbundle bit_operations_syntax

section \<open>The code of an artifact\<close>

text \<open>The program memory of an accepted artifact: its instructions at their addresses.\<close>

definition text_code :: "parsed_elf \<Rightarrow> u64 \<Rightarrow> u32 option" where
  "text_code e a = map_of (map (\<lambda>x. (word_of_nat (inst_address x), inst_word x)) (pe_instructions e)) a"

lemma field_byte_eq:
  assumes "bits_below 5 r"
  shows "(ucast (x AND 0x1f :: u32) :: byte) = r \<longleftrightarrow> x AND 0x1f = ucast r"
proof -
  have "(x AND 0x1f :: u32) = ucast (ucast (x AND 0x1f) :: byte)"
  proof -
    have m: "(0x1f :: u32) = mask 5" by (simp add: mask_eq_exp_minus_1)
    show ?thesis unfolding m by (rule bit_word_eqI) (auto simp: bit_simps)
  qed
  then show ?thesis by (metis ucast_byte_id)
qed

lemma fld_rd_2: "fld_rd w = 2 \<longleftrightarrow> drop_bit 7 w AND 0x1f = 2"
  using field_byte_eq [of 2 "drop_bit 7 w"] by (simp add: fld_rd_def bits_below_reg)

lemma fld_rs1_2: "drop_bit 15 w AND 0x1f = 2 \<Longrightarrow> fld_rs1 w = 2"
  by (simp add: fld_rs1_def)

text \<open>An executed word that does not write the stack pointer leaves it unchanged.\<close>

lemma exec_word_keeps_sp:
  assumes "exec_word w st = Some st'" "\<not> writes_sp w"
  shows "rv_get st' 2 = rv_get st 2"
proof -
  have rd: "rv_get (rv_set (fld_rd w) v st) 2 = rv_get st 2" if "w AND 0x7f \<noteq> 0x63" "w AND 0x7f \<noteq> 0x23" for v
    using that assms(2) by (auto simp: writes_sp_def fld_rd_2 rv_get_def rv_set_def)
  have pc: "rv_get (rv_next s) 2 = rv_get s 2" "rv_get (rv_goto a s) 2 = rv_get s 2" for s a
    by (simp_all add: rv_get_def rv_next_def rv_goto_def)
  show ?thesis
  proof (cases "w AND 0x7f = 0x63")
    case True
    with assms(1) show ?thesis by (auto simp: exec_word_def Let_def pc split: if_splits)
  next
    case False
    with assms(1) show ?thesis
      by (auto simp: exec_word_def Let_def pc intro!: rd split: if_splits)
  qed
qed

section \<open>Displacements\<close>

text \<open>The two words that move the stack pointer.\<close>

lemma exec_sp_addi:
  assumes "w AND 0x7f = 0x13" "drop_bit 12 w AND 0x7 = 0" "drop_bit 15 w AND 0x1f = 2"
    "drop_bit 7 w AND 0x1f = 2"
  shows "exec_word w st
    = Some (rv_next (rv_set 2 (rv_get st 2 + word_of_int (sign_extend (drop_bit 20 w) 12)) st))"
  using assms by (simp add: exec_word_def Let_def alu_imm_def fld_rd_def fld_rs1_def immediates_sign_extend)

lemma exec_sp_add:
  assumes "w AND 0x7f = 0x33" "drop_bit 12 w AND 0x7 = 0" "drop_bit 25 w AND 0x7f = 0"
    "drop_bit 15 w AND 0x1f = 2" "drop_bit 7 w AND 0x1f = 2"
  shows "exec_word w st = Some (rv_next (rv_set 2 (rv_get st 2 + rv_get st (fld_rs2 w)) st))"
  using assms by (simp add: exec_word_def Let_def alu_reg_def fld_rd_def fld_rs1_def)

lemma exec_lui:
  "w AND 0x7f = 0x37 \<Longrightarrow> exec_word w st
    = Some (rv_next (rv_set (fld_rd w) (word_of_int (sign_extend (w AND 0xfffff000) 32)) st))"
  by (simp add: exec_word_def Let_def immediates_sign_extend)

lemma exec_addi:
  "w AND 0x7f = 0x13 \<Longrightarrow> drop_bit 12 w AND 0x7 = 0 \<Longrightarrow> exec_word w st
    = Some (rv_next (rv_set (fld_rd w)
        (rv_get st (fld_rs1 w) + word_of_int (sign_extend (drop_bit 20 w) 12)) st))"
  by (simp add: exec_word_def Let_def alu_imm_def immediates_sign_extend)

lemma rv_get_updates [simp]:
  "rv_get (rv_next s) r = rv_get s r" "rv_pc (rv_next s) = rv_pc s + 4" "rv_pc (rv_set r v s) = rv_pc s"
  "rv_get (rv_set r v s) q = (if q = r \<and> r \<noteq> 0 then v else rv_get s q)"
  by (simp_all add: rv_get_def rv_set_def rv_next_def)

text \<open>The sum of the two parts of a constant stays far from the bounds of its type.\<close>

lemma sign_extend_bounds:
  assumes "0 < k" "k \<le> 32"
  shows "- (2 ^ (k - 1)) \<le> sign_extend v k" "sign_extend v k < 2 ^ (k - 1)"
proof -
  have "63 - (64 - k) = k - 1" using assms by simp
  then have "sign_extend v k = signed_take_bit (k - 1) (uint v)"
    using assms unfolding sign_extend_def Let_def by (subst i64_shl_shr) simp_all
  then show "- (2 ^ (k - 1)) \<le> sign_extend v k" "sign_extend v k < 2 ^ (k - 1)"
    using signed_take_bit_int_greater_eq_minus_exp [of "k - 1" "uint v"]
      signed_take_bit_int_less_exp [of "k - 1" "uint v"] by simp_all
qed

lemma constant_sum:
  "saturating_add_i64 (sign_extend u 32) (sign_extend v 12) = sign_extend u 32 + sign_extend v 12"
  "\<bar>sign_extend u 32\<bar> \<le> 2 ^ 31" "\<bar>sign_extend v 12\<bar> \<le> 2 ^ 11"
  using sign_extend_bounds [of 32 u] sign_extend_bounds [of 12 v]
  by (auto simp: saturating_add_i64_def)

text \<open>
  The words in front of a register adjustment, run in order, leave the constant in the register and
  the stack pointer as it was.
\<close>

definition holds_words :: "(u64 \<Rightarrow> u32 option) \<Rightarrow> u64 \<Rightarrow> u32 list \<Rightarrow> bool" where
  "holds_words code a ws \<longleftrightarrow> (\<forall>j<length ws. code (a + 4 * word_of_nat j) = Some (ws ! j))"

lemma holds_words_Cons:
  "holds_words code a (w # ws) \<longleftrightarrow> code a = Some w \<and> holds_words code (a + 4) ws"
proof -
  have "(\<forall>j<Suc n. P j) \<longleftrightarrow> P 0 \<and> (\<forall>j<n. P (Suc j))" for n and P :: "nat \<Rightarrow> bool"
    using less_Suc_eq_0_disj by auto
  then show ?thesis by (simp add: holds_words_def add.assoc)
qed

lemma frame_constant_run:
  assumes "preceding_frame_constant bytes i (drop_bit 20 w AND 0x1f) = Some d" "i \<le> length bytes div 4"
  obtains k where "0 < k" "k \<le> 2" "k \<le> i" "\<bar>d\<bar> < 2 ^ 32"
    "\<And>code st. holds_words code (rv_pc st) (take k (drop (i - k) (text_words bytes))) \<Longrightarrow>
       \<exists>st'. rv_run k code st = Some st' \<and> rv_get st' (fld_rs2 w) = word_of_int d
         \<and> rv_get st' 2 = rv_get st 2 \<and> rv_pc st' = rv_pc st + 4 * word_of_nat k"
proof -
  let ?ws = "text_words bytes" and ?r = "drop_bit 20 w AND 0x1f"
  have r: "?r \<noteq> 0" "?r \<noteq> 2" "i \<noteq> 0"
    using assms(1) by (auto simp: preceding_frame_constant_def split: if_splits)
  have q: "fld_rs2 w \<noteq> 0" "fld_rs2 w \<noteq> 2"
    using r field_byte_eq [of 0 "drop_bit 20 w"] field_byte_eq [of 2 "drop_bit 20 w"]
    by (simp_all add: fld_rs2_def bits_below_reg)
  have rd: "fld_rd v = fld_rs2 w" if "drop_bit 7 v AND 0x1f = ?r" for v
    using that by (simp add: fld_rd_def fld_rs2_def)
  have 1: "instruction_word bytes (i - 1) = Inr (?ws ! (i - 1))"
    using r assms(2) by (intro instruction_word_text) simp
  let ?a = "?ws ! (i - 1)" and ?l = "?ws ! (i - 2)"
  have len: "length ?ws = length bytes div 4" by (rule length_text_words)
  show thesis
  proof (cases "?a AND 0x7f = 0x37 \<and> drop_bit 7 ?a AND 0x1f = ?r")
    case True
    then have d: "d = sign_extend (?a AND 0xfffff000) 32"
      using assms(1) 1 r by (simp add: preceding_frame_constant_def)
    have ws: "take 1 (drop (i - 1) ?ws) = [?a]"
      using r assms(2) len by (simp add: take_Suc hd_drop_conv_nth)
    show thesis
    proof (rule that [of 1])
      show "\<bar>d\<bar> < 2 ^ 32" using constant_sum(2) [of "?a AND 0xfffff000"] by (simp add: d)
      show "\<exists>st'. rv_run 1 code st = Some st' \<and> rv_get st' (fld_rs2 w) = word_of_int d
         \<and> rv_get st' 2 = rv_get st 2 \<and> rv_pc st' = rv_pc st + 4 * word_of_nat 1"
        if "holds_words code (rv_pc st) (take 1 (drop (i - 1) ?ws))" for code st
        using that True q rd [of ?a] unfolding ws holds_words_Cons
        by (simp add: rv_step_def exec_lui d)
    qed (use r in simp_all)
  next
    case False
    then have i: "\<not> i < 2" using assms(1) 1 r by (auto simp: preceding_frame_constant_def split: if_splits)
    have 2: "instruction_word bytes (i - 2) = Inr ?l"
      using i assms(2) by (intro instruction_word_text) simp
    have f: "?a AND 0x7f = 0x13" "drop_bit 12 ?a AND 0x7 = 0" "drop_bit 7 ?a AND 0x1f = ?r"
      "drop_bit 15 ?a AND 0x1f = ?r" "?l AND 0x7f = 0x37" "drop_bit 7 ?l AND 0x1f = ?r"
      and d: "d = sign_extend (?l AND 0xfffff000) 32 + sign_extend (drop_bit 20 ?a) 12"
      using assms(1) 1 2 r i False
      by (auto simp: preceding_frame_constant_def constant_sum(1) split: if_splits)
    have "fld_rs1 ?a = fld_rs2 w" using f(4) by (simp add: fld_rs1_def fld_rs2_def)
    note g = this rd [OF f(3)] rd [OF f(6)]
    have ws: "take 2 (drop (i - 2) ?ws) = [?l, ?a]"
      using i assms(2) len
      by (simp add: numeral_2_eq_2 take_Suc hd_drop_conv_nth tl_drop nth_tl Suc_diff_Suc)
    show thesis
    proof (rule that [of 2])
      show "\<bar>d\<bar> < 2 ^ 32"
        using constant_sum(2) [of "?l AND 0xfffff000"] constant_sum(3) [of "drop_bit 20 ?a"]
        by (simp add: d)
      show "\<exists>st'. rv_run 2 code st = Some st' \<and> rv_get st' (fld_rs2 w) = word_of_int d
         \<and> rv_get st' 2 = rv_get st 2 \<and> rv_pc st' = rv_pc st + 4 * word_of_nat 2"
        if "holds_words code (rv_pc st) (take 2 (drop (i - 2) ?ws))" for code st
        using that f g q unfolding ws holds_words_Cons
        by (simp add: numeral_2_eq_2 rv_step_def exec_lui exec_addi d)
    qed (use i in simp_all)
  qed
qed

section \<open>Listed adjustments\<close>

text \<open>
  The instruction with index \<open>i\<close> moves the stack pointer by \<open>d\<close>: running it together with at most
  two words before it, from any state at the first of them, adds \<open>d\<close> to the stack pointer and ends
  after the instruction.
\<close>

definition sp_moves :: "parsed_elf \<Rightarrow> nat \<Rightarrow> int \<Rightarrow> bool" where
  "sp_moves e i d \<longleftrightarrow>
     \<bar>d\<bar> < 2 ^ 32 \<and>
     (\<exists>k\<le>2. k \<le> i \<and>
        (\<forall>st. rv_pc st = word_of_nat (inst_address (pe_instructions e ! (i - k))) \<longrightarrow>
          (\<exists>st'. rv_run (Suc k) (text_code e) st = Some st'
             \<and> rv_get st' 2 = rv_get st 2 + word_of_int d
             \<and> rv_pc st' = word_of_nat (inst_address (pe_instructions e ! i) + 4))))"

lemma rv_run_append:
  "rv_run (m + k) code st = Option.bind (rv_run m code st) (rv_run k code)"
  by (induction m arbitrary: st) (auto split: bind_splits)

lemma u64_of_nat_inj: "(word_of_nat a :: u64) = word_of_nat b \<Longrightarrow> a < 2 ^ 64 \<Longrightarrow> b < 2 ^ 64 \<Longrightarrow> a = b"
  by (drule arg_cong [where f = unat]) (simp add: unsigned_of_nat take_bit_nat_eq_self)

lemma text_code_nth:
  assumes inst: "\<And>i. i < length (pe_instructions e) \<Longrightarrow>
      pe_instructions e ! i = \<lparr>inst_address = base + i * 4, inst_word = ws ! i\<rparr>"
    and fits: "base + 4 * length (pe_instructions e) \<le> 2 ^ 64" and "i < length (pe_instructions e)"
  shows "text_code e (word_of_nat (base + i * 4)) = Some (ws ! i)"
proof -
  let ?ps = "map (\<lambda>x. (word_of_nat (inst_address x) :: u64, inst_word x)) (pe_instructions e)"
  have "(word_of_nat (base + j * 4) :: u64) \<noteq> word_of_nat (base + k * 4)"
    if "j < length (pe_instructions e)" "k < length (pe_instructions e)" "j \<noteq> k" for j k
  proof
    assume "(word_of_nat (base + j * 4) :: u64) = word_of_nat (base + k * 4)"
    moreover have "base + j * 4 < 2 ^ 64" "base + k * 4 < 2 ^ 64" using that fits by linarith+
    ultimately have "base + j * 4 = base + k * 4" using u64_of_nat_inj by blast
    with that show False by simp
  qed
  then have "distinct (map fst ?ps)"
    by (auto simp: distinct_conv_nth inst)
  moreover have "(word_of_nat (base + i * 4), ws ! i) \<in> set ?ps"
    using inst [OF assms(3)] assms(3) by (force simp: in_set_conv_nth)
  ultimately show ?thesis unfolding text_code_def by (rule map_of_is_SomeI)
qed

lemma listed_adjustment_moves_sp:
  assumes s: "scanned bytes base r n s" and n: "n \<le> length bytes div 4"
    and inst: "pe_instructions e
      = map (\<lambda>i. \<lparr>inst_address = base + i * 4, inst_word = text_words bytes ! i\<rparr>) [0..<n]"
    and fits: "base + 4 * n \<le> 2 ^ 64" and a: "a \<in> set (dt_stack_adjustments (scan_text s))"
  shows "\<exists>i<n. adj_address a = base + i * 4 \<and> writes_sp (text_words bytes ! i) \<and> sp_moves e i (adj_delta a)"
proof -
  let ?ws = "text_words bytes"
  from s a obtain i where i: "i < n" "a \<in> set (adjs_of bytes base i (?ws ! i))"
    and ok: "is_ok (validate_stack_pointer_write bytes i (?ws ! i) (base + i * 4) [])"
      "instruction_is_allowed (?ws ! i)"
    by (auto simp: scanned_def)
  let ?w = "?ws ! i"
  define pc where "pc j = (word_of_nat (base + j * 4) :: u64)" for j
  note eq = adjs_of_eq [OF ok]
  from i(2) eq(2) have w: "writes_sp ?w" by (cases "writes_sp ?w") auto
  from eq(1) [OF w] i(2) have d: "sp_delta bytes i ?w = Some (adj_delta a)" "adj_address a = base + i * 4"
    by auto
  have code: "text_code e (pc j) = Some (?ws ! j)" if "j < n" for j
    unfolding pc_def using fits that by (intro text_code_nth) (simp_all add: inst)
  have at: "word_of_nat (inst_address (pe_instructions e ! j)) = pc j" if "j < n" for j
    using that by (simp add: inst pc_def)
  have pc: "pc j + 4 * word_of_nat k = pc (j + k)" for j k
    by (simp add: pc_def algebra_simps)
  have rd: "drop_bit 7 ?w AND 0x1f = 2" using w by (simp add: writes_sp_def)
  have moves: "sp_moves e i d" if "k \<le> 2" "k \<le> i" "\<bar>d\<bar> < 2 ^ 32"
    "\<And>st. rv_pc st = pc (i - k) \<Longrightarrow> \<exists>st'. rv_run (Suc k) (text_code e) st = Some st'
        \<and> rv_get st' 2 = rv_get st 2 + word_of_int d \<and> rv_pc st' = pc i + 4" for k d
  proof -
    have "word_of_nat (inst_address (pe_instructions e ! (i - k))) = pc (i - k)" using i(1) by (intro at) simp
    moreover have "word_of_nat (inst_address (pe_instructions e ! i) + 4) = pc i + 4"
      using at [OF i(1)] by (simp only: of_nat_add of_nat_numeral)
    ultimately show ?thesis unfolding sp_moves_def using that by metis
  qed
  have "sp_moves e i (adj_delta a)"
  proof (cases "?w AND 0x7f = 0x13 \<and> drop_bit 12 ?w AND 0x7 = 0 \<and> drop_bit 15 ?w AND 0x1f = 2")
    case True
    then have "adj_delta a = sign_extend (drop_bit 20 ?w) 12" using d(1) by (simp add: sp_delta_def)
    with True rd code [OF i(1)] constant_sum(3) [of "drop_bit 20 ?w"] show ?thesis
      by (intro moves [of 0]) (auto simp: rv_step_def exec_sp_addi)
  next
    case False
    with d(1) have f: "?w AND 0x7f = 0x33" "drop_bit 12 ?w AND 0x7 = 0" "drop_bit 25 ?w AND 0x7f = 0"
      "drop_bit 15 ?w AND 0x1f = 2"
      and c: "preceding_frame_constant bytes i (drop_bit 20 ?w AND 0x1f) = Some (adj_delta a)"
      by (auto simp: sp_delta_def split: if_splits)
    have "i \<le> length bytes div 4" using i(1) n by simp
    from c this obtain k where k: "0 < k" "k \<le> 2" "k \<le> i" "\<bar>adj_delta a\<bar> < 2 ^ 32"
      and run: "\<And>code st. holds_words code (rv_pc st) (take k (drop (i - k) ?ws)) \<Longrightarrow>
       \<exists>st'. rv_run k code st = Some st' \<and> rv_get st' (fld_rs2 ?w) = word_of_int (adj_delta a)
         \<and> rv_get st' 2 = rv_get st 2 \<and> rv_pc st' = rv_pc st + 4 * word_of_nat k"
      by (rule frame_constant_run) blast
    have held: "holds_words (text_code e) (pc (i - k)) (take k (drop (i - k) ?ws))"
      using k i(1) n code by (simp add: holds_words_def pc length_text_words)
    have "\<exists>st'. rv_run (Suc k) (text_code e) st = Some st'
        \<and> rv_get st' 2 = rv_get st 2 + word_of_int (adj_delta a) \<and> rv_pc st' = pc i + 4"
      if st: "rv_pc st = pc (i - k)" for st
    proof -
      from run [of "text_code e" st] held st obtain st' where st': "rv_run k (text_code e) st = Some st'"
        "rv_get st' (fld_rs2 ?w) = word_of_int (adj_delta a)" "rv_get st' 2 = rv_get st 2" "rv_pc st' = pc i"
        using k by (auto simp: pc)
      then show ?thesis
        using rv_run_append [of k 1 "text_code e" st] code [OF i(1)] f rd
        by (simp add: rv_step_def exec_sp_add)
    qed
    with k show ?thesis by (intro moves [of k])
  qed
  with i(1) d(2) w show ?thesis by blast
qed

section \<open>Property\<close>

lemma parse_elf_text_fits:
  assumes "parse_elf bytes n = Inr e"
  shows "sec_address (pe_text e) + sec_size (pe_text e) < 2 ^ 64"
proof -
  obtain g where ss: "\<And>s. s \<in> set (pe_sections e) \<Longrightarrow> sec_address s + sec_size s < 2 ^ 64
       \<and> sec_offset s + sec_size s \<le> length bytes \<and> sec_offset s + sec_size s < 2 ^ 64"
    and c: "check_sections (pe_entry e) [g] (pe_sections e) = Inr (pe_text e, pe_rodata e)"
    by (rule parse_elf_Ok [OF assms]) blast
  from ss [OF check_sections_Ok(1) [OF c]] show ?thesis by simp
qed

lemma sample_adjustments:
  "\<exists>e. parse_elf sample_elf 9 = Inr e \<and> \<lparr>adj_address = 0x10010, adj_delta = - 16\<rparr> \<in> set (pe_stack_adjustments e)"
  unfolding sample_elf_def by (simp add: eval_simps)

text \<open>
  C10: In an accepted artifact the stack adjustments list exactly the instructions that write the
  stack pointer, in order, a write being any word with destination \<^verbatim>\<open>sp\<close> in a format that has a
  destination. Each listed displacement is what the machine does: running the instruction, together
  with the at most two words before it that build its constant, adds the displacement to the stack
  pointer. An executed word that is not listed leaves the stack pointer unchanged.
\<close>
theorem parse_elf_stack_writes:
  assumes "parse_elf bytes n = Inr e"
  shows "map adj_address (pe_stack_adjustments e)
      = map inst_address (filter (\<lambda>x. writes_sp (inst_word x)) (pe_instructions e))
    \<and> (\<forall>a\<in>set (pe_stack_adjustments e). \<exists>i<pe_instruction_count e.
         adj_address a = inst_address (pe_instructions e ! i) \<and> sp_moves e i (adj_delta a))
    \<and> (\<forall>x\<in>set (pe_instructions e). \<forall>st st'. exec_word (inst_word x) st = Some st' \<longrightarrow>
         inst_address x \<notin> adj_address ` set (pe_stack_adjustments e) \<longrightarrow> rv_get st' 2 = rv_get st 2)"
proof -
  let ?bs = "sec_bytes bytes (pe_text e)" and ?a = "sec_address (pe_text e)"
  obtain s where s: "scanned ?bs ?a (sec_range (pe_text e)) (pe_instruction_count e) s"
    and e: "4 * pe_instruction_count e = sec_size (pe_text e)" "length ?bs = sec_size (pe_text e)"
      "pe_instructions e = dt_instructions (scan_text s)"
      "pe_stack_adjustments e = dt_stack_adjustments (scan_text s)"
    by (rule parse_elf_scanned [OF assms])
  have inst: "pe_instructions e = map (\<lambda>i. \<lparr>inst_address = ?a + i * 4, inst_word = text_words ?bs ! i\<rparr>)
      [0..<pe_instruction_count e]"
    using s e(3) by (simp add: scanned_def)
  have fits: "?a + 4 * pe_instruction_count e \<le> 2 ^ 64"
    using parse_elf_text_fits [OF assms] e(1) by simp
  have n: "pe_instruction_count e \<le> length ?bs div 4" using e(1,2) by linarith
  have listed: "map adj_address (pe_stack_adjustments e)
      = map inst_address (filter (\<lambda>x. writes_sp (inst_word x)) (pe_instructions e))"
    unfolding e(4) inst using scanned_adjustments(1) [OF s] by (simp add: filter_map o_def)
  have "\<exists>i<pe_instruction_count e. adj_address a = inst_address (pe_instructions e ! i) \<and> sp_moves e i (adj_delta a)"
    if "a \<in> set (pe_stack_adjustments e)" for a
    using listed_adjustment_moves_sp [OF s n inst fits that [unfolded e(4)]] by (auto simp: inst)
  moreover have "rv_get st' 2 = rv_get st 2"
    if "x \<in> set (pe_instructions e)" "exec_word (inst_word x) st = Some st'"
      "inst_address x \<notin> adj_address ` set (pe_stack_adjustments e)" for x st st'
  proof (rule exec_word_keeps_sp [OF that(2)])
    have "inst_address x \<notin> set (map inst_address (filter (\<lambda>x. writes_sp (inst_word x)) (pe_instructions e)))"
      using that(3) unfolding listed [symmetric] by simp
    with that(1) show "\<not> writes_sp (inst_word x)" by auto
  qed
  ultimately show ?thesis using listed by blast
qed

theorem parse_elf_stack_writes_witness:
  "\<exists>e i. parse_elf sample_elf 9 = Inr e \<and> i < pe_instruction_count e
     \<and> inst_address (pe_instructions e ! i) = 0x10010 \<and> sp_moves e i (- 16)"
proof -
  obtain e where e: "parse_elf sample_elf 9 = Inr e"
    "\<lparr>adj_address = 0x10010, adj_delta = - 16\<rparr> \<in> set (pe_stack_adjustments e)"
    using sample_adjustments by blast
  from parse_elf_stack_writes [OF e(1)] e(2) obtain i where "i < pe_instruction_count e"
    "0x10010 = inst_address (pe_instructions e ! i)" "sp_moves e i (- 16)" by fastforce
  with e(1) show ?thesis by metis
qed

end
