(* ===== verification/Emission.thy ===== *)
theory Emission
  imports Asm_Layout Rv_Sem
begin

text \<open>
  The structured memory and address emitters of the code generator
  (\<^verbatim>\<open>src/src/codegen/emission.rs\<close>, the frame helpers of \<^verbatim>\<open>frame.rs\<close> and the guarded store of
  \<^verbatim>\<open>value_arena/write_guard.rs\<close>). They append assembly text to the generator or record its first
  emission error. A failed assertion, a failed conversion and an overflowing \<^verbatim>\<open>usize\<close> sum are
  panics: the result is \<open>None\<close>. The emitters that the guarded store calls run while the guard is
  taken out of the generator, so they are defined first, for a generator without a guard.
\<close>

section \<open>Operations and the generator\<close>

datatype load_op = LByteUnsigned | LDouble

primrec load_mnemonic :: "load_op \<Rightarrow> string" where
  "load_mnemonic LByteUnsigned = ''lbu''"
| "load_mnemonic LDouble = ''ld''"

datatype store_op = SByte | SHalf | SWord | SDouble

primrec store_mnemonic :: "store_op \<Rightarrow> string" where
  "store_mnemonic SByte = ''sb''"
| "store_mnemonic SHalf = ''sh''"
| "store_mnemonic SWord = ''sw''"
| "store_mnemonic SDouble = ''sd''"

primrec store_width :: "store_op \<Rightarrow> nat" where
  "store_width SByte = 1"
| "store_width SHalf = 2"
| "store_width SWord = 4"
| "store_width SDouble = 8"

datatype memory_op = MLoad load_op | MStore store_op

record write_guard =
  guard_start :: nat
  guard_end :: nat
  guard_failure :: string

text \<open>The fields of \<^verbatim>\<open>CodeGenerator\<close> that the emitters use.\<close>

record code_gen =
  assembly :: "string list"
  emission_error :: "string option"
  allocated_write_guard :: "write_guard option"

definition push_line :: "string \<Rightarrow> code_gen \<Rightarrow> code_gen" where
  "push_line line g = g\<lparr>assembly := assembly g @ [line]\<rparr>"

definition emit_line :: "string \<Rightarrow> code_gen \<Rightarrow> code_gen" where
  "emit_line inst g = push_line (''    '' @ inst) g"

definition record_error :: "string \<Rightarrow> code_gen \<Rightarrow> code_gen" where
  "record_error message g =
     (case emission_error g of None \<Rightarrow> g\<lparr>emission_error := Some message\<rparr> | Some _ \<Rightarrow> g)"

fun join_comma :: "string list \<Rightarrow> string" where
  "join_comma [] = []"
| "join_comma [r] = r"
| "join_comma (r # rs) = r @ '', '' @ join_comma rs"

definition reserve_scratch :: "string list \<Rightarrow> code_gen \<Rightarrow> string option \<times> code_gen" where
  "reserve_scratch avoid g =
     (case scratch_register_avoiding avoid of
        Some scratch \<Rightarrow> (Some scratch, g)
      | None \<Rightarrow> (None, record_error
          (''no scratch register available without clobbering live registers: '' @ join_comma avoid) g))"

section \<open>Memory and address operations\<close>

definition emission_immediate :: "int \<Rightarrow> code_gen \<Rightarrow> int option \<times> code_gen" where
  "emission_immediate v g =
     (if in_i64 v then (Some v, g)
      else (None, record_error ''memory/address immediate exceeds the signed 64-bit address range'' g))"

definition emission_registers :: "string \<Rightarrow> string \<Rightarrow> code_gen \<Rightarrow> (byte \<times> byte) option \<times> code_gen" where
  "emission_registers v base g =
     (case (parse_register v, parse_register base) of
        (Inr v, Inr base) \<Rightarrow> (Some (v, base), g)
      | _ \<Rightarrow> (None, record_error (''invalid memory/address register operand: '' @ v @ '', '' @ base) g))"

definition reject_implicit_scratch :: "string \<Rightarrow> code_gen \<Rightarrow> code_gen" where
  "reject_implicit_scratch inst g = record_error
     (''large-offset instruction requires an explicit live-register contract: '' @ inst
      @ ''; use a structured address/access emitter'') g"

definition memory_text :: "string \<Rightarrow> string \<Rightarrow> int \<Rightarrow> string \<Rightarrow> string" where
  "memory_text mnemonic reg offset base = mnemonic @ '' '' @ reg @ '', '' @ show_int offset @ ''('' @ base @ '')''"

definition li_text :: "string \<Rightarrow> int \<Rightarrow> string" where
  "li_text rd v = ''li '' @ rd @ '', '' @ show_int v"

definition add_text :: "string \<Rightarrow> string \<Rightarrow> string \<Rightarrow> string" where
  "add_text rd rs1 rs2 = ''add '' @ rd @ '', '' @ rs1 @ '', '' @ rs2"

definition addi_text :: "string \<Rightarrow> string \<Rightarrow> int \<Rightarrow> string" where
  "addi_text rd rs1 v = ''addi '' @ rd @ '', '' @ rs1 @ '', '' @ show_int v"

definition bltu_text :: "string \<Rightarrow> string \<Rightarrow> string \<Rightarrow> string" where
  "bltu_text rs1 rs2 label = ''bltu '' @ rs1 @ '', '' @ rs2 @ '', '' @ label"

definition emit_load :: "load_op \<Rightarrow> string \<Rightarrow> string \<Rightarrow> int \<Rightarrow> code_gen \<Rightarrow> code_gen" where
  "emit_load op dst base offset g =
     (case emission_immediate offset g of
        (None, g) \<Rightarrow> g
      | (Some offset, g) \<Rightarrow>
          (case emission_registers dst base g of
             (None, g) \<Rightarrow> g
           | (Some (destination, address), g) \<Rightarrow>
               if small_signed_immediate offset
               then push_line (''    '' @ memory_text (load_mnemonic op) dst offset base) g
               else if destination \<noteq> address \<and> destination \<noteq> 0 \<and> destination \<noteq> 2
               then push_line (''    '' @ memory_text (load_mnemonic op) dst 0 dst)
                      (emit_line (add_text dst base dst) (emit_line (li_text dst offset) g))
               else reject_implicit_scratch (memory_text (load_mnemonic op) dst offset base) g))"

definition emit_add_immediate :: "string \<Rightarrow> string \<Rightarrow> int \<Rightarrow> code_gen \<Rightarrow> code_gen" where
  "emit_add_immediate dst base v g =
     (case emission_immediate v g of
        (None, g) \<Rightarrow> g
      | (Some v, g) \<Rightarrow>
          (case emission_registers dst base g of
             (None, g) \<Rightarrow> g
           | (Some (destination, source), g) \<Rightarrow>
               if small_signed_immediate v then push_line (''    '' @ addi_text dst base v) g
               else if destination \<noteq> source \<and> destination \<noteq> 0 \<and> destination \<noteq> 2
               then emit_line (add_text dst base dst) (emit_line (li_text dst v) g)
               else reject_implicit_scratch (addi_text dst base v) g))"

text \<open>A store, and any memory operation, on a generator whose guard is taken.\<close>

definition emit_store_unguarded :: "store_op \<Rightarrow> string \<Rightarrow> string \<Rightarrow> int \<Rightarrow> code_gen \<Rightarrow> code_gen" where
  "emit_store_unguarded op src base offset g =
     (case emission_immediate offset g of
        (None, g) \<Rightarrow> g
      | (Some offset, g) \<Rightarrow>
          (case emission_registers src base g of
             (None, g) \<Rightarrow> g
           | (Some _, g) \<Rightarrow>
               if small_signed_immediate offset
               then push_line (''    '' @ memory_text (store_mnemonic op) src offset base) g
               else reject_implicit_scratch (memory_text (store_mnemonic op) src offset base) g))"

primrec emit_memory_unguarded :: "memory_op \<Rightarrow> string \<Rightarrow> string \<Rightarrow> int \<Rightarrow> code_gen \<Rightarrow> code_gen" where
  "emit_memory_unguarded (MLoad op) reg base offset g = emit_load op reg base offset g"
| "emit_memory_unguarded (MStore op) reg base offset g = emit_store_unguarded op reg base offset g"

section \<open>Frame helpers\<close>

definition register_ok :: "string \<Rightarrow> byte option" where
  "register_ok name = (case parse_register name of Inr r \<Rightarrow> Some r | Inl _ \<Rightarrow> None)"

definition emit_large_addi_with_avoid ::
  "string \<Rightarrow> string \<Rightarrow> int \<Rightarrow> string list \<Rightarrow> code_gen \<Rightarrow> code_gen option" where
  "emit_large_addi_with_avoid rd rs1 imm avoid g =
     (if register_ok rd = Some 2 \<and> (register_ok rs1 \<noteq> Some 2 \<or> imm mod 16 \<noteq> 0) then None
      else if - 2048 \<le> imm \<and> imm \<le> 2047 then Some (emit_add_immediate rd rs1 imm g)
      else if register_ok rd \<noteq> register_ok rs1 \<and> register_ok rd \<noteq> Some 0 \<and> register_ok rd \<noteq> Some 2
      then Some (emit_line (add_text rd rs1 rd) (emit_line (li_text rd imm) g))
      else
        (case reserve_scratch (rs1 # avoid) g of
           (None, g) \<Rightarrow> Some g
         | (Some scratch, g) \<Rightarrow> Some (emit_line (add_text rd rs1 scratch) (emit_line (li_text scratch imm) g))))"

definition emit_large_addi :: "string \<Rightarrow> string \<Rightarrow> int \<Rightarrow> code_gen \<Rightarrow> code_gen option" where
  "emit_large_addi rd rs1 imm g = emit_large_addi_with_avoid rd rs1 imm [] g"

definition emit_stack_adjustment :: "int \<Rightarrow> code_gen \<Rightarrow> code_gen option" where
  "emit_stack_adjustment delta g = emit_large_addi ''sp'' ''sp'' delta g"

definition emit_stack_access_with_avoid ::
  "memory_op \<Rightarrow> string \<Rightarrow> nat \<Rightarrow> string list \<Rightarrow> code_gen \<Rightarrow> code_gen option" where
  "emit_stack_access_with_avoid opcode reg offset avoid g0 =
     (let guard = allocated_write_guard g0; g = g0\<lparr>allocated_write_guard := None\<rparr>
      in if \<not> in_i64 (int offset) then None
         else if small_signed_immediate (int offset)
         then Some ((emit_memory_unguarded opcode reg ''sp'' (int offset) g)\<lparr>allocated_write_guard := guard\<rparr>)
         else
           (case reserve_scratch (reg # avoid) g of
              (None, g) \<Rightarrow> Some (g\<lparr>allocated_write_guard := guard\<rparr>)
            | (Some scratch, g) \<Rightarrow>
                Some ((emit_memory_unguarded opcode reg scratch 0
                         (emit_line (add_text scratch ''sp'' scratch) (emit_line (li_text scratch (int offset)) g)))
                       \<lparr>allocated_write_guard := guard\<rparr>)))"

definition emit_stack_access :: "memory_op \<Rightarrow> string \<Rightarrow> nat \<Rightarrow> code_gen \<Rightarrow> code_gen option" where
  "emit_stack_access opcode reg offset g = emit_stack_access_with_avoid opcode reg offset [] g"

definition emit_stack_load :: "string \<Rightarrow> nat \<Rightarrow> code_gen \<Rightarrow> code_gen option" where
  "emit_stack_load rd offset g = emit_stack_access_with_avoid (MLoad LDouble) rd offset [] g"

definition emit_stack_load_with_avoid :: "string \<Rightarrow> nat \<Rightarrow> string list \<Rightarrow> code_gen \<Rightarrow> code_gen option" where
  "emit_stack_load_with_avoid rd offset avoid g = emit_stack_access_with_avoid (MLoad LDouble) rd offset avoid g"

definition emit_stack_load_byte :: "string \<Rightarrow> nat \<Rightarrow> code_gen \<Rightarrow> code_gen option" where
  "emit_stack_load_byte rd offset g = emit_stack_access (MLoad LByteUnsigned) rd offset g"

definition emit_stack_store :: "string \<Rightarrow> nat \<Rightarrow> code_gen \<Rightarrow> code_gen option" where
  "emit_stack_store rs2 offset g = emit_stack_access_with_avoid (MStore SDouble) rs2 offset [] g"

definition emit_stack_store_with_avoid :: "string \<Rightarrow> nat \<Rightarrow> string list \<Rightarrow> code_gen \<Rightarrow> code_gen option" where
  "emit_stack_store_with_avoid rs2 offset avoid g = emit_stack_access_with_avoid (MStore SDouble) rs2 offset avoid g"

definition emit_stack_store_byte :: "string \<Rightarrow> nat \<Rightarrow> code_gen \<Rightarrow> code_gen option" where
  "emit_stack_store_byte rs2 offset g = emit_stack_access (MStore SByte) rs2 offset g"

definition emit_stack_store_byte_with_avoid :: "string \<Rightarrow> nat \<Rightarrow> string list \<Rightarrow> code_gen \<Rightarrow> code_gen option" where
  "emit_stack_store_byte_with_avoid rs2 offset avoid g = emit_stack_access_with_avoid (MStore SByte) rs2 offset avoid g"

definition emit_sp_addi :: "string \<Rightarrow> nat \<Rightarrow> code_gen \<Rightarrow> code_gen option" where
  "emit_sp_addi rd offset g =
     (if rd = ''sp'' then emit_stack_adjustment (wrap_i64 (int offset)) g
      else if offset \<le> 2047 then Some (emit_add_immediate rd ''sp'' (int offset) g)
      else Some (emit_line (add_text rd ''sp'' rd) (emit_line (li_text rd (int offset)) g)))"

section \<open>Guarded stores\<close>

definition guard_registers :: "byte \<Rightarrow> byte \<Rightarrow> string list" where
  "guard_registers source_register base_register =
     take 3 (filter (\<lambda>r. parse_register r \<noteq> Inr source_register \<and> parse_register r \<noteq> Inr base_register)
       [''a6'', ''a7'', ''t6'', ''t5'', ''t4''])"

fun stack_stores :: "nat \<Rightarrow> string list \<Rightarrow> code_gen \<Rightarrow> code_gen option" where
  "stack_stores index [] g = Some g"
| "stack_stores index (r # rs) g = Option.bind (emit_stack_store r (index * 8) g) (stack_stores (Suc index) rs)"

fun stack_loads :: "nat \<Rightarrow> string list \<Rightarrow> code_gen \<Rightarrow> code_gen option" where
  "stack_loads index [] g = Some g"
| "stack_loads index (r # rs) g = Option.bind (emit_stack_load r (index * 8) g) (stack_loads (Suc index) rs)"

definition guard_check ::
  "store_op \<Rightarrow> string \<Rightarrow> string \<Rightarrow> int \<Rightarrow> write_guard \<Rightarrow> string \<Rightarrow> string \<Rightarrow> string \<Rightarrow> code_gen \<Rightarrow> code_gen option" where
  "guard_check op src base offset guard pointer lower upper g =
     (let g = (if - 2048 \<le> offset \<and> offset \<le> 2047 then emit_add_immediate pointer base offset g
               else emit_line (add_text pointer base pointer) (emit_line (li_text pointer offset) g))
      in if guard_start guard + 32 \<ge> 2 ^ 64 then None
         else Option.bind (emit_sp_addi lower (guard_start guard + 32) g) (\<lambda>g.
           if guard_end guard < store_width op \<or> guard_end guard - store_width op + 32 \<ge> 2 ^ 64 then None
           else Option.bind (emit_sp_addi upper (guard_end guard - store_width op + 32) g) (\<lambda>g.
             Some (emit_store_unguarded op src pointer 0
               (emit_line (bltu_text upper pointer (guard_failure guard))
                 (emit_line (bltu_text pointer lower (guard_failure guard)) g))))))"

definition emit_allocated_guarded_store ::
  "store_op \<Rightarrow> string \<Rightarrow> string \<Rightarrow> int \<Rightarrow> write_guard \<Rightarrow> code_gen \<Rightarrow> (bool \<times> code_gen) option" where
  "emit_allocated_guarded_store op src base offset guard g =
     (case (parse_register base, parse_register src) of
        (Inr base_register, Inr source_register) \<Rightarrow>
          if base_register = 2 \<or> base_register = 8 \<or> source_register = 2 then Some (False, g)
          else let registers = guard_registers source_register base_register
            in if length registers < 3 then None
               else Option.bind (emit_stack_adjustment (- 32) g) (\<lambda>g.
                 Option.bind (stack_stores 0 registers g) (\<lambda>g.
                 Option.bind (guard_check op src base offset guard (registers ! 0) (registers ! 1) (registers ! 2) g) (\<lambda>g.
                 Option.bind (stack_loads 0 registers g) (\<lambda>g.
                 Option.bind (emit_stack_adjustment 32 g) (\<lambda>g. Some (True, g))))))
      | _ \<Rightarrow> Some (False, g))"

definition emit_store :: "store_op \<Rightarrow> string \<Rightarrow> string \<Rightarrow> int \<Rightarrow> code_gen \<Rightarrow> code_gen option" where
  "emit_store op src base offset g =
     (case emission_immediate offset g of
        (None, g) \<Rightarrow> Some g
      | (Some offset, g) \<Rightarrow>
          (case emission_registers src base g of
             (None, g) \<Rightarrow> Some g
           | (Some _, g) \<Rightarrow>
               (case allocated_write_guard g of
                  Some guard \<Rightarrow>
                    Option.bind (emit_allocated_guarded_store op src base offset guard (g\<lparr>allocated_write_guard := None\<rparr>))
                      (\<lambda>(guarded, g). Some
                        ((if guarded then g else emit_store_unguarded op src base offset g)
                          \<lparr>allocated_write_guard := Some guard\<rparr>))
                | None \<Rightarrow>
                    Some (if small_signed_immediate offset
                          then push_line (''    '' @ memory_text (store_mnemonic op) src offset base) g
                          else reject_implicit_scratch (memory_text (store_mnemonic op) src offset base) g))))"

primrec emit_memory :: "memory_op \<Rightarrow> string \<Rightarrow> string \<Rightarrow> int \<Rightarrow> code_gen \<Rightarrow> code_gen option" where
  "emit_memory (MLoad op) reg base offset g = Some (emit_load op reg base offset g)"
| "emit_memory (MStore op) reg base offset g = emit_store op reg base offset g"

definition emit_memory_load_with_avoid ::
  "load_op \<Rightarrow> string \<Rightarrow> string \<Rightarrow> nat \<Rightarrow> string list \<Rightarrow> code_gen \<Rightarrow> code_gen option" where
  "emit_memory_load_with_avoid opcode dst base offset avoid g =
     (if \<not> in_i64 (int offset) then None
      else if small_signed_immediate (int offset) then Some (emit_load opcode dst base (int offset) g)
      else
        (case reserve_scratch (dst # base # avoid) g of
           (None, g) \<Rightarrow> Some g
         | (Some scratch, g) \<Rightarrow>
             Some (emit_load opcode dst scratch 0
               (emit_line (add_text scratch base scratch) (emit_line (li_text scratch (int offset)) g)))))"

definition emit_memory_store_with_avoid ::
  "store_op \<Rightarrow> string \<Rightarrow> string \<Rightarrow> nat \<Rightarrow> string list \<Rightarrow> code_gen \<Rightarrow> code_gen option" where
  "emit_memory_store_with_avoid opcode src base offset avoid g =
     (if \<not> in_i64 (int offset) then None
      else if small_signed_immediate (int offset) then emit_store opcode src base (int offset) g
      else
        (case reserve_scratch (src # base # avoid) g of
           (None, g) \<Rightarrow> Some g
         | (Some scratch, g) \<Rightarrow>
             emit_store opcode src scratch 0
               (emit_line (add_text scratch base scratch) (emit_line (li_text scratch (int offset)) g))))"

lemma emit_store_no_guard:
  "allocated_write_guard g = None \<Longrightarrow> emit_store op src base offset g = Some (emit_store_unguarded op src base offset g)"
  by (auto simp: emit_store_def emit_store_unguarded_def emission_immediate_def emission_registers_def record_error_def
      split: sum.split option.split)

end
