(* ===== verification/Write_Guard.thy ===== *)
theory Write_Guard
  imports Emission
begin

text \<open>
  What emitted text means: it reads back as the instructions the emitter chose, and running the
  instructions of a guarded store either writes inside the guarded frame region and leaves every
  register as it was, or jumps to the failure label without touching anything but its own scratch
  frame.
\<close>

section \<open>Emitted text reads back\<close>

definition token :: "string \<Rightarrow> bool" where
  "token s \<longleftrightarrow> s \<noteq> [] \<and> plain s \<and> CHR ''#'' \<notin> set s \<and> CHR 0x22 \<notin> set s \<and> last s \<noteq> CHR '':''"

definition instr_text :: "string \<Rightarrow> string list \<Rightarrow> string" where
  "instr_text op args = op @ '' '' @ join_comma args"

definition reads_as :: "string \<Rightarrow> instruction \<Rightarrow> bool" where
  "reads_as line inst \<longleftrightarrow>
     (\<exists>clean. strip_comment line = Some clean \<and> clean \<noteq> [] \<and> parse_section_directive clean = Inr None
        \<and> \<not> starts_with clean ''.option '' \<and> \<not> starts_with clean ''.type ''
        \<and> strip_prefix ''.global '' clean = None \<and> strip_suffix '':'' clean = None
        \<and> parse_asm_op clean = Inr (OpInstruction inst))"

lemma reads_as_read_line:
  assumes "reads_as line inst"
  obtains clean where "parse_asm_op clean = Inr (OpInstruction inst)" "read_line mode n line st = read_op mode n clean st"
  using assms unfolding reads_as_def read_line_def read_clean_def by auto

lemma comment_start_None:
  "CHR ''#'' \<notin> set s \<Longrightarrow> CHR 0x22 \<notin> set s \<Longrightarrow> comment_start False e i s = None"
  by (induction s arbitrary: e i) auto

lemma trim_whole: "s \<noteq> [] \<Longrightarrow> plain_char (hd s) \<Longrightarrow> plain_char (last s) \<Longrightarrow> trim s = s"
proof (cases s)
  case (Cons c t)
  then show "plain_char (hd s) \<Longrightarrow> plain_char (last s) \<Longrightarrow> trim s = s"
    using trim_outer [of c "last s" "butlast t"] by (cases t rule: rev_cases) auto
qed simp

lemma token_ends: "token s \<Longrightarrow> plain_char (hd s) \<and> plain_char (last s)"
  by (simp add: token_def list_all_iff)

lemma join_comma_ends:
  "args \<noteq> [] \<Longrightarrow> list_all token args \<Longrightarrow>
     join_comma args \<noteq> [] \<and> hd (join_comma args) = hd (hd args) \<and> last (join_comma args) = last (last args)"
  by (induction args rule: join_comma.induct) (auto simp: token_def)

lemma join_comma_chars:
  "c \<in> set (join_comma args) \<Longrightarrow> c = CHR '','' \<or> c = CHR '' '' \<or> (\<exists>a \<in> set args. c \<in> set a)"
  by (induction args rule: join_comma.induct) auto

lemma split_join_comma:
  "args \<noteq> [] \<Longrightarrow> list_all token args \<Longrightarrow> map trim (split_char CHR '','' (join_comma args)) = args"
proof (induction args rule: join_comma.induct)
  case (3 a b as)
  then have a: "trim a = a" "CHR '','' \<notin> set a" by (simp_all add: token_def)
  have ne: "split_char CHR '','' s \<noteq> []" for s by (induction s) (auto split: list.splits)
  obtain f fs where f: "split_char CHR '','' (join_comma (b # as)) = f # fs"
    using ne by (cases "split_char CHR '','' (join_comma (b # as))") auto
  have "map trim (f # fs) = b # as" using 3 by (simp add: f [symmetric])
  then show ?case using a by (simp add: f)
qed (auto simp: token_def)

lemma parse_instruction_text:
  assumes "token op" "args \<noteq> []" "list_all token args"
  shows "parse_instruction (instr_text op args) = parse_mnemonic op args"
proof -
  have "plain op" using assms(1) by (simp add: token_def)
  moreover have "trim (join_comma args) = join_comma args"
    using join_comma_ends [OF assms(2,3)] assms token_ends
    by (intro trim_whole) (auto simp: list_all_iff)
  ultimately show ?thesis
    using assms join_comma_ends [OF assms(2,3)] split_join_comma [OF assms(2,3)]
    by (simp add: parse_instruction_def instr_text_def split_args_def)
qed

lemma reads_as_text:
  assumes op: "token op" "hd op \<noteq> CHR ''.''" and args: "args \<noteq> []" "list_all token args"
    and inst: "parse_mnemonic op args = Inr inst"
  shows "reads_as (''    '' @ instr_text op args) inst"
proof -
  let ?t = "instr_text op args"
  have ends: "?t \<noteq> []" "hd ?t = hd op" "last ?t = last (last args)"
    using op join_comma_ends [OF args] by (auto simp: instr_text_def token_def)
  have lst: "token (last args)" using args by (simp add: list_all_iff)
  have safe: "CHR ''#'' \<notin> set ?t" "CHR 0x22 \<notin> set ?t"
    using op args join_comma_chars [of _ args] by (auto simp: instr_text_def token_def list_all_iff)
  have trim: "trim ?t = ?t" using ends token_ends [OF op(1)] token_ends [OF lst] by (intro trim_whole) simp_all
  have "comment_start False False 0 (''    '' @ ?t) = None" using safe by (intro comment_start_None) auto
  then have strip: "strip_comment (''    '' @ ?t) = Some ?t" using ends trim by (simp add: strip_comment_def)
  have dir: "strip_prefix p ?t = None" "\<not> starts_with ?t p" if "hd p = CHR ''.''" "p \<noteq> []" for p
    using that op ends by (auto simp: strip_prefix_def starts_with_prefix prefix_def)
  have "strip_suffix '':'' ?t = None"
    using ends lst by (auto simp: strip_suffix_def ends_with_suffix suffix_def token_def)
  with strip dir ends parse_instruction_text [OF op(1) args] inst show ?thesis
    by (auto simp: reads_as_def parse_section_directive_def parse_asm_op_def)
qed


section \<open>Registers and operands\<close>

definition register_names :: "string list" where
  "register_names =
     [''zero'', ''ra'', ''sp'', ''gp'', ''tp'', ''t0'', ''t1'', ''t2'', ''s0'', ''fp'', ''s1'', ''a0'', ''a1'', ''a2'', ''a3'',
      ''a4'', ''a5'', ''a6'', ''a7'', ''s2'', ''s3'', ''s4'', ''s5'', ''s6'', ''s7'', ''s8'', ''s9'', ''s10'', ''s11'', ''t3'',
      ''t4'', ''t5'', ''t6'', ''x0'', ''x1'', ''x2'', ''x3'', ''x4'', ''x5'', ''x6'', ''x7'', ''x8'', ''x9'', ''x10'', ''x11'',
      ''x12'', ''x13'', ''x14'', ''x15'', ''x16'', ''x17'', ''x18'', ''x19'', ''x20'', ''x21'', ''x22'', ''x23'', ''x24'', ''x25'',
      ''x26'', ''x27'', ''x28'', ''x29'', ''x30'', ''x31'']"

lemma parse_register_names: "parse_register r = Inr n \<Longrightarrow> r \<in> set register_names"
  by (rule ccontr) (simp add: parse_register_def register_names_def)

lemma register_names_tokens: "list_all (\<lambda>r. token r \<and> CHR '')'' \<notin> set r \<and> CHR ''('' \<notin> set r) register_names"
  by code_simp

lemma token_register [simp]: "parse_register r = Inr n \<Longrightarrow> token r"
  using parse_register_names register_names_tokens unfolding list_all_iff by blast

lemma show_int_chars: "c \<in> set (show_int v) \<Longrightarrow> c = CHR ''-'' \<or> (\<exists>d < 10. c = char_of (48 + d :: nat))"
  using show_nat_digits by (fastforce simp: show_int_def split: if_splits)

lemma show_int_no:
  assumes "of_char c < (45 :: nat) \<or> (57 :: nat) < of_char c"
  shows "c \<notin> set (show_int v)"
proof
  assume "c \<in> set (show_int v)"
  then consider "c = CHR ''-''" | d :: nat where "d < 10" "c = char_of (48 + d)" using show_int_chars by blast
  then show False using assms by cases (auto simp: digit_char)
qed

lemma show_int_nonempty [simp]: "show_int v \<noteq> []"
  using show_nat_first [of "nat v"] by (auto simp: show_int_def)

lemma token_show_int [simp]: "token (show_int v)"
proof -
  have "CHR '':'' \<notin> set (show_int v)" by (rule show_int_no) simp
  then have "last (show_int v) \<noteq> CHR '':''" by (metis last_in_set show_int_nonempty)
  then show ?thesis by (simp add: token_def show_int_no)
qed

lemma token_operand [simp]:
  assumes "parse_register r = Inr n"
  shows "token (show_int v @ CHR ''('' # r @ '')'')"
  using token_register [OF assms] by (auto simp: token_def plain_char_def show_int_no)

lemma find_char_field [simp]: "c \<notin> set a \<Longrightarrow> find_char c (a @ c # r) = Some (length a)"
  unfolding find_char_def find_Some_iff by (rule exI [of _ "length a"]) (auto simp: nth_append)

lemma rfind_char_last [simp]: "rfind_char c (s @ [c]) = Some (length s)"
  by (simp add: rfind_char_def)

lemma parse_operand [simp]:
  assumes "parse_register r = Inr n" "in_i64 v"
  shows "parse_memory_operand (show_int v @ CHR ''('' # r @ '')'') = Inr (v, n)"
proof -
  have "rfind_char CHR '')'' (show_int v @ CHR ''('' # r @ '')'') = Some (length (show_int v) + 1 + length r)"
    using rfind_char_last [of "CHR '')''" "show_int v @ ''('' @ r"] by simp
  moreover have "plain r" using token_register [OF assms(1)] by (simp add: token_def)
  ultimately show ?thesis using assms by (simp add: parse_memory_operand_def show_int_no)
qed

primrec store_inst :: "store_op \<Rightarrow> byte \<Rightarrow> byte \<Rightarrow> int \<Rightarrow> instruction" where
  "store_inst SByte = ISb"
| "store_inst SHalf = ISh"
| "store_inst SWord = ISw"
| "store_inst SDouble = ISd"

primrec load_inst :: "load_op \<Rightarrow> byte \<Rightarrow> byte \<Rightarrow> int \<Rightarrow> instruction" where
  "load_inst LByteUnsigned = ILbu"
| "load_inst LDouble = ILd"

lemma tokens [simp]: "token ''addi''" "token ''add''" "token ''li''" "token ''bltu''"
  "token ''sb''" "token ''sh''" "token ''sw''" "token ''sd''" "token ''lbu''" "token ''ld''"
  by (simp_all add: token_def plain_char_def)

lemma reads_addi:
  assumes "parse_register rd = Inr d" "parse_register rs = Inr s" "in_i64 v"
  shows "reads_as (''    '' @ addi_text rd rs v) (IAddi d s v)"
proof -
  have "addi_text rd rs v = instr_text ''addi'' [rd, rs, show_int v]" by (simp add: addi_text_def instr_text_def)
  then show ?thesis using assms
    by (simp only:) (rule reads_as_text; simp add: parse_mnemonic_def parse_rri_def reg_arg_def arg_def)
qed

lemma reads_add:
  assumes "parse_register rd = Inr d" "parse_register rs = Inr s" "parse_register rt = Inr t"
  shows "reads_as (''    '' @ add_text rd rs rt) (IAdd d s t)"
proof -
  have "add_text rd rs rt = instr_text ''add'' [rd, rs, rt]" by (simp add: add_text_def instr_text_def)
  then show ?thesis using assms
    by (simp only:) (rule reads_as_text; simp add: parse_mnemonic_def parse_rrr_def reg_arg_def arg_def)
qed

lemma reads_li:
  assumes "parse_register rd = Inr d" "- (2 ^ 63) \<le> v" "v < 2 ^ 64"
  shows "reads_as (''    '' @ li_text rd v) (ILi d v)"
proof -
  have "li_text rd v = instr_text ''li'' [rd, show_int v]" by (simp add: li_text_def instr_text_def)
  then show ?thesis using assms
    by (simp only:) (rule reads_as_text; simp add: parse_mnemonic_def reg_arg_def arg_def)
qed

lemma reads_bltu:
  assumes "parse_register rs = Inr s" "parse_register rt = Inr t" "token l"
  shows "reads_as (''    '' @ bltu_text rs rt l) (IBltu s t l)"
proof -
  have "bltu_text rs rt l = instr_text ''bltu'' [rs, rt, l]" by (simp add: bltu_text_def instr_text_def)
  then show ?thesis using assms
    by (simp only:) (rule reads_as_text; simp add: parse_mnemonic_def parse_rrl_def reg_arg_def arg_def)
qed

lemma reads_store:
  assumes "parse_register r = Inr n" "parse_register base = Inr b" "in_i64 v"
  shows "reads_as (''    '' @ memory_text (store_mnemonic op) r v base) (store_inst op n b v)"
proof -
  have "memory_text (store_mnemonic op) r v base = instr_text (store_mnemonic op) [r, show_int v @ ''('' @ base @ '')'']"
    by (simp add: memory_text_def instr_text_def)
  then show ?thesis using assms
    by (simp only:) (cases op; rule reads_as_text; simp add: parse_mnemonic_def parse_mem_def reg_arg_def arg_def)
qed

lemma reads_load:
  assumes "parse_register r = Inr n" "parse_register base = Inr b" "in_i64 v"
  shows "reads_as (''    '' @ memory_text (load_mnemonic op) r v base) (load_inst op n b v)"
proof -
  have "memory_text (load_mnemonic op) r v base = instr_text (load_mnemonic op) [r, show_int v @ ''('' @ base @ '')'']"
    by (simp add: memory_text_def instr_text_def)
  then show ?thesis using assms
    by (simp only:) (cases op; rule reads_as_text; simp add: parse_mnemonic_def parse_mem_def reg_arg_def arg_def)
qed


section \<open>Emitted instructions\<close>

definition emits :: "code_gen \<Rightarrow> code_gen \<Rightarrow> instruction list \<Rightarrow> bool" where
  "emits g g' insts \<longleftrightarrow> (\<exists>lines. g' = g\<lparr>assembly := assembly g @ lines\<rparr> \<and> list_all2 reads_as lines insts)"

lemma emits_refl [simp]: "emits g g []"
  by (simp add: emits_def)

lemma emits_trans: "emits g g' xs \<Longrightarrow> emits g' g'' ys \<Longrightarrow> emits g g'' (xs @ ys)"
  unfolding emits_def by (fastforce intro: list_all2_appendI)

lemma emits_push: "reads_as line i \<Longrightarrow> emits g (push_line line g) [i]"
  by (auto simp: emits_def push_line_def intro!: exI [of _ "[line]"])

lemma emits_line: "reads_as (''    '' @ inst) i \<Longrightarrow> emits g (emit_line inst g) [i]"
  unfolding emit_line_def by (rule emits_push)

lemma emits_guard: "emits g g' xs \<Longrightarrow> emits (g\<lparr>allocated_write_guard := w\<rparr>) (g'\<lparr>allocated_write_guard := w\<rparr>) xs"
  unfolding emits_def by (elim exE conjE, rule exI, rule conjI, simp_all)

lemma emission_registers_ok:
  "parse_register a = Inr m \<Longrightarrow> parse_register b = Inr n \<Longrightarrow> emission_registers a b g = (Some (m, n), g)"
  by (simp add: emission_registers_def)

lemma small_in_i64: "small_signed_immediate v \<Longrightarrow> in_i64 v"
  by (simp add: small_signed_immediate_def in_i64_def)

lemma emits_add_immediate:
  assumes "parse_register rd = Inr d" "parse_register rs = Inr s" "small_signed_immediate v"
  shows "emits g (emit_add_immediate rd rs v g) [IAddi d s v]"
  using assms emits_push [OF reads_addi [OF assms(1,2)]]
  by (simp add: emit_add_immediate_def emission_immediate_def small_in_i64 emission_registers_ok)

lemma emits_li_add:
  assumes "parse_register rd = Inr d" "parse_register rs = Inr s" "- (2 ^ 63) \<le> v" "v < 2 ^ 64"
  shows "emits g (emit_line (add_text rd rs rd) (emit_line (li_text rd v) g)) [ILi d v, IAdd d s d]"
  using emits_trans [OF emits_line [OF reads_li [OF assms(1,3,4)]] emits_line [OF reads_add [OF assms(1,2,1)]]] by simp

lemma emits_store_unguarded:
  assumes "parse_register r = Inr n" "parse_register base = Inr b" "small_signed_immediate v"
  shows "emits g (emit_store_unguarded op r base v g) [store_inst op n b v]"
  using assms emits_push [OF reads_store [OF assms(1,2)]]
  by (simp add: emit_store_unguarded_def emission_immediate_def small_in_i64 emission_registers_ok)

lemma emits_load:
  assumes "parse_register r = Inr n" "parse_register base = Inr b" "small_signed_immediate v"
  shows "emits g (emit_load op r base v g) [load_inst op n b v]"
  using assms emits_push [OF reads_load [OF assms(1,2)]]
  by (simp add: emit_load_def emission_immediate_def small_in_i64 emission_registers_ok)

lemma parse_sp [simp]: "parse_register ''sp'' = Inr 2"
  by (simp add: parse_register_def)

lemma emits_stack_adjustment:
  assumes "small_signed_immediate v" "v mod 16 = 0"
  obtains g' where "emit_stack_adjustment v g = Some g'" "emits g g' [IAddi 2 2 v]"
  using assms emits_add_immediate [OF parse_sp parse_sp assms(1), of g]
  by (simp add: emit_stack_adjustment_def emit_large_addi_def emit_large_addi_with_avoid_def register_ok_def
      small_signed_immediate_def)

definition access_inst :: "memory_op \<Rightarrow> byte \<Rightarrow> int \<Rightarrow> instruction" where
  "access_inst op n v = (case op of MLoad l \<Rightarrow> load_inst l n 2 v | MStore s \<Rightarrow> store_inst s n 2 v)"

lemma emits_stack_access:
  assumes "parse_register r = Inr n" "offset \<le> 2047"
  obtains g' where "emit_stack_access_with_avoid op r offset avoid g = Some g'" "emits g g' [access_inst op n (int offset)]"
proof -
  have small: "small_signed_immediate (int offset)" using assms(2) by (simp add: small_signed_immediate_def)
  let ?g = "g\<lparr>allocated_write_guard := None\<rparr>"
  have "emits ?g (emit_memory_unguarded op r ''sp'' (int offset) ?g) [access_inst op n (int offset)]"
    using emits_store_unguarded [OF assms(1) parse_sp small] emits_load [OF assms(1) parse_sp small]
    by (cases op) (simp_all add: access_inst_def)
  from emits_guard [OF this, of "allocated_write_guard g"] small show thesis
    by (intro that) (simp_all add: emit_stack_access_with_avoid_def small_in_i64 Let_def)
qed

definition sp_addi_insts :: "byte \<Rightarrow> nat \<Rightarrow> instruction list" where
  "sp_addi_insts n offset =
     (if offset \<le> 2047 then [IAddi n 2 (int offset)] else [ILi n (int offset), IAdd n 2 n])"

lemma emits_sp_addi:
  assumes "parse_register r = Inr n" "n \<noteq> 2" "offset < 2 ^ 64"
  obtains g' where "emit_sp_addi r offset g = Some g'" "emits g g' (sp_addi_insts n offset)"
proof -
  have "r \<noteq> ''sp''" using assms(1,2) by auto
  moreover have "int offset < 2 ^ 64" using assms(3) by (metis of_nat_less_iff of_nat_numeral of_nat_power)
  ultimately show thesis
    using that emits_add_immediate [OF assms(1) parse_sp, of "int offset" g] emits_li_add [OF assms(1) parse_sp, of "int offset" g]
    by (cases "offset \<le> 2047") (auto simp: emit_sp_addi_def sp_addi_insts_def small_signed_immediate_def)
qed


definition address_insts :: "byte \<Rightarrow> byte \<Rightarrow> int \<Rightarrow> instruction list" where
  "address_insts p b offset =
     (if small_signed_immediate offset then [IAddi p b offset] else [ILi p offset, IAdd p b p])"

definition guard_insts :: "store_op \<Rightarrow> byte \<Rightarrow> byte \<Rightarrow> int \<Rightarrow> write_guard \<Rightarrow> byte \<times> byte \<times> byte \<Rightarrow> instruction list" where
  "guard_insts op s b offset guard = (\<lambda>(p, l, u).
     [IAddi 2 2 (- 32), ISd p 2 0, ISd l 2 8, ISd u 2 16]
     @ address_insts p b offset
     @ sp_addi_insts l (guard_start guard + 32) @ sp_addi_insts u (guard_end guard - store_width op + 32)
     @ [IBltu p l (guard_failure guard), IBltu u p (guard_failure guard), store_inst op s p 0]
     @ [ILd p 2 0, ILd l 2 8, ILd u 2 16, IAddi 2 2 32])"

lemma guard_registers_choice:
  obtains rp rl ru p l u where "guard_registers s b = [rp, rl, ru]"
    "parse_register rp = Inr p" "parse_register rl = Inr l" "parse_register ru = Inr u"
    "distinct [0, 2, p, l, u]" "s \<notin> {p, l, u}" "b \<notin> {p, l, u}"
proof -
  define nm where "nm x = the (map_of [(16, ''a6''), (17, ''a7''), (31, ''t6''), (30, ''t5''), (29, ''t4'')] x)" for x :: byte
  define C :: "byte list" where "C = [16, 17, 31, 30, 29]"
  define P where "P x \<longleftrightarrow> x \<noteq> s \<and> x \<noteq> b" for x
  have C: "distinct C" "length C = 5" "0 \<notin> set C" "2 \<notin> set C" by (simp_all add: C_def)
  have nm: "parse_register (nm x) = Inr x" if "x \<in> set C" for x
    using that by (auto simp: nm_def C_def parse_register_def)
  have "[''a6'', ''a7'', ''t6'', ''t5'', ''t4''] = map nm C" by (simp add: nm_def C_def)
  moreover have "filter (\<lambda>x. parse_register (nm x) \<noteq> Inr s \<and> parse_register (nm x) \<noteq> Inr b) C = filter P C"
    by (rule filter_cong) (use nm in \<open>auto simp: P_def\<close>)
  ultimately have names: "guard_registers s b = map nm (take 3 (filter P C))"
    by (simp only: guard_registers_def filter_map comp_def take_map)
  have "length (filter (\<lambda>x. \<not> P x) C) = card (set (filter (\<lambda>x. \<not> P x) C))"
    using C(1) by (metis distinct_card distinct_filter)
  also have "\<dots> \<le> card {s, b}" by (rule card_mono) (auto simp: P_def)
  also have "\<dots> \<le> 2" by (simp add: card_insert_if)
  finally have "3 \<le> length (filter P C)" using sum_length_filter_compl [of P C] C(2) by simp
  then obtain p l u rest where ns: "filter P C = p # l # u # rest" by (metis Suc_le_length_iff numeral_3_eq_3)
  have "{p, l, u} \<subseteq> set (filter P C)" unfolding ns by auto
  then have sub: "{p, l, u} \<subseteq> {x \<in> set C. P x}" by simp
  have "distinct (p # l # u # rest)" using C(1) ns by (metis distinct_filter)
  then have "distinct [0, 2, p, l, u]" using sub C(3,4) by auto
  with sub nm names show thesis by (intro that [of "nm p" "nm l" "nm u" p l u]) (auto simp: ns P_def)
qed


lemma emits_stack_stores:
  "list_all2 (\<lambda>r n. parse_register r = Inr n) rs ns \<Longrightarrow> (index + length rs) * 8 \<le> 2047 \<Longrightarrow>
    \<exists>g'. stack_stores index rs g = Some g' \<and> emits g g' (map (\<lambda>(i, n). ISd n 2 (int (i * 8))) (enumerate index ns))"
proof (induction rs ns arbitrary: index g rule: list_all2_induct)
  case (Cons r rs n ns)
  obtain g1 where g1: "emit_stack_store r (index * 8) g = Some g1" "emits g g1 [ISd n 2 (int (index * 8))]"
    unfolding emit_stack_store_def
    by (rule emits_stack_access [OF Cons.hyps(1), of "index * 8" "MStore SDouble" "[]" g])
      (use Cons.prems in \<open>auto simp: access_inst_def\<close>)
  from Cons.IH [of "Suc index" g1] Cons.prems emits_trans [OF g1(2)] g1(1) show ?case by fastforce
qed simp

lemma emits_stack_loads:
  "list_all2 (\<lambda>r n. parse_register r = Inr n) rs ns \<Longrightarrow> (index + length rs) * 8 \<le> 2047 \<Longrightarrow>
    \<exists>g'. stack_loads index rs g = Some g' \<and> emits g g' (map (\<lambda>(i, n). ILd n 2 (int (i * 8))) (enumerate index ns))"
proof (induction rs ns arbitrary: index g rule: list_all2_induct)
  case (Cons r rs n ns)
  obtain g1 where g1: "emit_stack_load r (index * 8) g = Some g1" "emits g g1 [ILd n 2 (int (index * 8))]"
    unfolding emit_stack_load_def
    by (rule emits_stack_access [OF Cons.hyps(1), of "index * 8" "MLoad LDouble" "[]" g])
      (use Cons.prems in \<open>auto simp: access_inst_def\<close>)
  from Cons.IH [of "Suc index" g1] Cons.prems emits_trans [OF g1(2)] g1(1) show ?case by fastforce
qed simp

lemma emits_guard_check:
  assumes regs: "parse_register src = Inr s" "parse_register base = Inr b" "in_i64 offset"
    and scratch: "parse_register rp = Inr p" "parse_register rl = Inr l" "parse_register ru = Inr u" "distinct [0, 2, p, l, u]"
    and guard: "token (guard_failure guard)" "guard_start guard + 32 < 2 ^ 64"
      "store_width op \<le> guard_end guard" "guard_end guard + 32 < 2 ^ 64"
  shows "\<exists>g'. guard_check op src base offset guard rp rl ru g = Some g' \<and> emits g g'
    (address_insts p b offset @ sp_addi_insts l (guard_start guard + 32)
     @ sp_addi_insts u (guard_end guard - store_width op + 32)
     @ [IBltu p l (guard_failure guard), IBltu u p (guard_failure guard), store_inst op s p 0])"
proof -
  define g1 where "g1 = (if - 2048 \<le> offset \<and> offset \<le> 2047 then emit_add_immediate rp base offset g
               else emit_line (add_text rp base rp) (emit_line (li_text rp offset) g))"
  have e1: "emits g g1 (address_insts p b offset)"
    using emits_add_immediate [OF scratch(1) regs(2), of offset g] emits_li_add [OF scratch(1) regs(2), of offset g] regs(3)
    by (auto simp: g1_def address_insts_def small_signed_immediate_def in_i64_def)
  obtain g2 where g2: "emit_sp_addi rl (guard_start guard + 32) g1 = Some g2" "emits g1 g2 (sp_addi_insts l (guard_start guard + 32))"
    by (rule emits_sp_addi [OF scratch(2), of "guard_start guard + 32" g1]) (use scratch(4) guard(2) in auto)
  obtain g3 where g3: "emit_sp_addi ru (guard_end guard - store_width op + 32) g2 = Some g3"
    "emits g2 g3 (sp_addi_insts u (guard_end guard - store_width op + 32))"
    by (rule emits_sp_addi [OF scratch(3), of "guard_end guard - store_width op + 32" g2]) (use scratch(4) guard(4) in auto)
  let ?g4 = "emit_line (bltu_text rp rl (guard_failure guard)) g3"
  let ?g5 = "emit_line (bltu_text ru rp (guard_failure guard)) ?g4"
  let ?g6 = "emit_store_unguarded op src rp 0 ?g5"
  have "emits g3 ?g4 [IBltu p l (guard_failure guard)]" by (rule emits_line [OF reads_bltu [OF scratch(1,2) guard(1)]])
  from emits_trans [OF this emits_line [OF reads_bltu [OF scratch(3,1) guard(1)]]]
  have "emits g3 ?g5 [IBltu p l (guard_failure guard), IBltu u p (guard_failure guard)]" by simp
  from emits_trans [OF this emits_store_unguarded [OF regs(1) scratch(1)], of 0]
  have "emits g3 ?g6 [IBltu p l (guard_failure guard), IBltu u p (guard_failure guard), store_inst op s p 0]"
    by (simp add: small_signed_immediate_def)
  from emits_trans [OF e1 emits_trans [OF g2(2) emits_trans [OF g3(2) this]]]
  show ?thesis using g2(1) g3(1) guard by (simp add: guard_check_def g1_def [symmetric] Let_def)
qed

lemma emit_guarded_store:
  assumes regs: "parse_register src = Inr s" "parse_register base = Inr b" "in_i64 offset" "s \<noteq> 2" "b \<noteq> 2" "b \<noteq> 8"
    and guard: "allocated_write_guard g = Some guard" "token (guard_failure guard)" "guard_start guard + 32 < 2 ^ 64"
      "store_width op \<le> guard_end guard" "guard_end guard + 32 < 2 ^ 64"
  obtains g' p l u where "emit_store op src base offset g = Some g'"
    "emits g g' (guard_insts op s b offset guard (p, l, u))"
    "distinct [0, 2, p, l, u]" "s \<notin> {p, l, u}" "b \<notin> {p, l, u}"
proof -
  obtain rp rl ru p l u where names: "guard_registers s b = [rp, rl, ru]"
    and scratch: "parse_register rp = Inr p" "parse_register rl = Inr l" "parse_register ru = Inr u"
      "distinct [0, 2, p, l, u]" "s \<notin> {p, l, u}" "b \<notin> {p, l, u}"
    by (rule guard_registers_choice)
  have all2: "list_all2 (\<lambda>r n. parse_register r = Inr n) [rp, rl, ru] [p, l, u]" using scratch by simp
  let ?g = "g\<lparr>allocated_write_guard := None\<rparr>"
  obtain g1 where g1: "emit_stack_adjustment (- 32) ?g = Some g1" "emits ?g g1 [IAddi 2 2 (- 32)]"
    by (rule emits_stack_adjustment [of "- 32" ?g]) (simp_all add: small_signed_immediate_def)
  obtain g2 where g2: "stack_stores 0 [rp, rl, ru] g1 = Some g2" "emits g1 g2 [ISd p 2 0, ISd l 2 8, ISd u 2 16]"
    using emits_stack_stores [OF all2, of 0 g1] by auto
  obtain g3 where g3: "guard_check op src base offset guard rp rl ru g2 = Some g3"
    "emits g2 g3 (address_insts p b offset @ sp_addi_insts l (guard_start guard + 32)
     @ sp_addi_insts u (guard_end guard - store_width op + 32)
     @ [IBltu p l (guard_failure guard), IBltu u p (guard_failure guard), store_inst op s p 0])"
    using emits_guard_check [OF regs(1-3) scratch(1-4) guard(2-5)] by blast
  obtain g4 where g4: "stack_loads 0 [rp, rl, ru] g3 = Some g4" "emits g3 g4 [ILd p 2 0, ILd l 2 8, ILd u 2 16]"
    using emits_stack_loads [OF all2, of 0 g3] by auto
  obtain g5 where g5: "emit_stack_adjustment 32 g4 = Some g5" "emits g4 g5 [IAddi 2 2 32]"
    by (rule emits_stack_adjustment [of 32 g4]) (simp_all add: small_signed_immediate_def)
  have "emits ?g g5 (guard_insts op s b offset guard (p, l, u))"
    using emits_trans [OF g1(2) emits_trans [OF g2(2) emits_trans [OF g3(2) emits_trans [OF g4(2) g5(2)]]]]
    by (simp add: guard_insts_def)
  moreover have "g\<lparr>allocated_write_guard := Some guard\<rparr> = g" using guard(1) by simp
  ultimately have em: "emits g (g5\<lparr>allocated_write_guard := Some guard\<rparr>) (guard_insts op s b offset guard (p, l, u))"
    using emits_guard [of ?g g5 _ "Some guard"] by simp
  have run: "emit_allocated_guarded_store op src base offset guard ?g = Some (True, g5)"
    using regs names g1(1) g2(1) g3(1) g4(1) g5(1)
    by (simp add: emit_allocated_guarded_store_def Let_def del: stack_stores.simps stack_loads.simps)
  have "emit_store op src base offset g = Some (g5\<lparr>allocated_write_guard := Some guard\<rparr>)"
    using regs guard(1) run by (simp add: emit_store_def emission_immediate_def emission_registers_ok)
  from that [OF this em] scratch(4-6) show thesis by blast
qed


section \<open>Running instructions\<close>

record asm_state =
  as_regs :: "byte \<Rightarrow> u64"
  as_mem :: "u64 \<Rightarrow> byte"

definition reg_val :: "asm_state \<Rightarrow> byte \<Rightarrow> u64" where
  "reg_val st r = (if r = 0 then 0 else as_regs st r)"

definition set_reg :: "byte \<Rightarrow> u64 \<Rightarrow> asm_state \<Rightarrow> asm_state" where
  "set_reg r v st = (if r = 0 then st else st\<lparr>as_regs := (as_regs st)(r := v)\<rparr>)"

definition store_bytes :: "nat \<Rightarrow> u64 \<Rightarrow> u64 \<Rightarrow> (u64 \<Rightarrow> byte) \<Rightarrow> u64 \<Rightarrow> byte" where
  "store_bytes w a v m = (\<lambda>x. if unat (x - a) < w then ucast (drop_bit (8 * unat (x - a)) v) else m x)"

definition load_bytes :: "nat \<Rightarrow> u64 \<Rightarrow> (u64 \<Rightarrow> byte) \<Rightarrow> u64" where
  "load_bytes w a m = word_of_nat (le_to_nat (map (\<lambda>k. m (a + word_of_nat k)) [0..<w]))"

definition set_mem :: "nat \<Rightarrow> u64 \<Rightarrow> u64 \<Rightarrow> asm_state \<Rightarrow> asm_state" where
  "set_mem w a v st = st\<lparr>as_mem := store_bytes w a v (as_mem st)\<rparr>"

datatype outcome = Falls asm_state | Jumps string asm_state

definition inst_outcome :: "instruction \<Rightarrow> asm_state \<Rightarrow> outcome option" where
  "inst_outcome i st =
     (case i of
        ISb r b v \<Rightarrow> Some (Falls (set_mem 1 (reg_val st b + word_of_int v) (reg_val st r) st))
      | ISh r b v \<Rightarrow> Some (Falls (set_mem 2 (reg_val st b + word_of_int v) (reg_val st r) st))
      | ISw r b v \<Rightarrow> Some (Falls (set_mem 4 (reg_val st b + word_of_int v) (reg_val st r) st))
      | ISd r b v \<Rightarrow> Some (Falls (set_mem 8 (reg_val st b + word_of_int v) (reg_val st r) st))
      | ILd r b v \<Rightarrow> Some (Falls (set_reg r (load_bytes 8 (reg_val st b + word_of_int v) (as_mem st)) st))
      | ILbu r b v \<Rightarrow> Some (Falls (set_reg r (load_bytes 1 (reg_val st b + word_of_int v) (as_mem st)) st))
      | ILi r v \<Rightarrow> Some (Falls (set_reg r (word_of_int v) st))
      | IBltu a b l \<Rightarrow> Some (if reg_val st a < reg_val st b then Jumps l st else Falls st)
      | _ \<Rightarrow> map_option (\<lambda>(r, v). Falls (set_reg r v st)) (alu_meaning i (reg_val st)))"

fun run_insts :: "instruction list \<Rightarrow> asm_state \<Rightarrow> outcome option" where
  "run_insts [] st = Some (Falls st)"
| "run_insts (i # is) st =
     (case inst_outcome i st of
        None \<Rightarrow> None
      | Some (Falls st') \<Rightarrow> run_insts is st'
      | Some (Jumps l st') \<Rightarrow> Some (Jumps l st'))"

lemma run_append: "run_insts xs st = Some (Falls st') \<Longrightarrow> run_insts (xs @ ys) st = run_insts ys st'"
  by (induction xs arbitrary: st) (auto split: option.splits outcome.splits)

lemma inst_outcome_simps [simp]:
  "inst_outcome (IAddi d r v) st = Some (Falls (set_reg d (reg_val st r + word_of_int v) st))"
  "inst_outcome (IAdd d r r') st = Some (Falls (set_reg d (reg_val st r + reg_val st r') st))"
  "inst_outcome (ISd r b v) st = Some (Falls (set_mem 8 (reg_val st b + word_of_int v) (reg_val st r) st))"
  "inst_outcome (ILd r b v) st = Some (Falls (set_reg r (load_bytes 8 (reg_val st b + word_of_int v) (as_mem st)) st))"
  "inst_outcome (ILi r v) st = Some (Falls (set_reg r (word_of_int v) st))"
  "inst_outcome (IBltu a b l) st = Some (if reg_val st a < reg_val st b then Jumps l st else Falls st)"
  "inst_outcome (store_inst op r b v) st =
     Some (Falls (set_mem (store_width op) (reg_val st b + word_of_int v) (reg_val st r) st))"
  by (simp_all add: inst_outcome_def) (cases op; simp)

lemma reg_val_set [simp]: "reg_val (set_reg r v st) r' = (if r' = r \<and> r \<noteq> 0 then v else reg_val st r')"
  by (simp add: reg_val_def set_reg_def)

lemma reg_val_set_mem [simp]: "reg_val (set_mem w a v st) r = reg_val st r"
  by (simp add: reg_val_def set_mem_def)

lemma as_mem_simps [simp]: "as_mem (set_reg r v st) = as_mem st" "as_mem (set_mem w a v st) = store_bytes w a v (as_mem st)"
  by (simp_all add: set_reg_def set_mem_def)

lemma set_reg_set_reg [simp]: "set_reg r v (set_reg r w st) = set_reg r v st"
  by (simp add: set_reg_def)

lemma run_address_insts:
  assumes "p \<noteq> b" "p \<noteq> 0"
  shows "run_insts (address_insts p b offset) st = Some (Falls (set_reg p (reg_val st b + word_of_int offset) st))"
  using assms by (simp add: address_insts_def)

lemma run_sp_addi:
  assumes "n \<noteq> 2" "n \<noteq> 0"
  shows "run_insts (sp_addi_insts n offset) st = Some (Falls (set_reg n (reg_val st 2 + word_of_nat offset) st))"
  using assms by (simp add: sp_addi_insts_def)

lemma unat_u64_less: "unat (w :: u64) < 2 ^ 64"
  using unsigned_less [of w] by simp

lemma ucast_drop_bit_byte: "(ucast (drop_bit n (v :: u64)) :: byte) = word_of_nat (unat v div 2 ^ n)"
  by (metis drop_bit_eq_div of_nat_unat unat_drop_bit_eq)

lemma bytes_of_word: "map (\<lambda>k. ucast (drop_bit (8 * k) (v :: u64))) [0..<n] = nat_to_le n (unat v)"
proof -
  have "map (\<lambda>k. word_of_nat (x div 2 ^ (8 * k)) :: byte) [0..<n] = nat_to_le n x" for x
  proof (induction n arbitrary: x)
    case (Suc n)
    have "map (\<lambda>k. word_of_nat (x div 2 ^ (8 * k)) :: byte) [0..<Suc n]
        = word_of_nat x # map (\<lambda>k. word_of_nat (x div 256 div 2 ^ (8 * k))) [0..<n]"
      by (simp add: map_upt_Suc div_mult2_eq power_add del: upt_Suc)
    then show ?case by (simp add: Suc del: upt_Suc)
  qed simp
  then show ?thesis by (simp add: ucast_drop_bit_byte)
qed

lemma load_after_store [simp]: "load_bytes 8 a (store_bytes 8 a v m) = v"
proof -
  have "map (\<lambda>k. store_bytes 8 a v m (a + word_of_nat k)) [0..<8] = map (\<lambda>k. ucast (drop_bit (8 * k) v)) [0..<8]"
  proof (rule map_cong)
    fix k :: nat assume "k \<in> set [0..<8]"
    then have "unat (word_of_nat k :: u64) = k" by (simp add: unat_of_nat)
    with \<open>k \<in> set [0..<8]\<close> show "store_bytes 8 a v m (a + word_of_nat k) = ucast (drop_bit (8 * k) v)"
      by (simp add: store_bytes_def)
  qed simp
  moreover have "unat v < 256 ^ 8" using unat_u64_less [of v] by simp
  ultimately show ?thesis
    by (simp only: load_bytes_def bytes_of_word le_to_nat_nat_to_le_id) simp
qed

lemma load_other:
  assumes "\<And>k. k < 8 \<Longrightarrow> w \<le> unat (a + word_of_nat k - b)"
  shows "load_bytes 8 a (store_bytes w b v m) = load_bytes 8 a m"
proof -
  have "map (\<lambda>k. store_bytes w b v m (a + word_of_nat k)) [0..<8] = map (\<lambda>k. m (a + word_of_nat k)) [0..<8]"
    by (rule map_cong) (use assms in \<open>auto simp: store_bytes_def not_less [symmetric]\<close>)
  then show ?thesis by (simp only: load_bytes_def)
qed


lemma unat_plus_nat: "unat (a :: u64) + n < 2 ^ 64 \<Longrightarrow> unat (a + word_of_nat n) = unat a + n"
  by (simp add: unat_word_ariths unat_of_nat)

lemma unat_minus_wrap: "unat (x :: u64) < unat y \<Longrightarrow> unat (x - y) = 2 ^ 64 - (unat y - unat x)"
  by (simp add: unat_sub_if_size word_size)

lemma load_below:
  assumes "unat a + 8 \<le> unat b" "unat b + w \<le> 2 ^ 64 + unat a"
  shows "load_bytes 8 a (store_bytes w b v m) = load_bytes 8 a m"
proof (rule load_other)
  fix k :: nat assume k: "k < 8"
  have "unat b < 2 ^ 64" by (rule unat_u64_less)
  then have "unat (a + word_of_nat k) = unat a + k" using k assms(1) by (intro unat_plus_nat) simp
  then have "unat (a + word_of_nat k - b) = 2 ^ 64 - (unat b - (unat a + k))"
    using k assms(1) by (subst unat_minus_wrap) simp_all
  then show "w \<le> unat (a + word_of_nat k - b)" using assms k by simp
qed

lemma frame_store:
  assumes "\<not> unat (x - f) < 24" "j + 8 \<le> 24"
  shows "store_bytes 8 (f + word_of_nat j) v m x = m x"
proof -
  have "\<not> unat (x - (f + word_of_nat j)) < 8"
  proof
    assume d: "unat (x - (f + word_of_nat j)) < 8"
    have "x - f = x - (f + word_of_nat j) + word_of_nat j" by simp
    also have "unat \<dots> = unat (x - (f + word_of_nat j)) + j" using d assms(2) by (intro unat_plus_nat) simp
    finally show False using assms d by simp
  qed
  then show ?thesis by (simp add: store_bytes_def)
qed

text \<open>
  What a guarded store to address \<open>a\<close> does: inside the region it writes the low bytes of \<open>v\<close> there,
  outside it jumps to the failure label; either way only the 24 bytes it spills below the stack
  pointer change otherwise.
\<close>

definition guarded_outcome ::
  "store_op \<Rightarrow> u64 \<Rightarrow> u64 \<Rightarrow> write_guard \<Rightarrow> asm_state \<Rightarrow> outcome option \<Rightarrow> bool" where
  "guarded_outcome op a v guard st r \<longleftrightarrow>
     (let sp = as_regs st 2
      in if unat sp + guard_start guard \<le> unat a \<and> unat a + store_width op \<le> unat sp + guard_end guard
         then \<exists>st'. r = Some (Falls st') \<and> as_regs st' = as_regs st
           \<and> (\<forall>x. \<not> unat (x - (sp - 32)) < 24 \<longrightarrow> as_mem st' x = store_bytes (store_width op) a v (as_mem st) x)
         else \<exists>st'. r = Some (Jumps (guard_failure guard) st')
           \<and> (\<forall>x. \<not> unat (x - (sp - 32)) < 24 \<longrightarrow> as_mem st' x = as_mem st x))"

lemma run_guard:
  assumes regs: "distinct [0, 2, p, l, u]" "s \<notin> {p, l, u}" "b \<notin> {p, l, u}" "s \<noteq> 2" "b \<noteq> 2"
    and guard: "guard_start guard \<le> guard_end guard" "store_width op \<le> guard_end guard"
    and sp: "32 \<le> unat (as_regs st 2)" "unat (as_regs st 2) + guard_end guard < 2 ^ 64"
  shows "guarded_outcome op (reg_val st b + word_of_int offset) (reg_val st s) guard st
    (run_insts (guard_insts op s b offset guard (p, l, u)) st)"
proof -
  have ne: "p \<noteq> 0" "l \<noteq> 0" "u \<noteq> 0" "p \<noteq> 2" "l \<noteq> 2" "u \<noteq> 2" "2 \<noteq> p" "2 \<noteq> l" "2 \<noteq> u" "p \<noteq> l" "p \<noteq> u" "l \<noteq> u"
    "l \<noteq> p" "u \<noteq> p" "u \<noteq> l" "p \<noteq> b" "b \<noteq> p" "b \<noteq> l" "b \<noteq> u" "s \<noteq> p" "s \<noteq> l" "s \<noteq> u" "s \<noteq> 2" "b \<noteq> 2"
    using regs by auto
  define S where "S = as_regs st 2"
  define F where "F = S - 32"
  define A where "A = reg_val st b + word_of_int offset"
  define V where "V = reg_val st s"
  define w where "w = store_width op"
  define m1 where "m1 = store_bytes 8 (F + word_of_nat 16) (reg_val st u)
     (store_bytes 8 (F + word_of_nat 8) (reg_val st l) (store_bytes 8 (F + word_of_nat 0) (reg_val st p) (as_mem st)))"
  define st1 where "st1 = (set_reg 2 F st)\<lparr>as_mem := m1\<rparr>"
  have st1: "reg_val st1 r = (if r = 2 then F else reg_val st r)" "as_mem st1 = m1" for r
    by (simp_all add: st1_def reg_val_def set_reg_def)
  have pre: "run_insts [IAddi 2 2 (- 32), ISd p 2 0, ISd l 2 8, ISd u 2 16] st = Some (Falls st1)"
    using regs(1) by (auto simp: st1_def m1_def F_def S_def set_mem_def set_reg_def reg_val_def)
  let ?lo = "S + word_of_nat (guard_start guard)" and ?hi = "S + word_of_nat (guard_end guard - w)"
  define st4 where "st4 = set_reg u ?hi (set_reg l ?lo (set_reg p A st1))"
  have addr: "run_insts (address_insts p b offset) st1 = Some (Falls (set_reg p A st1))"
    using run_address_insts [of p b offset st1] ne by (simp add: st1 A_def)
  have lower: "run_insts (sp_addi_insts l (guard_start guard + 32)) (set_reg p A st1) = Some (Falls (set_reg l ?lo (set_reg p A st1)))"
    using run_sp_addi [of l "guard_start guard + 32" "set_reg p A st1"] ne by (simp add: st1 F_def algebra_simps)
  have upper: "run_insts (sp_addi_insts u (guard_end guard - store_width op + 32)) (set_reg l ?lo (set_reg p A st1)) = Some (Falls st4)"
    using run_sp_addi [of u "guard_end guard - w + 32" "set_reg l ?lo (set_reg p A st1)"] ne
    by (simp add: st1 st4_def w_def F_def algebra_simps)
  have st4: "reg_val st4 p = A" "reg_val st4 l = ?lo" "reg_val st4 u = ?hi" "reg_val st4 s = V" "reg_val st4 2 = F" "as_mem st4 = m1"
    "as_regs st4 = (as_regs st)(2 := F, p := A, l := ?lo, u := ?hi)"
    using ne by (simp_all add: st4_def st1 V_def) (simp add: st1_def set_reg_def)
  have run: "run_insts (guard_insts op s b offset guard (p, l, u)) st =
      run_insts ([IBltu p l (guard_failure guard), IBltu u p (guard_failure guard), store_inst op s p 0]
        @ [ILd p 2 0, ILd l 2 8, ILd u 2 16, IAddi 2 2 32]) st4"
    unfolding guard_insts_def prod.case run_append [OF pre] run_append [OF addr] run_append [OF lower] run_append [OF upper] ..
  have bounds: "unat ?lo = unat S + guard_start guard" "unat ?hi = unat S + (guard_end guard - w)"
    by (rule unat_plus_nat, use sp guard in \<open>simp add: S_def w_def\<close>)+
  have outside: "m1 x = as_mem st x" if "\<not> unat (x - F) < 24" for x
    using that by (simp add: m1_def frame_store del: of_nat_numeral of_nat_0 semiring_1_class.of_nat_0)
  have region: "unat S + guard_start guard \<le> unat A \<and> unat A + w \<le> unat S + guard_end guard \<longleftrightarrow> \<not> A < ?lo \<and> \<not> ?hi < A"
    using bounds guard(2) by (auto simp: word_less_nat_alt w_def)
  show ?thesis
  proof (cases "A < ?lo \<or> ?hi < A")
    case True
    then have "run_insts (guard_insts op s b offset guard (p, l, u)) st = Some (Jumps (guard_failure guard) st4)"
      unfolding run using st4 by (auto split: if_splits)
    with True region outside st4 show ?thesis
      by (simp add: guarded_outcome_def Let_def S_def [symmetric] F_def [symmetric] A_def [symmetric] w_def [symmetric])
  next
    case False
    then have reg: "unat S + guard_start guard \<le> unat A" "unat A + w \<le> unat S + guard_end guard" using region by auto
    define m2 where "m2 = store_bytes w A V m1"
    define st6 where "st6 = set_reg 2 (F + 32) (set_reg u (load_bytes 8 (F + 16) m2) (set_reg l (load_bytes 8 (F + 8) m2)
        (set_reg p (load_bytes 8 F m2) (set_mem w A V st4))))"
    have F32: "F + 32 = S" by (simp add: F_def)
    have F: "unat F + 32 = unat S" using sp(1) by (simp add: F_def S_def unat_sub_if_size word_size)
    have slots: "unat (F + 8) = unat F + 8" "unat (F + 16) = unat F + 16"
      using unat_plus_nat [of F 8] unat_plus_nat [of F 16] F unat_u64_less [of S] by simp_all
    have w: "w \<le> 8" unfolding w_def by (cases op) auto
    have "load_bytes 8 a m2 = load_bytes 8 a m1" if "unat F \<le> unat a" "unat a \<le> unat F + 16" for a
      unfolding m2_def using that F reg sp by (intro load_below) (simp_all add: S_def [symmetric])
    then have loads: "load_bytes 8 F m2 = reg_val st p" "load_bytes 8 (F + 8) m2 = reg_val st l" "load_bytes 8 (F + 16) m2 = reg_val st u"
      using slots by (simp_all add: m1_def load_below)
    have "run_insts (guard_insts op s b offset guard (p, l, u)) st = Some (Falls st6)"
      unfolding run using st4 False ne by (simp add: st6_def m2_def w_def [symmetric])
    moreover have "as_regs st6 = as_regs st"
      using ne F32 by (auto simp: st6_def loads set_reg_def set_mem_def st4 S_def reg_val_def fun_eq_iff)
    moreover have "as_mem st6 x = store_bytes w A V (as_mem st) x" if "\<not> unat (x - F) < 24" for x
      using outside [OF that] by (simp add: st6_def m2_def st4 store_bytes_def)
    ultimately show ?thesis using reg
      by (simp add: guarded_outcome_def Let_def S_def [symmetric] F_def [symmetric] A_def [symmetric] V_def [symmetric] w_def [symmetric])
  qed
qed

text \<open>
  C2: A store emitted under a write guard is confined. For every store on the guarded path (the base is
  neither \<^verbatim>\<open>sp\<close> nor \<^verbatim>\<open>s0\<close> and the source is not \<^verbatim>\<open>sp\<close>; any other registers, any offset) the emitted
  text reads back as instructions that, from any machine state whose frame does not wrap, either write
  exactly the bytes of the store inside the guarded region of the frame and restore every register, or
  jump to the failure label before writing; apart from the scratch words below the stack pointer no
  other memory changes.
\<close>
theorem guarded_store_confined:
  assumes "parse_register src = Inr s" "parse_register base = Inr b" "in_i64 offset" "s \<noteq> 2" "b \<noteq> 2" "b \<noteq> 8"
    and "allocated_write_guard g = Some guard" "token (guard_failure guard)"
    and "guard_start guard \<le> guard_end guard" "store_width op \<le> guard_end guard" "guard_end guard + 32 < 2 ^ 64"
  shows "\<exists>g' insts. emit_store op src base offset g = Some g' \<and> emits g g' insts
    \<and> (\<forall>st. 32 \<le> unat (as_regs st 2) \<and> unat (as_regs st 2) + guard_end guard < 2 ^ 64 \<longrightarrow>
         guarded_outcome op (reg_val st b + word_of_int offset) (reg_val st s) guard st (run_insts insts st))"
proof -
  obtain g' p l u where "emit_store op src base offset g = Some g'"
    "emits g g' (guard_insts op s b offset guard (p, l, u))"
    "distinct [0, 2, p, l, u]" "s \<notin> {p, l, u}" "b \<notin> {p, l, u}"
    by (rule emit_guarded_store [OF assms(1-8), of op]) (use assms(9-11) in auto)
  then show ?thesis using run_guard [of p l u s b guard op] assms(4,5,9,10) by blast
qed

definition sample_guard :: code_gen where
  "sample_guard = \<lparr>assembly = [], emission_error = None, allocated_write_guard = Some
     \<lparr>guard_start = 4096, guard_end = 4128, guard_failure = ''outside''\<rparr>\<rparr>"

theorem guarded_store_confined_witness:
  "\<exists>g' insts. emit_store SWord ''x16'' ''t4'' 4096 sample_guard = Some g' \<and> emits sample_guard g' insts
    \<and> guarded_outcome SWord 0x20008 7 \<lparr>guard_start = 4096, guard_end = 4128, guard_failure = ''outside''\<rparr>
        \<lparr>as_regs = (\<lambda>_. 0)(2 := 0x1f000, 16 := 7, 29 := 0x1f008), as_mem = (\<lambda>_. 0)\<rparr>
        (run_insts insts \<lparr>as_regs = (\<lambda>_. 0)(2 := 0x1f000, 16 := 7, 29 := 0x1f008), as_mem = (\<lambda>_. 0)\<rparr>)"
proof -
  let ?st = "\<lparr>as_regs = (\<lambda>_. 0)(2 := 0x1f000, 16 := 7, 29 := 0x1f008), as_mem = (\<lambda>_. 0)\<rparr> :: asm_state"
  let ?guard = "\<lparr>guard_start = 4096, guard_end = 4128, guard_failure = ''outside''\<rparr> :: write_guard"
  have regs: "parse_register ''x16'' = Inr 16" "parse_register ''t4'' = Inr 29" by (simp_all add: parse_register_def)
  have "token ''outside''" by (simp add: token_def plain_char_def)
  then obtain g' insts where r: "emit_store SWord ''x16'' ''t4'' 4096 sample_guard = Some g'" "emits sample_guard g' insts"
    and out: "\<And>st. 32 \<le> unat (as_regs st 2) \<and> unat (as_regs st 2) + guard_end ?guard < 2 ^ 64 \<Longrightarrow>
      guarded_outcome SWord (reg_val st 29 + word_of_int 4096) (reg_val st 16) ?guard st (run_insts insts st)"
    using guarded_store_confined [OF regs, of 4096 sample_guard ?guard SWord]
    by (auto simp: in_i64_def sample_guard_def)
  have "guarded_outcome SWord 0x20008 7 ?guard ?st (run_insts insts ?st)"
    using out [of ?st] by (simp add: reg_val_def)
  with r show ?thesis by blast
qed

end
