(* ===== verification/Spec2Isabelle.thy ===== *)
theory Spec2Isabelle
  imports Asm_Relax Artifact Policy_Witness Slot_Refine Stack_Writes Write_Guard
begin

text \<open>
  Verification of the CellScript compiler back end and of the independent artifact checker.

  \<^bold>\<open>The program.\<close> CellScript compiles contracts for the CKB virtual machine, an RV64
  machine. The code generator (\<^verbatim>\<open>src/src/codegen/\<close>) prints assembly text for the intermediate
  representation; the assembler (\<^verbatim>\<open>codegen/assembler.rs\<close>) reads this text in two passes, relaxes
  branches, encodes instructions and writes an ELF file; the artifact checker
  (\<^verbatim>\<open>src/crates/cellscript-artifact-checker/\<close>), which shares no code with the compiler, parses that
  file again and decides whether it may be deployed. Beside them stands the host codec of policy
  witnesses (\<^verbatim>\<open>src/src/policy_witness.rs\<close>).

  \<^bold>\<open>Conventions.\<close> \<open>Cs_Prelude\<close> fixes them: a \<^verbatim>\<open>Result\<close> is a sum and the question mark
  operator is \<open>rbind\<close>; a \<^verbatim>\<open>usize\<close> or a \<^verbatim>\<open>u64\<close> is a \<open>nat\<close> with its checked and
  saturating operations written out; an \<^verbatim>\<open>i64\<close> or \<^verbatim>\<open>i128\<close> is an \<open>int\<close>; instruction words,
  registers and bytes are words of their width. Where the source extends a vector, the model
  returns the bytes to append or the longer vector. An error keeps its kind and location and drops
  its prose. A Rust panic is a value of the result (\<open>Panic\<close>, \<open>ElfPanic\<close>, \<open>Panicked\<close>, or
  \<open>None\<close> for the emitters), so that its absence can be proved. \<open>Rust_Str\<close> models the string
  operations on UTF-8 bytes.

  \<^bold>\<open>The assembler.\<close>
  \<^item> \<open>Asm_Error\<close>: errors and the provenance that \<^verbatim>\<open>attach\<close> adds.
  \<^item> \<open>Rv_Encode\<close>: the encoders of the six instruction formats, \<^verbatim>\<open>encode_signed_bits\<close>,
    \<^verbatim>\<open>split_hi_lo\<close> and \<^verbatim>\<open>relative_offset\<close>; the lemmas read every field back.
  \<^item> \<open>Li_Plan\<close>: the planner of immediates (\<^verbatim>\<open>assembler/immediate.rs\<close>): \<^verbatim>\<open>plan\<close>,
    \<^verbatim>\<open>recursive\<close>, \<^verbatim>\<open>legacy\<close>, \<^verbatim>\<open>evaluate\<close>. Every plan evaluates to its literal, has at most
    eight steps and is never longer than the fallback.
  \<^item> \<open>Asm_Op\<close>: instructions, operations and their machine code (\<^verbatim>\<open>encode_instruction\<close>,
    \<^verbatim>\<open>op_size\<close> and the sequences for \<^verbatim>\<open>li\<close>, \<^verbatim>\<open>la\<close> and \<^verbatim>\<open>call\<close>).
  \<^item> \<open>Asm_Parse\<close>: the line parser with all its errors; what it accepts is well-formed, scratch
    registers never alias, immediates print and parse back.
  \<^item> \<open>Asm_Layout\<close>: \<^verbatim>\<open>ParsedAssembly\<close>, its reader, its symbol table, branch relaxation and
    section encoding. An error of the reader names the line that failed. The locale \<open>sized_emitter\<close> states the contract between the sizing and the
    encoding pass and is interpreted on the encoder: symbols point at the bytes they label.
  \<^item> \<open>Asm_Relax\<close>: branches left short reach their targets in the final layout.
  \<^item> \<open>Machine_Blocks\<close> and \<open>Machine_Cfg\<close>: machine blocks, the control-flow graph, coverage, layout
    order, metrics, \<^verbatim>\<open>MachineLayoutPlan\<close> and the exported evidence. The blocks partition the
    text, the edges are exactly the transfers of terminators and calls, the search for reachable blocks is exact and the consistency
    checks never fail.
  \<^item> \<open>Elf_Image\<close>: the unresolved-call check, the start trampoline and the ELF writer; the file is
    the reference layout byte for byte.

  \<^bold>\<open>The checker.\<close>
  \<^item> \<open>Elf_Decode\<close> and \<open>Elf_Parse\<close>: all of \<^verbatim>\<open>elf.rs\<close>, the parser of an untrusted file. It
    never panics (indexing, slicing, chunking and subtraction are modelled with the panic they have
    out of range); in an accepted file every word is allowlisted, control flow stays on whole
    instructions of the text, and sections and segments map as declared.
  \<^item> \<open>Rv_Sem\<close>: a reference semantics of RV64 registers and control flow, against which the encoded
    sequences are proved to do what their mnemonics say.
  \<^item> \<open>Stack_Writes\<close>: the stack adjustments the checker lists, against that semantics. They are all
    the writes of the stack pointer, and each changes it by the listed displacement when executed.
  \<^item> \<open>Artifact\<close>: compiler and checker together. The parser reads an assembled file back as it was
    written and admits its text; encoder and decoder agree on targets; the trampoline enters the
    program and exits.

  \<^bold>\<open>The code generator.\<close>
  \<^item> \<open>Ir_Data\<close>: the types of the intermediate representation the back end reads.
  \<^item> \<open>Scalar_Slots\<close> and \<open>Slot_Refine\<close>: \<^verbatim>\<open>scalar_slots.rs\<close>. Liveness terminates and is exact,
    the allocator never panics, and execution of the instructions on shared slots refines their
    execution with one cell per variable, for any function that an instruction computes from the
    values of its operands.
  \<^item> \<open>Emission\<close> and \<open>Write_Guard\<close>: \<^verbatim>\<open>emission.rs\<close>, helpers of \<^verbatim>\<open>frame.rs\<close> and
    \<^verbatim>\<open>value_arena/write_guard.rs\<close>. The emitted text is read back by the modelled line parser and
    run: a guarded store writes inside its region or jumps to the failure label.

  \<^bold>\<open>The host codec.\<close> \<open>Policy_Witness\<close>: \<^verbatim>\<open>policy_witness.rs\<close>. The locale
  \<open>canonical_codec\<close> states that decoding accepts exactly the encodings; it is interpreted on records
  and on bundles.

  \<^bold>\<open>Termination and bounds.\<close> No definition uses fuel. Loops are structural recursions or
  \<open>function\<close>s with a measure (the work list of reachable blocks, the recursion of the planner, the
  scans of strings, the search for a free slot). The liveness loop is a partial function whose
  result \<open>None\<close> means that it never returns; \<open>liveness_exact\<close> shows that it returns, since each
  further pass adds a live variable and there are finitely many. Sizes of in-memory vectors are
  assumed to fit the address space, and where an image has to fit its fields this is a hypothesis
  of the theorem.

  \<^bold>\<open>Defects found.\<close> Lemma \<open>store_hides_pending_auipc\<close> (\<open>Elf_Parse\<close>) evaluates a text in
  which a store hides a pending \<^verbatim>\<open>auipc ra\<close> from the checker's rule for returns;
  \<open>coarse_text_alignment\<close> (\<open>Asm_Layout\<close>) a text on which the two passes disagree about
  alignment, which generated text never contains; \<open>parse_immediate_overflow\<close> (\<open>Asm_Parse\<close>) a
  doubly signed hexadecimal immediate whose negation overflows.

  \<^bold>\<open>Not modelled.\<close> The lexer, the parser, the type checker and the lowering to the
  intermediate representation: they work on the syntax of the source language, for which the
  repository has no reference semantics to prove them against. The text emission of whole functions
  and the runtime library of hand-written assembly, which need a semantics of the CKB system calls.
  The checker's comparison of the serialised lowering record with the machine code, its pattern
  checks of runtime helpers and its codecs, which are tied to that runtime text and to the typed
  records of the front end. Hashing (an external library), JSON metadata, the command line, the
  package manager, the language server, the adapters and services, which are input and output. Loads,
  stores and system calls are outside \<open>Rv_Sem\<close>; \<open>Write_Guard\<close> has its own machine with memory for
  the instructions it needs.
\<close>

end
